(* ===== verification/Prelude.thy ===== *)
theory Prelude
  imports Main "HOL-Library.Sublist" "HOL-Library.List_Lexorder" "HOL-Library.Char_ord"
    "HOL-Library.Multiset" "HOL-Library.AList"
begin

text \<open>
  What every theory of the development shares: the names of its model types, the lemma
  collections its proofs draw on, and generic facts about lists, prefixes, association lists
  and maps that the HOL library does not state in the form used here.

  Go strings are byte strings; they are modelled as \<^typ>\<open>string\<close>, a list of 8-bit
  characters, and Go's \<open><\<close> on strings is the lexicographic order of \<open>List_Lexorder\<close>.
\<close>

type_synonym path = string
type_synonym bytes = "char list"

named_theorems str_simps "equations of the Go string functions"
named_theorems path_simps "equations of the Go path functions on canonical paths"
named_theorems tree_simps "equations of the merged tree's operations"
named_theorems lru_simps "equations of the chunk cache's operations"

section \<open>Lists and prefixes\<close>

lemma prefix_conv_take: "prefix xs ys \<longleftrightarrow> take (length xs) ys = xs"
  by (metis append_eq_conv_conj append_take_drop_id prefix_def)

lemma strict_prefix_butlast [intro]: "xs \<noteq> [] \<Longrightarrow> strict_prefix (butlast xs) xs"
  by (simp add: strict_prefix_def prefixeq_butlast)
     (metis append_butlast_last_id not_Cons_self2 append_self_conv)

lemma strict_prefix_snoc: "strict_prefix xs (ys @ [y]) \<longleftrightarrow> prefix xs ys"
  by (auto simp: strict_prefix_def dest: prefix_length_le)

lemma strict_prefix_conv_butlast: "strict_prefix xs ys \<longleftrightarrow> ys \<noteq> [] \<and> prefix xs (butlast ys)"
  by (cases ys rule: rev_cases) (auto simp: strict_prefix_snoc)

lemma dropWhile_id: "xs = [] \<or> \<not> P (hd xs) \<Longrightarrow> dropWhile P xs = xs"
  by (cases xs) auto

section \<open>Association lists\<close>

text \<open>
  A Go map that the code ranges over is an association list with distinct keys: the order of
  the list is one iteration order that Go's randomised \<open>range\<close> may take.
\<close>

definition akeys :: "('k \<times> 'v) list \<Rightarrow> 'k list" where
  "akeys al = map fst al"

lemma set_akeys: "set (akeys al) = dom (map_of al)"
  by (simp add: akeys_def dom_map_of_conv_image_fst)

lemma akeys_simps [simp]: "akeys [] = []" "akeys (kv # al) = fst kv # akeys al"
  by (simp_all add: akeys_def)

lemma distinct_akeys_update: "distinct (akeys al) \<Longrightarrow> distinct (akeys (AList.update k v al))"
  by (simp add: akeys_def distinct_update)

lemma set_update_subset: "set (AList.update k v al) \<subseteq> insert (k, v) (set al)"
  by (induction al) auto

lemma distinct_akeys_filter: "distinct (akeys al) \<Longrightarrow> distinct (akeys (filter P al))"
  unfolding akeys_def by (induction al) auto

lemma map_of_filter_fst:
  "map_of (filter (\<lambda>kv. P (fst kv)) al) = (\<lambda>k. if P k then map_of al k else None)"
  by (induction al) (auto simp: fun_eq_iff)

lemma map_of_filter_akeys:
  assumes "distinct (akeys al)"
  shows "map_of (filter P al) k =
    (case map_of al k of None \<Rightarrow> None | Some v \<Rightarrow> if P (k, v) then Some v else None)"
  using assms
proof (induction al)
  case (Cons kv al)
  then have "map_of al (fst kv) = None"
    by (metis akeys_simps(2) distinct.simps(2) domIff set_akeys)
  with Cons show ?case by (cases kv) (auto split: option.splits)
qed simp

lemma mset_eq_map_of:
  assumes "mset al = mset al'" and "distinct (akeys al)"
  shows "map_of al = map_of al'"
proof -
  from assms have "distinct (map fst al')"
    by (metis akeys_def mset_eq_imp_distinct_iff mset_map)
  with assms show ?thesis
    by (metis akeys_def map_of_inject_set mset_eq_setD)
qed

section \<open>Sorted distinct enumerations are unique\<close>

lemma sorted_mset_unique:
  fixes xs ys :: "'a::linorder list"
  assumes "sorted xs" "sorted ys" "mset xs = mset ys"
  shows "xs = ys"
  using assms by (metis properties_for_sort)

lemma not_isl_Inr: "\<not> isl x \<Longrightarrow> \<exists>y. x = Inr y"
  by (cases x) simp_all

end
