(* ===== verification/Go_Strings.thy ===== *)
theory Go_Strings
  imports Prelude
begin

text \<open>
  The functions of Go's \<open>strings\<close> package that the program calls, on byte strings:
  \<open>HasPrefix\<close>, \<open>TrimPrefix\<close>, \<open>Trim\<close>, \<open>Split\<close> and \<open>Join\<close>, \<open>ContainsAny\<close>,
  \<open>IndexByte\<close>, \<open>LastIndex\<close>, \<open>Contains\<close>, \<open>ReplaceAll\<close>.  Separators and cutsets are
  the single characters the program passes.
\<close>

section \<open>Prefixes\<close>

definition has_prefix :: "string \<Rightarrow> string \<Rightarrow> bool" where
  "has_prefix s p \<longleftrightarrow> take (length p) s = p"

lemma has_prefix_iff: "has_prefix s p \<longleftrightarrow> prefix p s"
  by (simp add: has_prefix_def prefix_conv_take)

definition trim_prefix :: "string \<Rightarrow> string \<Rightarrow> string" where
  "trim_prefix s p = (if has_prefix s p then drop (length p) s else s)"

lemma trim_prefix_append [simp]: "trim_prefix (p @ s) p = s"
  by (simp add: trim_prefix_def has_prefix_def)

lemma has_prefix_obtain:
  assumes "has_prefix s p" obtains t where "s = p @ t"
  using assms by (auto simp: has_prefix_iff prefix_def)

section \<open>Trimming\<close>

definition trim_char :: "char \<Rightarrow> string \<Rightarrow> string" where
  "trim_char c s = rev (dropWhile (\<lambda>x. x = c) (rev (dropWhile (\<lambda>x. x = c) s)))"

lemma trim_char_id: "s = [] \<or> hd s \<noteq> c \<and> last s \<noteq> c \<Longrightarrow> trim_char c s = s"
  by (auto simp: trim_char_def dropWhile_id hd_rev)

lemma trim_char_last: "trim_char c s \<noteq> [] \<Longrightarrow> last (trim_char c s) \<noteq> c"
  unfolding trim_char_def by (metis (full_types) hd_dropWhile hd_rev last_rev rev_is_Nil_conv rev_rev_ident)

section \<open>Splitting and joining\<close>

fun split_on :: "char \<Rightarrow> string \<Rightarrow> string list" where
  "split_on c [] = [[]]"
| "split_on c (x # xs) =
     (if x = c then [] # split_on c xs
      else case split_on c xs of [] \<Rightarrow> [[x]] | h # t \<Rightarrow> (x # h) # t)"

fun join_with :: "string \<Rightarrow> string list \<Rightarrow> string" where
  "join_with sep [] = []"
| "join_with sep [s] = s"
| "join_with sep (s # t # ts) = s @ sep @ join_with sep (t # ts)"

lemma split_on_not_Nil [simp]: "split_on c s \<noteq> []"
  by (induction s) (auto split: list.splits)

lemma split_on_no_sep: "seg \<in> set (split_on c s) \<Longrightarrow> c \<notin> set seg"
  by (induction s arbitrary: seg) (auto split: list.splits if_splits)

lemma join_with_Cons: "join_with sep (s # ts) = (if ts = [] then s else s @ sep @ join_with sep ts)"
  by (cases ts) auto

lemma join_split: "join_with [c] (split_on c s) = s"
proof (induction s)
  case (Cons x xs)
  show ?case
  proof (cases "x = c")
    case True
    with Cons show ?thesis by (simp add: join_with_Cons)
  next
    case False
    with Cons show ?thesis by (cases "split_on c xs") (auto simp: join_with_Cons split: if_splits)
  qed
qed simp

lemma split_on_append_sep: "split_on c (s @ c # t) = split_on c s @ split_on c t"
proof (induction s)
  case (Cons x s)
  then show ?case by (cases "split_on c s") auto
qed simp

lemma split_on_free: "c \<notin> set s \<Longrightarrow> split_on c s = [s]"
  by (induction s) auto

lemma split_join:
  "segs \<noteq> [] \<Longrightarrow> \<forall>s \<in> set segs. c \<notin> set s \<Longrightarrow> split_on c (join_with [c] segs) = segs"
proof (induction segs)
  case (Cons s segs)
  then show ?case
    by (cases segs) (auto simp: split_on_free split_on_append_sep)
qed simp

lemma join_with_append:
  "join_with sep (xs @ ys) =
     (if xs = [] then join_with sep ys else if ys = [] then join_with sep xs
      else join_with sep xs @ sep @ join_with sep ys)"
  by (induction xs) (auto simp: join_with_Cons)

lemma join_with_snoc: "xs \<noteq> [] \<Longrightarrow> join_with sep (xs @ [y]) = join_with sep xs @ sep @ y"
  by (simp add: join_with_append)

section \<open>Searching\<close>

definition contains_any :: "string \<Rightarrow> string \<Rightarrow> bool" where
  "contains_any s chars \<longleftrightarrow> list_ex (\<lambda>c. c \<in> set chars) s"

fun index_byte :: "string \<Rightarrow> char \<Rightarrow> nat option" where
  "index_byte [] c = None"
| "index_byte (x # xs) c = (if x = c then Some 0 else map_option Suc (index_byte xs c))"

definition last_index_byte :: "string \<Rightarrow> char \<Rightarrow> nat option" where
  "last_index_byte s c =
     (case index_byte (rev s) c of None \<Rightarrow> None | Some i \<Rightarrow> Some (length s - 1 - i))"

definition contains_str :: "string \<Rightarrow> string \<Rightarrow> bool" where
  "contains_str s sub \<longleftrightarrow> list_ex (\<lambda>i. has_prefix (drop i s) sub) [0..<Suc (length s)]"

definition replace_char :: "char \<Rightarrow> char \<Rightarrow> string \<Rightarrow> string" where
  "replace_char a b s = map (\<lambda>c. if c = a then b else c) s"

lemma contains_any_iff: "contains_any s chars \<longleftrightarrow> set s \<inter> set chars \<noteq> {}"
  by (auto simp: contains_any_def list_ex_iff)

lemma index_byte_None: "index_byte s c = None \<longleftrightarrow> c \<notin> set s"
  by (induction s) auto

lemma index_byte_Some:
  "index_byte s c = Some i \<Longrightarrow> i < length s \<and> s ! i = c \<and> c \<notin> set (take i s)"
  by (induction s arbitrary: i) (auto split: if_splits)

lemma index_byte_append: "c \<notin> set s \<Longrightarrow> index_byte (s @ c # t) c = Some (length s)"
  by (induction s) auto

lemma last_index_byte_None: "last_index_byte s c = None \<longleftrightarrow> c \<notin> set s"
  using index_byte_None [of "rev s" c] by (auto simp: last_index_byte_def split: option.splits)

lemma last_index_byte_append: "c \<notin> set t \<Longrightarrow> last_index_byte (s @ c # t) c = Some (length s)"
  using index_byte_append [of c "rev t" "rev s"]
  by (simp add: last_index_byte_def)

end
