(* ===== verification/Go_Path.thy ===== *)
theory Go_Path
  imports Go_Strings
begin

text \<open>
  The functions of Go's \<open>path\<close> package that the program calls: \<open>Clean\<close>, \<open>Dir\<close>,
  \<open>Base\<close> and \<open>Join\<close> (and \<open>filepath.Join\<close>, which is \<open>path.Join\<close> on Unix).  \<open>Clean\<close>
  is written on the list of segments: each step of its loop reads one segment of the input,
  which is dropped (empty or a dot), backtracks one element (dot-dot) or is appended.

  The second half is the dictionary between strings and segment lists on which every proof
  about paths rests: \<open>abs_path\<close> writes a list of proper segments as a rooted path, \<open>psegs\<close>
  reads it back, and the path functions become \<open>butlast\<close>, \<open>last\<close> and \<open>prefix\<close>.
\<close>

section \<open>The functions\<close>

abbreviation slash :: char where "slash \<equiv> CHR ''/''"

definition clean_step :: "bool \<Rightarrow> string list \<Rightarrow> string \<Rightarrow> string list" where
  "clean_step rooted acc seg =
     (if seg = [] \<or> seg = ''.'' then acc
      else if seg = ''..'' then
        (case acc of
           [] \<Rightarrow> if rooted then [] else [''..'']
         | x # xs \<Rightarrow> if \<not> rooted \<and> x = ''..'' then ''..'' # acc else xs)
      else seg # acc)"

definition clean_segs :: "bool \<Rightarrow> string list \<Rightarrow> string list" where
  "clean_segs rooted segs = rev (foldl (clean_step rooted) [] segs)"

definition path_clean :: "path \<Rightarrow> path" where
  "path_clean p =
     (if p = [] then ''.''
      else let rooted = (hd p = slash);
               out = (if rooted then ''/'' else []) @
                     join_with ''/'' (clean_segs rooted (split_on slash p))
           in if out = [] then ''.'' else out)"

definition path_split_dir :: "path \<Rightarrow> path" where
  "path_split_dir p =
     (case last_index_byte p slash of None \<Rightarrow> [] | Some i \<Rightarrow> take (Suc i) p)"

definition path_dir :: "path \<Rightarrow> path" where
  "path_dir p = path_clean (path_split_dir p)"

definition path_base :: "path \<Rightarrow> path" where
  "path_base p =
     (if p = [] then ''.''
      else let q = rev (dropWhile (\<lambda>c. c = slash) (rev p));
               b = (case last_index_byte q slash of None \<Rightarrow> q | Some i \<Rightarrow> drop (Suc i) q)
           in if b = [] then ''/'' else b)"

definition path_join :: "path list \<Rightarrow> path" where
  "path_join elems =
     (if concat elems = [] then []
      else path_clean (join_with ''/'' (dropWhile (\<lambda>e. e = []) elems)))"

section \<open>Proper segments and rooted paths\<close>

definition proper :: "string \<Rightarrow> bool" where
  "proper seg \<longleftrightarrow> seg \<noteq> [] \<and> seg \<noteq> ''.'' \<and> seg \<noteq> ''..'' \<and> slash \<notin> set seg"

abbreviation proper_segs :: "string list \<Rightarrow> bool" where
  "proper_segs segs \<equiv> list_all proper segs"

definition abs_path :: "string list \<Rightarrow> path" where
  "abs_path segs = slash # join_with ''/'' segs"

definition psegs :: "path \<Rightarrow> string list" where
  "psegs p = clean_segs True (split_on slash p)"

lemma clean_segs_Nil [simp]: "clean_segs r [] = []"
  by (simp add: clean_segs_def)

lemma clean_segs_snoc: "clean_segs r (segs @ [s]) = rev (clean_step r (rev (clean_segs r segs)) s)"
  by (simp add: clean_segs_def)

lemma clean_segs_snoc_Nil [simp]: "clean_segs r (segs @ [[]]) = clean_segs r segs"
  by (simp add: clean_segs_snoc clean_step_def)

lemma clean_segs_Cons_Nil [simp]: "clean_segs r ([] # segs) = clean_segs r segs"
  by (simp add: clean_segs_def clean_step_def)

lemma clean_segs_snoc_proper: "proper s \<Longrightarrow> clean_segs r (segs @ [s]) = clean_segs r segs @ [s]"
  by (simp add: clean_segs_snoc clean_step_def proper_def)

lemma clean_segs_proper: "proper_segs segs \<Longrightarrow> clean_segs r segs = segs"
  by (induction segs rule: rev_induct) (simp_all add: clean_segs_snoc_proper)

lemma proper_clean_segs:
  "\<forall>s \<in> set segs. slash \<notin> set s \<Longrightarrow> proper_segs (clean_segs True segs)"
proof (induction segs rule: rev_induct)
  case (snoc s segs)
  then show ?case
    by (cases "rev (clean_segs True segs)")
       (auto simp: clean_segs_snoc clean_step_def proper_def list_all_iff dest: arg_cong [of _ _ rev])
qed simp

lemma proper_psegs [simp]: "proper_segs (psegs p)"
  unfolding psegs_def by (rule proper_clean_segs) (auto dest: split_on_no_sep)

lemma abs_path_Nil [simp]: "abs_path [] = ''/''"
  by (simp add: abs_path_def)

lemma abs_path_snoc:
  "abs_path (segs @ [s]) = (if segs = [] then ''/'' @ s else abs_path segs @ slash # s)"
  by (simp add: abs_path_def join_with_append)

lemma proper_no_slash: "proper_segs segs \<Longrightarrow> \<forall>s \<in> set segs. slash \<notin> set s"
  by (auto simp: list_all_iff proper_def)

lemma split_abs_path: "proper_segs segs \<Longrightarrow> segs \<noteq> [] \<Longrightarrow> split_on slash (abs_path segs) = [] # segs"
  using split_join [of segs slash] proper_no_slash by (simp add: abs_path_def)

lemma psegs_abs_path [simp]: "proper_segs segs \<Longrightarrow> psegs (abs_path segs) = segs"
  by (cases "segs = []")
     (simp add: psegs_def clean_segs_def clean_step_def, simp add: psegs_def split_abs_path clean_segs_proper)

lemma abs_path_inj: "proper_segs xs \<Longrightarrow> proper_segs ys \<Longrightarrow> abs_path xs = abs_path ys \<longleftrightarrow> xs = ys"
  by (metis psegs_abs_path)

lemma abs_path_root: "proper_segs xs \<Longrightarrow> abs_path xs = ''/'' \<longleftrightarrow> xs = []"
  using abs_path_inj [of xs "[]"] by simp

lemma path_clean_rooted: "path_clean (slash # p) = abs_path (psegs (slash # p))"
  by (simp add: path_clean_def psegs_def abs_path_def Let_def)

lemma psegs_slash [simp]: "psegs (slash # p) = psegs p"
  by (simp add: psegs_def)

lemma psegs_trailing [simp]: "psegs (p @ [slash]) = psegs p"
  using split_on_append_sep [of slash p "[]"] by (simp add: psegs_def)

lemma proper_butlast: "proper_segs segs \<Longrightarrow> proper_segs (butlast segs)"
  by (auto simp: list_all_iff dest: in_set_butlastD)

lemma path_split_dir_append:
  "slash \<notin> set s \<Longrightarrow> path_split_dir (p @ slash # s) = p @ [slash]"
  by (simp add: path_split_dir_def last_index_byte_append)

lemma path_dir_abs_path [path_simps]:
  assumes "proper_segs segs"
  shows "path_dir (abs_path segs) = abs_path (butlast segs)"
proof (cases segs rule: rev_cases)
  case Nil
  then show ?thesis
    by (simp add: path_dir_def path_split_dir_def last_index_byte_def path_clean_def
        clean_segs_def clean_step_def)
next
  case (snoc ss s)
  with assms have s: "slash \<notin> set s" and ss: "proper_segs ss"
    by (auto simp: proper_def)
  show ?thesis
  proof (cases "ss = []")
    case True
    with snoc s show ?thesis
      using path_split_dir_append [of s "[]"]
      by (simp add: path_dir_def abs_path_def path_clean_rooted [of "[]", unfolded abs_path_def]
          psegs_def clean_segs_def clean_step_def)
  next
    case False
    with snoc s have "path_split_dir (abs_path segs) = abs_path ss @ [slash]"
      by (simp add: abs_path_snoc path_split_dir_append)
    then have "path_dir (abs_path segs) = abs_path (psegs (abs_path ss @ [slash]))"
      using path_clean_rooted by (simp add: path_dir_def abs_path_def)
    with snoc ss show ?thesis by simp
  qed
qed

lemma path_base_abs_path [path_simps]:
  assumes "proper_segs segs" "segs \<noteq> []"
  shows "path_base (abs_path segs) = last segs"
proof -
  from assms obtain ss s where segs: "segs = ss @ [s]" and s: "proper s"
    by (cases segs rule: rev_cases) auto
  have "\<exists>p. abs_path segs = p @ slash # s"
    by (cases "ss = []") (simp add: segs abs_path_def, simp add: segs abs_path_snoc)
  then obtain p where p: "abs_path segs = p @ slash # s" ..
  from s have "rev (dropWhile (\<lambda>c. c = slash) (rev (p @ slash # s))) = p @ slash # s"
    by (subst dropWhile_id) (auto simp: proper_def hd_append hd_rev dest: last_in_set)
  with s p show ?thesis
    by (simp add: segs path_base_def last_index_byte_append proper_def Let_def)
qed

lemma has_prefix_abs_path [path_simps]:
  assumes "proper_segs p" "proper_segs a" "p \<noteq> []"
  shows "has_prefix (abs_path a) (abs_path p @ ''/'') \<longleftrightarrow> strict_prefix p a"
proof
  assume "has_prefix (abs_path a) (abs_path p @ ''/'')"
  then obtain t where t: "abs_path a = abs_path p @ slash # t"
    by (auto elim: has_prefix_obtain)
  have "a \<noteq> []"
    using t by (auto simp: abs_path_def)
  with assms t have "a = p @ split_on slash t"
    by (metis append_Cons list.inject split_abs_path split_on_append_sep)
  then show "strict_prefix p a"
    by (simp add: strict_prefix_def)
next
  assume "strict_prefix p a"
  then obtain t where "a = p @ t" "t \<noteq> []"
    by (auto simp: strict_prefix_def prefix_def)
  with assms show "has_prefix (abs_path a) (abs_path p @ ''/'')"
    by (simp add: has_prefix_iff abs_path_def join_with_append)
qed

lemma has_prefix_root [simp]: "has_prefix (abs_path a) ''/''"
  by (simp add: has_prefix_def abs_path_def)

section \<open>Joining\<close>

lemma path_join_proper:
  assumes "proper_segs s" "s \<noteq> []"
  shows "path_join s = join_with ''/'' s"
proof -
  obtain x xs where s: "s = x # xs" using assms(2) by (cases s) auto
  then have x: "x \<noteq> []" "hd x \<noteq> slash" using assms(1) by (cases x; auto simp: proper_def)+
  then have "join_with ''/'' s \<noteq> []" "hd (join_with ''/'' s) \<noteq> slash"
    by (auto simp: s join_with_Cons hd_append)
  moreover have "split_on slash (join_with ''/'' s) = s"
    using split_join [OF assms(2)] proper_no_slash [OF assms(1)] by simp
  ultimately have "path_clean (join_with ''/'' s) = join_with ''/'' s"
    using assms(1) by (simp add: path_clean_def clean_segs_proper)
  with x show ?thesis by (simp add: path_join_def s)
qed

lemma path_join_rooted:
  assumes "has_prefix dir ''/''"
  shows "path_join [dir, key] = abs_path (psegs (dir @ ''/'' @ key))"
proof -
  obtain s where "dir = slash # s" using assms by (cases dir) (auto simp: has_prefix_iff)
  then show ?thesis
    using path_clean_rooted [of "s @ slash # key"] by (simp add: path_join_def)
qed

lemma psegs_snoc: "proper s \<Longrightarrow> psegs (p @ slash # s) = psegs p @ [s]"
  by (simp add: psegs_def split_on_append_sep split_on_free clean_segs_snoc_proper proper_def)

lemma psegs_dotdot: "psegs (p @ ''/..'') = butlast (psegs p)"
proof -
  have "split_on slash (p @ ''/..'') = split_on slash p @ [''..'']"
    using split_on_append_sep [of slash p "''..''"] by (simp add: split_on_free)
  then show ?thesis
    by (cases "rev (clean_segs True (split_on slash p))")
      (auto simp: psegs_def clean_segs_snoc clean_step_def rev_swap)
qed

lemma psegs_dotdots: "psegs (p @ concat (replicate n ''/..'')) = take (length (psegs p) - n) (psegs p)"
proof (induction n)
  case (Suc n)
  have "concat (replicate (Suc n) ''/..'') = concat (replicate n ''/..'') @ ''/..''"
    by (induction n) simp_all
  then have "psegs (p @ concat (replicate (Suc n) ''/..'')) = butlast (take (length (psegs p) - n) (psegs p))"
    using psegs_dotdot [of "p @ concat (replicate n ''/..'')"] Suc by simp
  then show ?case by (simp add: butlast_take)
qed simp

text \<open>Proper segments are appended.\<close>

lemma psegs_append: "proper_segs xs \<Longrightarrow> xs \<noteq> [] \<Longrightarrow> psegs (p @ abs_path xs) = psegs p @ xs"
proof (induction xs rule: rev_induct)
  case (snoc x xs)
  show ?case
  proof (cases "xs = []")
    case True
    then show ?thesis using snoc.prems psegs_snoc [of x p] by (simp add: abs_path_def)
  next
    case False
    then have "p @ abs_path (xs @ [x]) = (p @ abs_path xs) @ slash # x" by (simp add: abs_path_snoc)
    then show ?thesis using snoc False psegs_snoc [of x "p @ abs_path xs"] by simp
  qed
qed simp

lemma path_join_snoc:
  assumes "proper_segs xs" "proper s"
  shows "path_join [abs_path xs, s] = abs_path (xs @ [s])"
proof -
  have split: "split_on slash (abs_path xs @ slash # s) = split_on slash (abs_path xs) @ [s]"
    using assms(2) by (simp add: split_on_append_sep split_on_free proper_def)
  have "psegs (abs_path xs @ ''/'' @ s) = xs @ [s]"
    using assms(1) by (simp add: psegs_def split clean_segs_snoc_proper [OF assms(2)])
      (metis psegs_abs_path psegs_def)
  then show ?thesis
    using path_join_rooted [of "abs_path xs" s] by simp
qed

end
