(* ===== verification/Go_Sort.thy ===== *)
theory Go_Sort
  imports Prelude
begin

text \<open>
  Go's \<open>sort.Slice\<close>.  The function is documented not to be stable: it promises a
  permutation of its input, sorted by the key the program compares, and nothing about the
  order of elements with equal keys.  The interface \<open>slice_sorter\<close> states that promise; the
  components that sort take the sorting function as an argument and rest on the interface
  alone.  \<open>insertion_sort\<close> is what the library runs on slices of at most twelve elements.
\<close>

section \<open>The interface\<close>

locale slice_sorter =
  fixes key :: "'a \<Rightarrow> 'k::linorder" and srt :: "'a list \<Rightarrow> 'a list"
  assumes mset_srt: "mset (srt xs) = mset xs"
    and sorted_srt: "sorted (map key (srt xs))"
begin

lemma set_srt: "set (srt xs) = set xs"
  by (metis mset_srt set_mset_mset)

lemma distinct_srt: "distinct (map f (srt xs)) = distinct (map f xs)"
  by (metis mset_srt mset_map mset_eq_imp_distinct_iff)

lemma sum_list_srt: "sum_list (map f (srt xs)) = (sum_list (map f xs) :: int)"
  by (metis mset_srt mset_map sum_mset_sum_list)

lemma srt_unique: "inj_on key (set xs) \<Longrightarrow> srt xs = sort_key key xs"
  by (metis mset_srt sorted_srt sort_key_inj_key_eq)

text \<open>What stands after an element in the result has a key that is at least as large.\<close>

lemma srt_before:
  assumes "srt xs = as @ x # bs" "y \<in> set bs"
  shows "key x \<le> key y"
proof -
  have "sorted (map key (as @ x # bs))"
    using sorted_srt assms(1) by metis
  with assms(2) show ?thesis
    by (simp add: sorted_append)
qed

lemma sorted_suffix_keys:
  assumes "x # rest = drop n (srt xs)" "y \<in> set rest"
  shows "key x \<le> key y"
proof -
  have "srt xs = take n (srt xs) @ x # rest"
    by (metis append_take_drop_id assms(1))
  from this assms(2) show ?thesis by (rule srt_before)
qed

end

section \<open>Insertion sort\<close>

fun ins_rev :: "('a \<Rightarrow> 'k::linorder) \<Rightarrow> 'a \<Rightarrow> 'a list \<Rightarrow> 'a list" where
  "ins_rev key x [] = [x]"
| "ins_rev key x (y # ys) = (if key x < key y then y # ins_rev key x ys else x # y # ys)"

definition insertion_sort :: "('a \<Rightarrow> 'k::linorder) \<Rightarrow> 'a list \<Rightarrow> 'a list" where
  "insertion_sort key xs = rev (foldl (\<lambda>acc x. ins_rev key x acc) [] xs)"

lemma mset_ins_rev: "mset (ins_rev key x ys) = add_mset x (mset ys)"
  by (induction ys) auto

lemma mset_foldl_ins_rev:
  "mset (foldl (\<lambda>acc x. ins_rev key x acc) acc xs) = mset acc + mset xs"
  by (induction xs arbitrary: acc) (auto simp: mset_ins_rev)

lemma set_ins_rev: "set (ins_rev key x ys) = insert x (set ys)"
  using mset_ins_rev [of key x ys] by (metis set_mset_add_mset_insert set_mset_mset)

lemma sorted_ins_rev:
  "sorted_wrt (\<lambda>x y. key y \<le> key x) ys \<Longrightarrow> sorted_wrt (\<lambda>x y. key y \<le> key x) (ins_rev key x ys)"
  by (induction ys) (auto simp: set_ins_rev)

lemma sorted_foldl_ins_rev:
  "sorted_wrt (\<lambda>x y. key y \<le> key x) acc \<Longrightarrow>
   sorted_wrt (\<lambda>x y. key y \<le> key x) (foldl (\<lambda>acc x. ins_rev key x acc) acc xs)"
  by (induction xs arbitrary: acc) (auto simp: sorted_ins_rev)

interpretation ins: slice_sorter key "insertion_sort key" for key :: "'a \<Rightarrow> 'k::linorder"
proof
  show "mset (insertion_sort key xs) = mset xs" for xs
    by (simp add: insertion_sort_def mset_foldl_ins_rev)
  show "sorted (map key (insertion_sort key xs))" for xs
    using sorted_foldl_ins_rev [of key "[]" xs]
    by (simp add: insertion_sort_def sorted_map sorted_wrt_rev)
qed

end
