(* ===== verification/Tar.thy ===== *)
theory Tar
  imports Prelude
begin

text \<open>
  The data the program reads from \<open>archive/tar\<close> and \<open>tarfs\<close>: a tar header with the fields
  the program uses and an index entry, which pairs a header with the entry's file name.  A
  modification time is \<open>None\<close> for Go's zero time and otherwise its Unix seconds.
\<close>

record tar_header =
  typeflag :: char
  hname :: string
  linkname :: string
  hsize :: int
  hmode :: int
  huid :: int
  hgid :: int
  modtime :: "int option"

definition TypeReg :: char where "TypeReg = CHR ''0''"
definition TypeLink :: char where "TypeLink = CHR ''1''"
definition TypeSymlink :: char where "TypeSymlink = CHR ''2''"
definition TypeDir :: char where "TypeDir = CHR ''5''"

lemma typeflags_distinct [simp]:
  "TypeReg \<noteq> TypeDir" "TypeLink \<noteq> TypeDir" "TypeSymlink \<noteq> TypeDir" "TypeDir \<noteq> TypeSymlink"
  "TypeReg \<noteq> TypeSymlink" "TypeLink \<noteq> TypeSymlink"
  by (simp_all add: TypeReg_def TypeLink_def TypeSymlink_def TypeDir_def)

text \<open>A header literal that sets only some fields leaves the others at Go's zero values.\<close>

definition zero_header :: tar_header where
  "zero_header = \<lparr>typeflag = CHR 0x00, hname = [], linkname = [], hsize = 0, hmode = 0,
     huid = 0, hgid = 0, modtime = None\<rparr>"

record tarfs_entry =
  filename :: string
  header :: tar_header

end
