(* ===== verification/Merge.thy ===== *)
theory Merge
  imports Go_Path Go_Sort Tar
begin

text \<open>
  \<open>internal/merge/merge.go\<close>: the tree that is built from the entry lists of an image's
  layers.  \<open>Tree.entries\<close> is an association list with distinct keys (the code ranges over
  it), \<open>Tree.children\<close> a map.  Every operation of the file is one definition; \<open>srt\<close> is the
  \<open>sort.Slice\<close> call of \<open>applyLayer\<close>.  The lemmas relate each operation to the tree's
  \<open>view\<close>, its content as a map from segment lists.
\<close>

section \<open>Data\<close>

definition wh_prefix :: string where "wh_prefix = ''.wh.''"
definition wh_opaque :: string where "wh_opaque = ''.wh..wh..opq''"

record entry =
  epath :: path
  eheader :: tar_header
  elayer :: int

definition is_dir :: "entry \<Rightarrow> bool" where
  "is_dir e \<longleftrightarrow> typeflag (eheader e) = TypeDir \<or> epath e = ''/''"

definition is_symlink :: "entry \<Rightarrow> bool" where
  "is_symlink e \<longleftrightarrow> typeflag (eheader e) = TypeSymlink"

definition is_hardlink :: "entry \<Rightarrow> bool" where
  "is_hardlink e \<longleftrightarrow> typeflag (eheader e) = TypeLink"

record tree =
  entries :: "(path \<times> entry) list"
  kids :: "path \<rightharpoonup> path list"

datatype fs_error = ErrNotExist

section \<open>Paths\<close>

definition canon :: "path \<Rightarrow> path" where
  "canon p =
     (if p = [] \<or> p = ''.'' then ''/''
      else path_clean (if \<not> has_prefix p ''/'' then ''/'' @ p else p))"

lemma canon_eq: "canon p = abs_path (psegs p)"
proof -
  consider "p = []" | "p = ''.''" | q where "p = slash # q" | "p \<noteq> []" "p \<noteq> ''.''" "hd p \<noteq> slash"
    by (cases p) auto
  then show ?thesis
  proof cases
    case 3
    then show ?thesis
      using path_clean_rooted [of q] by (simp add: canon_def has_prefix_def)
  next
    case 4
    then have "take 1 p \<noteq> ''/''"
      by (cases p) auto
    with 4 show ?thesis
      using path_clean_rooted [of p] by (simp add: canon_def has_prefix_def)
  qed (simp_all add: canon_def psegs_def clean_segs_def clean_step_def)
qed

lemma psegs_canon [simp]: "psegs (canon p) = psegs p"
  by (simp add: canon_eq)

lemma canon_canon [simp]: "canon (canon p) = canon p"
  by (simp add: canon_eq)

lemma canon_abs_path [simp]: "proper_segs segs \<Longrightarrow> canon (abs_path segs) = abs_path segs"
  by (simp add: canon_eq)

lemma canon_Nil [simp]: "canon [] = ''/''"
  by (simp add: canon_def)

lemma canon_slash [simp]: "canon (slash # p) = canon p"
  by (simp add: canon_eq)

lemma psegs_dir_abs_path [simp]: "proper_segs segs \<Longrightarrow> psegs (path_dir (abs_path segs)) = butlast segs"
  by (simp add: path_simps proper_butlast)

section \<open>Reading the tree\<close>

definition tree_get :: "tree \<Rightarrow> path \<Rightarrow> fs_error + entry" where
  "tree_get t p =
     (case map_of (entries t) (canon p) of None \<Rightarrow> Inl ErrNotExist | Some e \<Rightarrow> Inr e)"

definition tree_children :: "tree \<Rightarrow> path \<Rightarrow> entry list" where
  "tree_children t p =
     (let names = (case kids t (canon p) of None \<Rightarrow> [] | Some ns \<Rightarrow> ns)
      in concat (map (\<lambda>n. case map_of (entries t) n of None \<Rightarrow> [] | Some e \<Rightarrow> [e]) names))"

section \<open>Building the tree\<close>

definition root_entry :: entry where
  "root_entry = \<lparr>epath = ''/'',
     eheader = zero_header\<lparr>typeflag := TypeDir, hname := ''/'', hmode := 0x1ED\<rparr>, elayer = 0\<rparr>"

definition new_tree :: tree where
  "new_tree = \<lparr>entries = [(''/'', root_entry)], kids = Map.empty\<rparr>"

definition put_entry :: "tree \<Rightarrow> path \<Rightarrow> entry \<Rightarrow> tree" where
  "put_entry t p e = t\<lparr>entries := AList.update p e (entries t)\<rparr>"

definition delete_subtree :: "tree \<Rightarrow> path \<Rightarrow> tree" where
  "delete_subtree t p =
     t\<lparr>entries := filter (\<lambda>kv. \<not> has_prefix (fst kv) (p @ ''/'')) (AList.delete p (entries t))\<rparr>"

definition delete_children :: "tree \<Rightarrow> path \<Rightarrow> tree" where
  "delete_children t p =
     (let pre = (if canon p \<noteq> ''/'' then canon p @ ''/'' else canon p)
      in t\<lparr>entries := filter (\<lambda>kv. fst kv = p \<or> \<not> has_prefix (fst kv) pre) (entries t)\<rparr>)"

definition apply_entry :: "int \<Rightarrow> tree \<Rightarrow> tarfs_entry \<Rightarrow> tree" where
  "apply_entry layer_idx t e =
     (let full = canon (''/'' @ filename e);
          base = path_base (filename e);
          dir = canon (''/'' @ path_dir (filename e))
      in if base = wh_opaque then delete_children t dir
         else if has_prefix base wh_prefix then
           delete_subtree t (canon (path_join [dir, trim_prefix base wh_prefix]))
         else put_entry t full \<lparr>epath = full, eheader = header e, elayer = layer_idx\<rparr>)"

definition apply_layer ::
  "(tarfs_entry list \<Rightarrow> tarfs_entry list) \<Rightarrow> tree \<Rightarrow> tarfs_entry list \<Rightarrow> int \<Rightarrow> tree" where
  "apply_layer srt t es layer_idx = foldl (apply_entry layer_idx) t (srt es)"

text \<open>The inner loop of \<open>synthesizeParents\<close>: the directories above a path, up to the root.\<close>

function parents_loop :: "path \<Rightarrow> path list" where
  "parents_loop parent =
     (if parent = ''/'' then [] else parent # parents_loop (canon (path_dir parent)))"
  by pat_completeness auto
termination
proof (relation "measure (\<lambda>p. if p = ''/'' then 0 else if p = canon p then Suc (length (psegs p))
    else Suc (Suc (length (psegs (path_dir p)))))")
  fix parent :: path
  assume "parent \<noteq> ''/''"
  moreover have "psegs (path_dir parent) = butlast (psegs parent)" "psegs parent \<noteq> []"
    if "parent = canon parent"
    using that calculation psegs_dir_abs_path [of "psegs parent"] by (auto simp: canon_eq)
  ultimately show "(canon (path_dir parent), parent) \<in> measure (\<lambda>p. if p = ''/'' then 0
      else if p = canon p then Suc (length (psegs p)) else Suc (Suc (length (psegs (path_dir p)))))"
    by auto
qed simp

declare parents_loop.simps [simp del]

definition synthetic_dir :: "path \<Rightarrow> entry" where
  "synthetic_dir p = \<lparr>epath = p,
     eheader = zero_header\<lparr>typeflag := TypeDir, hname := p, hmode := 0x1ED\<rparr>, elayer = -1\<rparr>"

definition missing_parents :: "tree \<Rightarrow> path list" where
  "missing_parents t = remdups (concat (map (\<lambda>p. if p = ''/'' then []
     else filter (\<lambda>q. map_of (entries t) q = None) (parents_loop (canon (path_dir p))))
     (akeys (entries t))))"

definition synthesize_parents :: "tree \<Rightarrow> tree" where
  "synthesize_parents t = foldl (\<lambda>t p. put_entry t p (synthetic_dir p)) t (missing_parents t)"

definition add_kid :: "(path \<rightharpoonup> path list) \<Rightarrow> path \<Rightarrow> (path \<rightharpoonup> path list)" where
  "add_kid ch p =
     (if p = ''/'' then ch
      else let parent = canon (path_dir p)
           in ch(parent \<mapsto> (case ch parent of None \<Rightarrow> [] | Some ns \<Rightarrow> ns) @ [p]))"

definition link_kids :: "tree \<Rightarrow> tree" where
  "link_kids t = t\<lparr>kids := map_option sort \<circ> foldl add_kid (kids t) (akeys (entries t))\<rparr>"

definition Merge :: "(tarfs_entry list \<Rightarrow> tarfs_entry list) \<Rightarrow> tarfs_entry list list \<Rightarrow> tree" where
  "Merge srt layers = link_kids (synthesize_parents
     (foldl (\<lambda>t (li, es). apply_layer srt t es (int li)) new_tree (List.enumerate 0 layers)))"

definition layer_put :: "tree \<Rightarrow> tarfs_entry \<Rightarrow> tree" where
  "layer_put t e = (let full = canon (''/'' @ filename e)
     in put_entry t full \<lparr>epath = full, eheader = header e, elayer = 0\<rparr>)"

definition LayerTree :: "tarfs_entry list \<Rightarrow> tree" where
  "LayerTree es = link_kids (synthesize_parents (foldl layer_put new_tree es))"

end
