(* ===== verification/Merge_Tree.thy ===== *)
theory Merge_Tree
  imports Merge
begin

text \<open>
  The tree of \<open>internal/merge\<close> as a map from segment lists: the well-formedness invariant
  (distinct, canonical keys, each entry stored under its own path), that every operation
  keeps it, and what every operation does to the view.  \<open>op_of\<close> classifies a tar entry as an
  opaque marker, a whiteout or an ordinary entry, and \<open>apply_entry\<close> is shown to be the
  effect of that operation on the view.
\<close>

section \<open>View and invariant\<close>

definition view :: "tree \<Rightarrow> string list \<Rightarrow> entry option" where
  "view t segs = (if proper_segs segs then map_of (entries t) (abs_path segs) else None)"

definition tree_wf :: "tree \<Rightarrow> bool" where
  "tree_wf t \<longleftrightarrow> distinct (akeys (entries t)) \<and>
     list_all (\<lambda>(k, e). k = canon k \<and> epath e = k) (entries t)"

lemma wf_entry:
  assumes "tree_wf t" "map_of (entries t) k = Some e"
  shows "k = abs_path (psegs k)" "epath e = k" "view t (psegs k) = Some e"
proof -
  from assms show k: "k = abs_path (psegs k)" "epath e = k"
    by (auto simp: tree_wf_def list_all_iff canon_eq dest: map_of_SomeD)
  with assms show "view t (psegs k) = Some e"
    by (metis proper_psegs view_def)
qed

lemma view_epath: "tree_wf t \<Longrightarrow> view t p = Some e \<Longrightarrow> proper_segs p \<and> epath e = abs_path p"
  by (auto simp: view_def dest: wf_entry(2) split: if_splits)

lemma view_proper: "view t p = Some e \<Longrightarrow> proper_segs p"
  by (simp add: view_def split: if_splits)

lemma tree_get_view [tree_simps]:
  "tree_get t p = (case view t (psegs p) of None \<Rightarrow> Inl ErrNotExist | Some e \<Rightarrow> Inr e)"
  by (simp add: tree_get_def view_def canon_eq)

lemma dom_entries_wf:
  assumes "tree_wf t"
  shows "k \<in> dom (map_of (entries t)) \<longleftrightarrow> (\<exists>p. k = abs_path p \<and> view t p \<noteq> None)"
proof
  assume "k \<in> dom (map_of (entries t))"
  then obtain e where "map_of (entries t) k = Some e" by blast
  with wf_entry [OF assms this] show "\<exists>p. k = abs_path p \<and> view t p \<noteq> None"
    by (intro exI [of _ "psegs k"]) auto
qed (auto simp: view_def split: if_splits)

lemma entries_new_tree [simp]: "entries new_tree = [(''/'', root_entry)]" "kids new_tree = Map.empty"
  by (simp_all add: new_tree_def)

lemma tree_wf_new [simp]: "tree_wf new_tree"
  by (simp add: tree_wf_def root_entry_def canon_eq psegs_def clean_segs_def clean_step_def)

lemma view_new_tree: "view new_tree p = (if p = [] then Some root_entry else None)"
  using abs_path_root by (auto simp: view_def)

section \<open>Storing and deleting\<close>

lemma tree_wf_put: "tree_wf t \<Longrightarrow> canon p = p \<Longrightarrow> epath e = p \<Longrightarrow> tree_wf (put_entry t p e)"
  by (auto simp: tree_wf_def put_entry_def distinct_akeys_update list_all_iff
      dest!: subsetD [OF set_update_subset])

lemma view_put [tree_simps]:
  "proper_segs s \<Longrightarrow> view (put_entry t (abs_path s) e) = (view t)(s \<mapsto> e)"
  by (auto simp: view_def put_entry_def update_conv abs_path_inj fun_eq_iff)

lemma tree_wf_filter: "tree_wf t \<Longrightarrow> tree_wf (t\<lparr>entries := filter P (entries t)\<rparr>)"
  by (auto simp: tree_wf_def distinct_akeys_filter list_all_iff)

lemma tree_wf_delete_subtree: "tree_wf t \<Longrightarrow> tree_wf (delete_subtree t p)"
  unfolding delete_subtree_def AList.delete_eq using tree_wf_filter [OF tree_wf_filter] by fastforce

lemma tree_wf_delete_children: "tree_wf t \<Longrightarrow> tree_wf (delete_children t p)"
  by (simp add: delete_children_def tree_wf_filter Let_def)

lemma no_double_slash: "proper_segs a \<Longrightarrow> \<not> has_prefix (abs_path a) ''//''"
  by (cases a; cases "hd a") (auto simp: has_prefix_def abs_path_def join_with_Cons proper_def)

text \<open>What a deletion of the subtree at \<open>d\<close> reaches: the path and everything below it, but of
  the root only the root itself, because the prefix tested is then two slashes.\<close>

definition in_subtree :: "string list \<Rightarrow> string list \<Rightarrow> bool" where
  "in_subtree d p \<longleftrightarrow> (if d = [] then p = [] else prefix d p)"

lemma view_delete_subtree [tree_simps]:
  assumes "proper_segs d"
  shows "view (delete_subtree t (abs_path d)) = (\<lambda>p. if in_subtree d p then None else view t p)"
proof
  fix p
  show "view (delete_subtree t (abs_path d)) p = (if in_subtree d p then None else view t p)"
    using assms no_double_slash [of p]
    by (cases "d = []")
       (auto simp: view_def delete_subtree_def delete_conv abs_path_inj in_subtree_def abs_path_root
         has_prefix_abs_path prefix_order.le_less
         map_of_filter_fst [where P = "\<lambda>k. \<not> has_prefix k (abs_path d @ ''/'')"]
         map_of_filter_fst [where P = "\<lambda>k. \<not> has_prefix k ''//''"])
qed

lemma view_delete_children [tree_simps]:
  assumes "proper_segs d"
  shows "view (delete_children t (abs_path d)) = (\<lambda>p. if strict_prefix d p then None else view t p)"
proof
  fix p
  show "view (delete_children t (abs_path d)) p = (if strict_prefix d p then None else view t p)"
    using assms
    by (cases "d = []")
       (auto simp: view_def delete_children_def Let_def abs_path_inj abs_path_root
         has_prefix_abs_path strict_prefix_def
         map_of_filter_fst [where P = "\<lambda>k. k = abs_path d \<or> \<not> has_prefix k (abs_path d @ ''/'')"]
         map_of_filter_fst [where P = "\<lambda>k. k = ''/'' \<or> \<not> has_prefix k ''/''"])
qed

lemma kids_put [simp]: "kids (put_entry t p e) = kids t"
  and kids_delete_subtree [simp]: "kids (delete_subtree t p) = kids t"
  and kids_delete_children [simp]: "kids (delete_children t p) = kids t"
  by (simp_all add: put_entry_def delete_subtree_def delete_children_def Let_def)

section \<open>One tar entry\<close>

datatype layer_op = Opaque "string list" | Whiteout "string list" | Put "string list" tar_header

definition op_of :: "tarfs_entry \<Rightarrow> layer_op" where
  "op_of e = (let base = path_base (filename e); dir = psegs (path_dir (filename e))
     in if base = wh_opaque then Opaque dir
        else if has_prefix base wh_prefix then
          Whiteout (psegs (path_join [abs_path dir, trim_prefix base wh_prefix]))
        else Put (psegs (filename e)) (header e))"

fun op_effect :: "int \<Rightarrow> layer_op \<Rightarrow> (string list \<rightharpoonup> entry) \<Rightarrow> (string list \<rightharpoonup> entry)" where
  "op_effect li (Opaque d) v = (\<lambda>p. if strict_prefix d p then None else v p)"
| "op_effect li (Whiteout d) v = (\<lambda>p. if in_subtree d p then None else v p)"
| "op_effect li (Put s h) v = v(s \<mapsto> \<lparr>epath = abs_path s, eheader = h, elayer = li\<rparr>)"

lemma view_apply_entry [tree_simps]:
  "view (apply_entry li t e) = op_effect li (op_of e) (view t)"
  by (simp add: apply_entry_def op_of_def Let_def canon_eq tree_simps)

lemma tree_wf_apply_entry: "tree_wf t \<Longrightarrow> tree_wf (apply_entry li t e)"
  by (simp add: apply_entry_def Let_def tree_wf_put tree_wf_delete_subtree tree_wf_delete_children)

lemma kids_apply_entry [simp]: "kids (apply_entry li t e) = kids t"
  by (simp add: apply_entry_def Let_def)

lemma apply_entries_invariant:
  "tree_wf t \<Longrightarrow> tree_wf (foldl (apply_entry li) t es) \<and> kids (foldl (apply_entry li) t es) = kids t"
  by (induction es arbitrary: t) (simp_all add: tree_wf_apply_entry)

lemma view_apply_entries:
  "view (foldl (apply_entry li) t es) = foldl (\<lambda>v op. op_effect li op v) (view t) (map op_of es)"
  by (induction es arbitrary: t) (simp_all add: view_apply_entry)

lemma tree_wf_apply_layer [simp]: "tree_wf t \<Longrightarrow> tree_wf (apply_layer srt t es li)"
  and kids_apply_layer [simp]: "tree_wf t \<Longrightarrow> kids (apply_layer srt t es li) = kids t"
  by (simp_all add: apply_layer_def apply_entries_invariant)

lemma view_apply_layer [tree_simps]:
  "view (apply_layer srt t es li) = foldl (\<lambda>v op. op_effect li op v) (view t) (map op_of (srt es))"
  by (simp add: apply_layer_def view_apply_entries)

end
