(* ===== verification/Merge_Links.thy ===== *)
theory Merge_Links
  imports Merge_Tree
begin

text \<open>
  The second half of building a tree: \<open>synthesizeParents\<close>, which closes the tree under
  parent directories, and the children index that \<open>Children\<close> reads.  Both range over a Go
  map; the lemmas show what they compute for every iteration order.
\<close>

section \<open>Synthesized parents\<close>

lemma parents_loop_abs_path:
  "proper_segs s \<Longrightarrow> set (parents_loop (abs_path s)) = {abs_path p |p. p \<noteq> [] \<and> prefix p s}"
proof (induction s rule: rev_induct)
  case Nil
  then show ?case by (simp add: parents_loop.simps)
next
  case (snoc x s)
  then have "abs_path (s @ [x]) \<noteq> ''/''"
    by (subst abs_path_root) auto
  with snoc show ?case
    by (subst parents_loop.simps) (auto simp: path_simps)
qed

lemma parents_loop_dir:
  assumes "proper_segs s" "s \<noteq> []"
  shows "set (parents_loop (canon (path_dir (abs_path s)))) =
    {abs_path p |p. p \<noteq> [] \<and> strict_prefix p s}"
  using assms parents_loop_abs_path [of "butlast s"]
  by (auto simp: path_simps proper_butlast strict_prefix_conv_butlast)

lemma in_missing_parents:
  "k \<in> set (missing_parents t) \<longleftrightarrow> map_of (entries t) k = None \<and>
    (\<exists>k' e. map_of (entries t) k' = Some e \<and> k' \<noteq> ''/'' \<and> k \<in> set (parents_loop (canon (path_dir k'))))"
proof -
  have "k \<in> set (missing_parents t) \<longleftrightarrow> map_of (entries t) k = None \<and>
      (\<exists>k' \<in> dom (map_of (entries t)). k' \<noteq> ''/'' \<and> k \<in> set (parents_loop (canon (path_dir k'))))"
    unfolding set_akeys [symmetric] by (auto simp: missing_parents_def split: if_splits)
  then show ?thesis by blast
qed

lemma set_missing_parents:
  assumes wf: "tree_wf t"
  shows "set (missing_parents t) = {abs_path p |p. proper_segs p \<and> p \<noteq> [] \<and> view t p = None \<and>
    (\<exists>q. strict_prefix p q \<and> view t q \<noteq> None)}"
proof (intro set_eqI iffI)
  fix k assume "k \<in> set (missing_parents t)"
  then obtain k' e where k: "map_of (entries t) k = None" and e: "map_of (entries t) k' = Some e"
      and k': "k' \<noteq> ''/''" "k \<in> set (parents_loop (canon (path_dir k')))"
    unfolding in_missing_parents by blast
  define q where "q = psegs k'"
  have q: "k' = abs_path q" "view t q = Some e" "proper_segs q" "q \<noteq> []"
    using wf_entry [OF wf e] k'(1) by (auto simp: q_def)
  then obtain p where p: "k = abs_path p" "p \<noteq> []" "strict_prefix p q"
    using k'(2) parents_loop_dir [of q] by auto
  then have "proper_segs p"
    using q(3) by (auto simp: strict_prefix_def prefix_def)
  moreover from this k p(1) have "view t p = None"
    by (simp add: view_def)
  moreover have "view t q \<noteq> None" using q(2) by simp
  ultimately show "k \<in> {abs_path p |p. proper_segs p \<and> p \<noteq> [] \<and> view t p = None \<and>
    (\<exists>q. strict_prefix p q \<and> view t q \<noteq> None)}"
    using p by blast
next
  fix k assume "k \<in> {abs_path p |p. proper_segs p \<and> p \<noteq> [] \<and> view t p = None \<and>
    (\<exists>q. strict_prefix p q \<and> view t q \<noteq> None)}"
  then obtain p q e where k: "k = abs_path p" "proper_segs p" "p \<noteq> []" "view t p = None"
      and q: "strict_prefix p q" "view t q = Some e" by blast
  have pq: "proper_segs q" "q \<noteq> []" "map_of (entries t) (abs_path q) = Some e"
    using q view_proper [OF q(2)] by (auto simp: view_def)
  moreover have "abs_path q \<noteq> ''/''"
    using abs_path_root pq by blast
  moreover have "k \<in> set (parents_loop (canon (path_dir (abs_path q))))"
    using parents_loop_dir [OF pq(1,2)] k q(1) by blast
  moreover have "map_of (entries t) k = None"
    using k by (simp add: view_def)
  ultimately show "k \<in> set (missing_parents t)"
    unfolding in_missing_parents by blast
qed

lemma map_of_foldl_put:
  "map_of (entries (foldl (\<lambda>t p. put_entry t p (f p)) t ps)) k =
     (if k \<in> set ps then Some (f k) else map_of (entries t) k)"
  by (induction ps arbitrary: t) (auto simp: put_entry_def update_conv)

lemma foldl_put_invariant:
  assumes "tree_wf t" "\<forall>p \<in> set ps. canon p = p \<and> epath (f p) = p"
  shows "tree_wf (foldl (\<lambda>t p. put_entry t p (f p)) t ps) \<and>
    kids (foldl (\<lambda>t p. put_entry t p (f p)) t ps) = kids t"
  using assms by (induction ps arbitrary: t) (simp_all add: tree_wf_put)

lemma synthesize_parents_invariant:
  assumes "tree_wf t"
  shows "tree_wf (synthesize_parents t)" "kids (synthesize_parents t) = kids t"
proof -
  have "\<forall>p \<in> set (missing_parents t). canon p = p \<and> epath (synthetic_dir p) = p"
    by (auto simp: set_missing_parents [OF assms] synthetic_dir_def)
  from foldl_put_invariant [OF assms this]
  show "tree_wf (synthesize_parents t)" "kids (synthesize_parents t) = kids t"
    by (simp_all add: synthesize_parents_def)
qed

text \<open>Whether a path is strictly above an entry of the tree.\<close>

definition above_entry :: "tree \<Rightarrow> string list \<Rightarrow> bool" where
  "above_entry t p \<longleftrightarrow> p \<noteq> [] \<and> (\<exists>q. strict_prefix p q \<and> view t q \<noteq> None)"

lemma above_entry_proper: "above_entry t p \<Longrightarrow> proper_segs p"
  by (auto simp: above_entry_def strict_prefix_def prefix_def dest!: view_proper)

lemma view_synthesize_parents [tree_simps]:
  assumes "tree_wf t"
  shows "view (synthesize_parents t) p = (case view t p of Some e \<Rightarrow> Some e
    | None \<Rightarrow> if above_entry t p then Some (synthetic_dir (abs_path p)) else None)"
proof (cases "proper_segs p")
  case True
  have "abs_path p \<in> set (missing_parents t) \<longleftrightarrow> view t p = None \<and> above_entry t p"
    using True by (auto simp: set_missing_parents [OF assms] abs_path_inj above_entry_def
        simp del: abs_path_Nil)
  moreover have "view (synthesize_parents t) p = (if abs_path p \<in> set (missing_parents t)
      then Some (synthetic_dir (abs_path p)) else view t p)"
    using True by (simp add: view_def synthesize_parents_def map_of_foldl_put)
  ultimately show ?thesis
    by (auto split: option.splits)
next
  case False
  then show ?thesis by (auto simp: view_def dest: above_entry_proper)
qed

section \<open>The children index\<close>

definition kid_names :: "tree \<Rightarrow> path \<Rightarrow> path list" where
  "kid_names t q = sort (filter (\<lambda>p. p \<noteq> ''/'' \<and> canon (path_dir p) = q) (akeys (entries t)))"

lemma foldl_add_kid:
  "foldl add_kid ch ks q =
     (let l = filter (\<lambda>p. p \<noteq> ''/'' \<and> canon (path_dir p) = q) ks
      in if l = [] then ch q else Some ((case ch q of None \<Rightarrow> [] | Some ns \<Rightarrow> ns) @ l))"
  by (induction ks arbitrary: ch) (auto simp: add_kid_def Let_def split: option.splits)

lemma kids_link_kids:
  "kids t = Map.empty \<Longrightarrow>
   (case kids (link_kids t) q of None \<Rightarrow> [] | Some ns \<Rightarrow> ns) = kid_names t q"
  by (simp add: link_kids_def foldl_add_kid kid_names_def Let_def)

lemma view_link_kids [simp]: "view (link_kids t) = view t"
  and entries_link_kids [simp]: "entries (link_kids t) = entries t"
  and tree_wf_link_kids [simp]: "tree_wf (link_kids t) = tree_wf t"
  by (auto simp: view_def link_kids_def tree_wf_def)

lemma set_kid_names:
  assumes "tree_wf t" "proper_segs p"
  shows "set (kid_names t (abs_path p)) = {abs_path (p @ [s]) |s. view t (p @ [s]) \<noteq> None}"
proof (intro set_eqI iffI)
  fix k assume "k \<in> set (kid_names t (abs_path p))"
  then obtain q where q: "k = abs_path q" "view t q \<noteq> None" "k \<noteq> ''/''" "canon (path_dir k) = abs_path p"
    using dom_entries_wf [OF assms(1), of k] by (auto simp: kid_names_def set_akeys)
  then have pq: "proper_segs q" by (auto dest: view_proper)
  with q have "q \<noteq> []" "butlast q = p"
    using assms(2) by (auto simp: path_simps abs_path_inj proper_butlast)
  then have "q = p @ [last q]" by auto
  with q have "k = abs_path (p @ [last q])" "view t (p @ [last q]) \<noteq> None" by metis+
  then show "k \<in> {abs_path (p @ [s]) |s. view t (p @ [s]) \<noteq> None}" by blast
next
  fix k assume "k \<in> {abs_path (p @ [s]) |s. view t (p @ [s]) \<noteq> None}"
  then obtain s where k: "k = abs_path (p @ [s])" "view t (p @ [s]) \<noteq> None" by auto
  then have ps: "proper_segs (p @ [s])" by (auto dest: view_proper)
  then have "k \<noteq> ''/''" using k(1) abs_path_root [OF ps] by simp
  moreover have "k \<in> set (akeys (entries t))"
    using k unfolding set_akeys dom_entries_wf [OF assms(1)] by blast
  moreover have "canon (path_dir k) = abs_path p"
    by (simp add: k(1) path_dir_abs_path [OF ps] assms(2))
  ultimately show "k \<in> set (kid_names t (abs_path p))"
    by (simp add: kid_names_def)
qed

lemma sorted_kid_names: "sorted (kid_names t q)"
  and distinct_kid_names: "tree_wf t \<Longrightarrow> distinct (kid_names t q)"
  by (simp_all add: kid_names_def tree_wf_def)

lemma tree_children_kid_names:
  assumes "tree_wf t" "kids t = Map.empty"
  shows "tree_children (link_kids t) q =
    map (\<lambda>n. the (map_of (entries t) n)) (kid_names t (canon q))"
proof -
  have "concat (map (\<lambda>n. case map_of al n of None \<Rightarrow> [] | Some e \<Rightarrow> [e]) ns) =
      map (\<lambda>n. the (map_of al n)) ns" if "set ns \<subseteq> dom (map_of al)"
    for ns and al :: "(path \<times> entry) list"
    using that by (induction ns) auto
  moreover have "set (kid_names t (canon q)) \<subseteq> dom (map_of (entries t))"
    by (auto simp: kid_names_def set_akeys [symmetric])
  ultimately show ?thesis
    by (simp add: tree_children_def kids_link_kids [OF assms(2)] del: o_apply)
qed

lemma map_epath_children:
  assumes "tree_wf t" "kids t = Map.empty"
  shows "map epath (tree_children (link_kids t) q) = kid_names t (canon q)"
proof -
  have "epath (the (map_of (entries t) n)) = n" if "n \<in> set (kid_names t (canon q))" for n
  proof -
    from that have "n \<in> dom (map_of (entries t))"
      by (simp add: kid_names_def set_akeys)
    then show ?thesis using wf_entry(2) [OF assms(1)] by fastforce
  qed
  then show ?thesis
    by (simp add: tree_children_kid_names [OF assms] map_idI)
qed

text \<open>The set of children of a path, as the view gives it.\<close>

lemma set_children:
  assumes "tree_wf t" "kids t = Map.empty"
  shows "set (tree_children (link_kids t) q) = {e. \<exists>s. view t (psegs q @ [s]) = Some e}"
proof -
  have "set (tree_children (link_kids t) q) =
      (\<lambda>n. the (map_of (entries t) n)) ` {abs_path (psegs q @ [s]) |s. view t (psegs q @ [s]) \<noteq> None}"
    by (simp add: tree_children_kid_names [OF assms] canon_eq set_kid_names [OF assms(1)])
  also have "\<dots> = {e. \<exists>s. view t (psegs q @ [s]) = Some e}"
    by (auto simp: view_def image_iff split: if_splits) force+
  finally show ?thesis .
qed

section \<open>Finished trees\<close>

text \<open>
  Both constructors end with the same two calls.  A finished tree holds the built content,
  closed under parents, and its children index is the sorted enumeration of it.
\<close>

definition finish :: "tree \<Rightarrow> tree" where
  "finish t = link_kids (synthesize_parents t)"

lemma finish_wf:
  assumes "tree_wf t"
  shows "tree_wf (finish t)"
  using synthesize_parents_invariant [OF assms] by (simp add: finish_def)

lemma view_finish [tree_simps]:
  "tree_wf t \<Longrightarrow> view (finish t) p = (case view t p of Some e \<Rightarrow> Some e
    | None \<Rightarrow> if above_entry t p then Some (synthetic_dir (abs_path p)) else None)"
  by (simp add: finish_def view_synthesize_parents)

lemma finish_parent_closed:
  assumes "tree_wf t" "view (finish t) p \<noteq> None" "strict_prefix q p" "q \<noteq> []"
  shows "view (finish t) q \<noteq> None"
proof -
  from assms(1,2) obtain r where "prefix p r" "view t r \<noteq> None"
    by (auto simp: view_finish above_entry_def strict_prefix_def split: option.splits if_splits)
  with assms(3) have "strict_prefix q r"
    by (metis prefix_order.less_le_trans)
  with \<open>view t r \<noteq> None\<close> assms(1,4) show ?thesis
    by (auto simp: view_finish above_entry_def split: option.splits)
qed

lemma finish_children:
  assumes "tree_wf t" "kids t = Map.empty"
  shows "set (tree_children (finish t) q) = {e. \<exists>s. view (finish t) (psegs q @ [s]) = Some e}"
    and "sorted (map epath (tree_children (finish t) q))"
    and "distinct (map epath (tree_children (finish t) q))"
  using set_children [of "synthesize_parents t" q] map_epath_children [of "synthesize_parents t" q]
    synthesize_parents_invariant [OF assms(1)] assms(2) sorted_kid_names distinct_kid_names
  by (simp_all add: finish_def)

end
