(* ===== verification/Whiteouts.thy ===== *)
theory Whiteouts
  imports Merge_Links
begin

text \<open>
  The layer semantics of the OCI image specification, stated independently of the code, and
  the proof that \<open>applyLayer\<close> and \<open>Merge\<close> implement it.  In the specification a layer's
  whiteouts and opaque markers act on the layers below it only, its own entries are added
  afterwards, and a path that gets an entry of another kind is removed first, with all that is
  below it when it was a directory.  The code keeps a flat map of paths and gets the first part by sorting
  the layer's entries; it holds exactly when no marker sorts behind an entry of its own layer that it
  reaches (\<open>markers_first\<close>), and gives what \<open>pathwise_image\<close> describes: for each path, the topmost layer that
  has it or hides it decides.  The last part it does not do at all: the two descriptions agree when no
  path changes between a directory and another kind without a whiteout (\<open>kinds_agree\<close>).
\<close>

section \<open>The specification\<close>

text \<open>What a layer removes of the layers below it: its markers, and its entries that are not directories,
  below which nothing can be.\<close>

fun hides :: "layer_op \<Rightarrow> string list \<Rightarrow> bool" where
  "hides (Opaque d) p = strict_prefix d p"
| "hides (Whiteout d) p = in_subtree d p"
| "hides (Put s h) p = False"

fun file_over :: "layer_op \<Rightarrow> string list \<Rightarrow> bool" where
  "file_over (Put s h) p = (typeflag h \<noteq> TypeDir \<and> s \<noteq> [] \<and> strict_prefix s p)"
| "file_over op p = False"

fun puts_below :: "layer_op \<Rightarrow> string list \<Rightarrow> bool" where
  "puts_below (Put s h) p = strict_prefix p s"
| "puts_below op p = False"

definition layer_puts :: "layer_op list \<Rightarrow> (string list \<times> tar_header) list" where
  "layer_puts ops = concat (map (\<lambda>op. case op of Put s h \<Rightarrow> [(s, h)] | _ \<Rightarrow> []) ops)"

definition own_put :: "layer_op list \<Rightarrow> string list \<Rightarrow> tar_header option" where
  "own_put ops p = map_of (rev (layer_puts ops)) p"

text \<open>A layer over what is below it: its own entries; of the lower ones those that it neither hides nor
  puts a file above, and no file where it puts something below the path.\<close>

definition replaced :: "layer_op list \<Rightarrow> string list \<Rightarrow> entry \<Rightarrow> bool" where
  "replaced ops p e \<longleftrightarrow> list_ex (\<lambda>op. file_over op p) ops \<or>
     typeflag (eheader e) \<noteq> TypeDir \<and> list_ex (\<lambda>op. puts_below op p) ops"

definition oci_layer ::
  "int \<Rightarrow> layer_op list \<Rightarrow> (string list \<rightharpoonup> entry) \<Rightarrow> (string list \<rightharpoonup> entry)" where
  "oci_layer li ops lower p =
     (case own_put ops p of
        Some h \<Rightarrow> Some \<lparr>epath = abs_path p, eheader = h, elayer = li\<rparr>
      | None \<Rightarrow> if list_ex (\<lambda>op. hides op p) ops then None
                else (case lower p of None \<Rightarrow> None | Some e \<Rightarrow> if replaced ops p e then None else Some e))"

definition only_root :: "string list \<Rightarrow> entry option" where
  "only_root p = (if p = [] then Some root_entry else None)"

definition overlay_image :: "tarfs_entry list list \<Rightarrow> string list \<Rightarrow> entry option" where
  "overlay_image layers =
     foldl (\<lambda>v (i, es). oci_layer (int i) (map op_of es) v) only_root (List.enumerate 0 layers)"

section \<open>Path by path\<close>

text \<open>The description that the flat map of the code meets: a layer looks at the path alone.\<close>

definition pathwise_layer ::
  "int \<Rightarrow> layer_op list \<Rightarrow> (string list \<rightharpoonup> entry) \<Rightarrow> (string list \<rightharpoonup> entry)" where
  "pathwise_layer li ops lower p =
     (case own_put ops p of
        Some h \<Rightarrow> Some \<lparr>epath = abs_path p, eheader = h, elayer = li\<rparr>
      | None \<Rightarrow> if list_ex (\<lambda>op. hides op p) ops then None else lower p)"

text \<open>A whole image, read from the topmost layer down: the first layer that has the path
  decides, unless a layer above hides it.\<close>

fun pathwise_lookup :: "(nat \<times> tarfs_entry list) list \<Rightarrow> string list \<Rightarrow> entry option" where
  "pathwise_lookup [] p = only_root p"
| "pathwise_lookup ((li, es) # below) p =
     (case own_put (map op_of es) p of
        Some h \<Rightarrow> Some \<lparr>epath = abs_path p, eheader = h, elayer = int li\<rparr>
      | None \<Rightarrow> if list_ex (\<lambda>e. hides (op_of e) p) es then None else pathwise_lookup below p)"

definition pathwise_image :: "tarfs_entry list list \<Rightarrow> string list \<Rightarrow> entry option" where
  "pathwise_image layers = pathwise_lookup (rev (List.enumerate 0 layers))"

text \<open>No layer replaces a path of the image below it by one of another kind without a marker: whatever
  a lower layer shows there is put again, hidden, or neither below a new file nor a file above a new
  entry.\<close>

definition put_paths :: "tarfs_entry list list \<Rightarrow> string list list" where
  "put_paths layers = map fst (concat (map (\<lambda>es. layer_puts (map op_of es)) layers))"

definition kinds_kept :: "tarfs_entry list list \<Rightarrow> tarfs_entry list \<Rightarrow> bool" where
  "kinds_kept lower es \<longleftrightarrow> list_all (\<lambda>p. case overlay_image lower p of None \<Rightarrow> True | Some e \<Rightarrow>
       own_put (map op_of es) p \<noteq> None \<or> list_ex (\<lambda>op. hides op p) (map op_of es) \<or>
       \<not> replaced (map op_of es) p e) ([] # put_paths lower)"

definition kinds_agree :: "tarfs_entry list list \<Rightarrow> bool" where
  "kinds_agree layers \<longleftrightarrow> list_all (\<lambda>i. kinds_kept (take i layers) (layers ! i)) [0..<length layers]"

section \<open>Sequences of operations\<close>

lemma layer_puts_simps [simp]:
  "layer_puts [] = []"
  "layer_puts (Put s h # ops) = (s, h) # layer_puts ops"
  "layer_puts (Opaque d # ops) = layer_puts ops"
  "layer_puts (Whiteout d # ops) = layer_puts ops"
  "layer_puts (xs @ ys) = layer_puts xs @ layer_puts ys"
  by (simp_all add: layer_puts_def)

lemma set_layer_puts: "(s, h) \<in> set (layer_puts ops) \<longleftrightarrow> Put s h \<in> set ops"
  by (auto simp: layer_puts_def split: layer_op.splits)

lemma own_put_None: "own_put ops p = None \<longleftrightarrow> (\<forall>h. Put p h \<notin> set ops)"
  by (auto simp: own_put_def map_of_eq_None_iff image_iff set_layer_puts [symmetric])

lemma own_put_None_map:
  "own_put (map op_of es) p = None \<longleftrightarrow> (\<forall>e \<in> set es. \<forall>h. op_of e \<noteq> Put p h)"
  unfolding own_put_None by (metis (no_types, lifting) imageE image_eqI list.set_map)

lemma own_put_Some: "own_put ops p = Some h \<Longrightarrow> Put p h \<in> set ops"
  by (auto simp: own_put_def set_layer_puts [symmetric] dest: map_of_SomeD)

text \<open>No entry of the sequence is reached by a marker that comes after it.\<close>

fun markers_ok :: "layer_op list \<Rightarrow> bool" where
  "markers_ok [] = True"
| "markers_ok (op # ops) =
     ((case op of Put s h \<Rightarrow> \<not> list_ex (\<lambda>m. hides m s) ops | _ \<Rightarrow> True) \<and> markers_ok ops)"

lemma op_effect_hides:
  "op_effect li op v p = (case op of
     Put s h \<Rightarrow> if p = s then Some \<lparr>epath = abs_path s, eheader = h, elayer = li\<rparr> else v p
   | _ \<Rightarrow> if hides op p then None else v p)"
  by (cases op) auto

lemma op_effects_pathwise:
  "markers_ok ops \<Longrightarrow> foldl (\<lambda>v op. op_effect li op v) v ops p = pathwise_layer li ops v p"
proof (induction ops arbitrary: v)
  case Nil
  then show ?case by (simp add: pathwise_layer_def own_put_def)
next
  case (Cons op ops)
  then have IH: "foldl (\<lambda>v op. op_effect li op v) v (op # ops) p = pathwise_layer li ops (op_effect li op v) p"
    by simp
  from Cons.prems show ?case
    unfolding IH
    by (cases op)
       (auto simp: pathwise_layer_def own_put_def op_effect_hides map_add_def split: option.splits)
qed

text \<open>The last operation that concerns a path decides what the sequence leaves there.\<close>

lemma op_effects_hidden_last:
  assumes "hides m p" "\<forall>h. Put p h \<notin> set bs"
  shows "foldl (\<lambda>v op. op_effect li op v) v (as @ m # bs) p = None"
proof -
  have "foldl (\<lambda>v op. op_effect li op v) w bs p = None" if "w p = None" for w
    using assms(2) that
  proof (induction bs arbitrary: w)
    case (Cons b bs)
    then have "op_effect li b w p = None"
      by (cases b) (auto simp: op_effect_hides)
    with Cons show ?case by simp
  qed simp
  with assms(1) show ?thesis
    by (cases m) (simp_all add: op_effect_hides)
qed

section \<open>One layer\<close>

definition markers_first :: "tarfs_entry list \<Rightarrow> bool" where
  "markers_first es \<longleftrightarrow> list_all (\<lambda>e. case op_of e of
     Put p h \<Rightarrow> list_all (\<lambda>w. hides (op_of w) p \<longrightarrow> filename w < filename e) es | _ \<Rightarrow> True) es"

definition distinct_puts :: "tarfs_entry list \<Rightarrow> bool" where
  "distinct_puts es \<longleftrightarrow> distinct (map fst (layer_puts (map op_of es)))"

definition good_layer :: "tarfs_entry list \<Rightarrow> bool" where
  "good_layer es \<longleftrightarrow> markers_first es \<and> distinct_puts es"

text \<open>The condition on the layers of an image under which the merge is the specification's.\<close>

definition good_image :: "tarfs_entry list list \<Rightarrow> bool" where
  "good_image layers \<longleftrightarrow> list_all good_layer layers \<and> kinds_agree layers"

lemma good_image_layers: "good_image layers \<Longrightarrow> \<forall>es \<in> set layers. good_layer es"
  by (simp add: good_image_def list_all_iff)

lemma markers_firstD:
  "markers_first es \<Longrightarrow> e \<in> set es \<Longrightarrow> w \<in> set es \<Longrightarrow> op_of e = Put p h \<Longrightarrow> hides (op_of w) p \<Longrightarrow>
   filename w < filename e"
  by (fastforce simp: markers_first_def list_all_iff)

lemma mset_layer_puts:
  assumes "mset xs = mset ys"
  shows "mset (layer_puts (map op_of xs)) = mset (layer_puts (map op_of ys))"
proof -
  have "mset (layer_puts (map op_of zs)) =
      sum_mset (image_mset (\<lambda>e. mset (case op_of e of Put s h \<Rightarrow> [(s, h)] | _ \<Rightarrow> [])) (mset zs))" for zs
    by (induction zs) (auto simp: layer_puts_def)
  with assms show ?thesis by simp
qed

lemma own_put_perm:
  assumes "mset xs = mset ys" "distinct_puts ys"
  shows "own_put (map op_of xs) = own_put (map op_of ys)"
proof -
  have m: "mset (layer_puts (map op_of xs)) = mset (layer_puts (map op_of ys))"
    by (rule mset_layer_puts [OF assms(1)])
  then have "distinct (map fst (layer_puts (map op_of xs)))"
    using assms(2) unfolding distinct_puts_def by (metis mset_eq_imp_distinct_iff mset_map)
  with m show ?thesis
    unfolding own_put_def by (intro ext fun_cong [OF mset_eq_map_of]) (simp_all add: akeys_def rev_map [symmetric])
qed

lemma markers_ok_srt:
  assumes "slice_sorter filename srt" "markers_first es"
  shows "markers_ok (map op_of (srt es))"
proof -
  have "markers_ok (map op_of (drop n (srt es)))" for n
  proof (induction "length (srt es) - n" arbitrary: n)
    case (Suc m)
    then have n: "drop n (srt es) = srt es ! n # drop (Suc n) (srt es)"
      by (intro Cons_nth_drop_Suc [symmetric]) simp
    have mem: "set (drop n (srt es)) \<subseteq> set es"
      using slice_sorter.set_srt [OF assms(1)] set_drop_subset by metis
    have "\<not> hides (op_of w) p"
      if "op_of (srt es ! n) = Put p h" "w \<in> set (drop (Suc n) (srt es))" for p h w
      using slice_sorter.sorted_suffix_keys [OF assms(1) n [symmetric]] that mem n
        markers_firstD [OF assms(2), of "srt es ! n" w p h]
      by (metis leD list.set_intros(1) list.set_intros(2) subsetD)
    moreover have "markers_ok (map op_of (drop (Suc n) (srt es)))"
      using Suc by (metis Suc_diff_Suc diff_Suc_1 diff_Suc_eq_diff_pred zero_less_Suc zero_less_diff diff_Suc_Suc)
    ultimately show ?case
      by (auto simp: n list_ex_iff split: layer_op.splits)
  qed simp
  from this [of 0] show ?thesis by simp
qed

lemma list_ex_hides_map: "list_ex (\<lambda>op. hides op p) (map op_of es) = list_ex (\<lambda>e. hides (op_of e) p) es"
  by (simp add: list_ex_iff)

lemma view_apply_layer_pathwise:
  assumes "slice_sorter filename srt" "good_layer es"
  shows "view (apply_layer srt t es li) = pathwise_layer li (map op_of es) (view t)"
proof
  fix p
  have "view (apply_layer srt t es li) p = pathwise_layer li (map op_of (srt es)) (view t) p"
    using assms by (simp add: view_apply_layer op_effects_pathwise markers_ok_srt good_layer_def)
  also have "\<dots> = pathwise_layer li (map op_of es) (view t) p"
    using own_put_perm [OF slice_sorter.mset_srt [OF assms(1)]] assms slice_sorter.set_srt [OF assms(1)]
    unfolding pathwise_layer_def list_ex_hides_map by (auto simp: good_layer_def list_ex_iff)
  finally show "view (apply_layer srt t es li) p = pathwise_layer li (map op_of es) (view t) p" .
qed

section \<open>The whole image\<close>

definition stack_layers ::
  "(tarfs_entry list \<Rightarrow> tarfs_entry list) \<Rightarrow> tarfs_entry list list \<Rightarrow> tree" where
  "stack_layers srt layers =
     foldl (\<lambda>t (li, es). apply_layer srt t es (int li)) new_tree (List.enumerate 0 layers)"

lemma Merge_finish: "Merge srt layers = finish (stack_layers srt layers)"
  by (simp add: Merge_def finish_def stack_layers_def)

lemma stack_layers_Nil [simp]: "stack_layers srt [] = new_tree"
  by (simp add: stack_layers_def)

lemma stack_layers_snoc:
  "stack_layers srt (layers @ [es]) = apply_layer srt (stack_layers srt layers) es (int (length layers))"
  by (simp add: stack_layers_def enumerate_append_eq)

lemma stack_layers_wf: "tree_wf (stack_layers srt layers)"
  and kids_stack_layers: "kids (stack_layers srt layers) = Map.empty"
proof -
  have "tree_wf (stack_layers srt layers) \<and> kids (stack_layers srt layers) = Map.empty"
    by (induction layers rule: rev_induct) (simp_all add: stack_layers_snoc)
  then show "tree_wf (stack_layers srt layers)" "kids (stack_layers srt layers) = Map.empty"
    by simp_all
qed

lemma pathwise_image_Nil [simp]: "pathwise_image [] = only_root"
  by (rule ext) (simp add: pathwise_image_def)

lemma pathwise_image_snoc:
  "pathwise_image (layers @ [es]) = pathwise_layer (int (length layers)) (map op_of es) (pathwise_image layers)"
  by (rule ext) (simp add: pathwise_image_def pathwise_layer_def enumerate_append_eq list_ex_hides_map)

lemma view_stack_layers:
  assumes "slice_sorter filename srt" "\<forall>es \<in> set layers. good_layer es"
  shows "view (stack_layers srt layers) = pathwise_image layers"
  using assms(2)
proof (induction layers rule: rev_induct)
  case Nil
  show ?case by (auto simp: view_new_tree only_root_def)
next
  case (snoc es layers)
  then show ?case
    by (simp add: stack_layers_snoc pathwise_image_snoc view_apply_layer_pathwise [OF assms(1)])
qed

text \<open>The image at a path that a layer puts, and at a path that a layer hides.\<close>

lemma pathwise_put:
  "own_put (map op_of es) p = Some h \<Longrightarrow> pathwise_image (layers @ [es]) p =
    Some \<lparr>epath = abs_path p, eheader = h, elayer = int (length layers)\<rparr>"
  by (simp add: pathwise_image_snoc pathwise_layer_def)

lemma pathwise_hidden:
  assumes "list_ex (\<lambda>e. hides (op_of e) p) es" "\<forall>es' \<in> set (es # upper). own_put (map op_of es') p = None"
  shows "pathwise_image (layers @ es # upper) p = None"
  using assms(2)
proof (induction upper rule: rev_induct)
  case Nil
  with assms(1) show ?case by (simp add: pathwise_image_snoc pathwise_layer_def list_ex_hides_map)
next
  case (snoc es' upper)
  then show ?case
    using pathwise_image_snoc [of "layers @ es # upper" es'] by (simp add: pathwise_layer_def)
qed

section \<open>The two descriptions\<close>

lemma overlay_image_Nil [simp]: "overlay_image [] = only_root"
  by (simp add: overlay_image_def)

lemma overlay_image_snoc:
  "overlay_image (layers @ [es]) = oci_layer (int (length layers)) (map op_of es) (overlay_image layers)"
  by (simp add: overlay_image_def enumerate_append_eq)

lemma kinds_agree_snoc: "kinds_agree (layers @ [es]) \<longleftrightarrow> kinds_agree layers \<and> kinds_kept layers es"
  by (auto simp: kinds_agree_def list_all_iff nth_append)

lemma overlay_put_paths: "overlay_image layers p = Some e \<Longrightarrow> p = [] \<or> p \<in> set (put_paths layers)"
proof (induction layers arbitrary: e rule: rev_induct)
  case Nil
  then show ?case by (simp add: only_root_def split: if_splits)
next
  case (snoc es layers)
  have "p \<in> set (put_paths [es])" if "own_put (map op_of es) p = Some h" for h
    using own_put_Some [OF that, folded set_layer_puts] by (force simp: put_paths_def)
  then show ?case
    using snoc by (fastforce simp: overlay_image_snoc oci_layer_def put_paths_def split: option.splits if_splits)
qed

theorem pathwise_is_overlay: "kinds_agree layers \<Longrightarrow> pathwise_image layers = overlay_image layers"
proof (induction layers rule: rev_induct)
  case (snoc es layers)
  then have IH: "pathwise_image layers = overlay_image layers" and k: "kinds_kept layers es"
    by (simp_all add: kinds_agree_snoc)
  show ?case
  proof
    fix p
    have "own_put (map op_of es) p \<noteq> None \<or> list_ex (\<lambda>op. hides op p) (map op_of es) \<or> \<not> replaced (map op_of es) p e"
      if "overlay_image layers p = Some e" for e
      using overlay_put_paths [OF that] k that by (auto simp: kinds_kept_def list_all_iff)
    then show "pathwise_image (layers @ [es]) p = overlay_image (layers @ [es]) p"
      by (auto simp: pathwise_image_snoc overlay_image_snoc pathwise_layer_def oci_layer_def IH split: option.splits)
  qed
qed simp

lemma view_stack_overlay:
  assumes "slice_sorter filename srt" "good_image layers"
  shows "view (stack_layers srt layers) = overlay_image layers"
  using view_stack_layers [OF assms(1) good_image_layers [OF assms(2)]] pathwise_is_overlay assms(2)
  by (simp add: good_image_def)

section \<open>Lookups\<close>

lemma above_entry_overlay:
  "tree_get (finish (stack_layers srt layers)) q =
    (case view (stack_layers srt layers) (psegs q) of Some e \<Rightarrow> Inr e
     | None \<Rightarrow> if above_entry (stack_layers srt layers) (psegs q)
               then Inr (synthetic_dir (canon q)) else Inl ErrNotExist)"
  by (simp add: tree_get_view view_finish [OF stack_layers_wf] canon_eq split: option.splits)

text \<open>What a path of the image is: an entry, or a directory that only its entries imply.\<close>

definition overlay_get :: "tarfs_entry list list \<Rightarrow> string list \<Rightarrow> entry option" where
  "overlay_get layers p =
     (case overlay_image layers p of
        Some e \<Rightarrow> Some e
      | None \<Rightarrow> if p \<noteq> [] \<and> (\<exists>q. strict_prefix p q \<and> overlay_image layers q \<noteq> None)
                then Some (synthetic_dir (abs_path p)) else None)"

lemma Merge_get_overlay:
  assumes "slice_sorter filename srt" "good_image layers"
  shows "tree_get (Merge srt layers) q =
    (case overlay_get layers (psegs q) of Some e \<Rightarrow> Inr e | None \<Rightarrow> Inl ErrNotExist)"
  using view_stack_overlay [OF assms]
  by (auto simp: Merge_finish above_entry_overlay above_entry_def overlay_get_def canon_eq split: option.splits)

end
