(* ===== verification/Image_Tree.thy ===== *)
theory Image_Tree
  imports Whiteouts
begin

text \<open>
  The interface through which the mount reads a tree: \<open>Get\<close> and \<open>Children\<close> of
  \<open>internal/merge\<close>.  The locale states what a finished tree promises; both constructors,
  \<open>Merge\<close> and \<open>LayerTree\<close>, are interpretations of it.
\<close>

locale image_tree =
  fixes get :: "path \<Rightarrow> fs_error + entry" and children :: "path \<Rightarrow> entry list"
  assumes get_canon: "get (canon p) = get p"
    and get_epath: "get p = Inr e \<Longrightarrow> epath e = canon p"
    and get_parent: "proper_segs (ps @ [s]) \<Longrightarrow> ps \<noteq> [] \<Longrightarrow> get (abs_path (ps @ [s])) = Inr e \<Longrightarrow>
      \<exists>d. get (abs_path ps) = Inr d"
    and set_kids: "set (children p) =
      {e. \<exists>s. proper s \<and> get (abs_path (psegs p @ [s])) = Inr e}"
    and sorted_kids: "sorted (map epath (children p))"
    and distinct_kids: "distinct (map epath (children p))"
begin

lemma get_ancestor:
  assumes "proper_segs p" "get (abs_path p) = Inr e" "strict_prefix q p" "q \<noteq> []"
  shows "\<exists>d. get (abs_path q) = Inr d"
  using assms
proof (induction p arbitrary: e rule: rev_induct)
  case (snoc s p)
  then have "prefix q p" by (simp add: strict_prefix_snoc)
  show ?case
  proof (cases "p = q")
    case True
    with snoc.prems get_parent show ?thesis by blast
  next
    case False
    with \<open>prefix q p\<close> have "strict_prefix q p" "p \<noteq> []"
      using snoc.prems(4) by (auto simp: strict_prefix_def)
    moreover from this obtain d where "get (abs_path p) = Inr d"
      using snoc.prems get_parent by blast
    ultimately show ?thesis
      using snoc by auto
  qed
qed simp

text \<open>Every entry below the root is listed by its directory, under its own name.\<close>

lemma listed_by_parent:
  assumes "proper_segs (p @ [s])" "get (abs_path (p @ [s])) = Inr e"
  shows "e \<in> set (children (abs_path p))"
  using assms by (auto simp: set_kids)

lemma kid_name:
  assumes "e \<in> set (children p)"
  obtains s where "proper s" "epath e = abs_path (psegs p @ [s])" "path_base (epath e) = s"
    "get (epath e) = Inr e"
proof -
  from assms obtain s where s: "proper s" "get (abs_path (psegs p @ [s])) = Inr e"
    by (auto simp: set_kids)
  then have "epath e = abs_path (psegs p @ [s])"
    using get_epath by fastforce
  with s that show thesis by (simp add: path_base_abs_path)
qed

text \<open>The names listed are exactly those for which a lookup in the directory succeeds.\<close>

lemma kid_names_iff:
  "s \<in> path_base ` epath ` set (children p) \<longleftrightarrow>
    proper s \<and> (\<exists>e. get (abs_path (psegs p @ [s])) = Inr e)"
proof
  assume "s \<in> path_base ` epath ` set (children p)"
  then show "proper s \<and> (\<exists>e. get (abs_path (psegs p @ [s])) = Inr e)"
    by (auto elim!: kid_name)
next
  assume "proper s \<and> (\<exists>e. get (abs_path (psegs p @ [s])) = Inr e)"
  then obtain e where s: "proper s" "get (abs_path (psegs p @ [s])) = Inr e" by blast
  then have "e \<in> set (children p)" "epath e = abs_path (psegs p @ [s])"
    using get_epath by (auto simp: set_kids)
  with s show "s \<in> path_base ` epath ` set (children p)"
    by (force simp: path_base_abs_path intro!: image_eqI)
qed

text \<open>A listing with a label per entry pairs each name with the label of what a lookup finds.\<close>

lemma listed_label:
  "(s, m) \<in> (\<lambda>e. (path_base (epath e), f e)) ` set (children p) \<longleftrightarrow>
    proper s \<and> (\<exists>e. get (abs_path (psegs p @ [s])) = Inr e \<and> f e = m)"
proof
  assume "(s, m) \<in> (\<lambda>e. (path_base (epath e), f e)) ` set (children p)"
  then obtain e where "e \<in> set (children p)" "path_base (epath e) = s" "f e = m" by auto
  then show "proper s \<and> (\<exists>e. get (abs_path (psegs p @ [s])) = Inr e \<and> f e = m)"
    by (metis kid_name)
next
  assume "proper s \<and> (\<exists>e. get (abs_path (psegs p @ [s])) = Inr e \<and> f e = m)"
  then obtain e where s: "proper s" "get (abs_path (psegs p @ [s])) = Inr e" "f e = m" by blast
  then have "e \<in> set (children p)" "epath e = abs_path (psegs p @ [s])"
    using get_epath by (auto simp: set_kids)
  with s show "(s, m) \<in> (\<lambda>e. (path_base (epath e), f e)) ` set (children p)"
    by (force simp: path_base_abs_path intro!: image_eqI)
qed

lemma distinct_kid_bases: "distinct (map (\<lambda>e. path_base (epath e)) (children p))"
proof -
  have "inj_on path_base (epath ` set (children p))"
  proof (rule inj_onI)
    fix x y assume "x \<in> epath ` set (children p)" "y \<in> epath ` set (children p)" "path_base x = path_base y"
    then obtain e f where "e \<in> set (children p)" "f \<in> set (children p)" "x = epath e" "y = epath f"
      and base: "path_base (epath e) = path_base (epath f)" by blast
    moreover from this obtain s s' where "epath e = abs_path (psegs p @ [s])" "path_base (epath e) = s"
      "epath f = abs_path (psegs p @ [s'])" "path_base (epath f) = s'"
      by (metis kid_name)
    ultimately show "x = y" by simp
  qed
  moreover have "distinct (children p)" "inj_on epath (set (children p))"
    using distinct_kids [of p] by (simp_all add: distinct_map)
  ultimately show ?thesis
    using comp_inj_on [of epath "set (children p)" path_base] by (simp add: distinct_map comp_def)
qed

end

section \<open>Both trees of the program are image trees\<close>

lemma finish_image_tree:
  assumes "tree_wf t" "kids t = Map.empty"
  shows "image_tree (tree_get (finish t)) (tree_children (finish t))"
proof
  note wf = finish_wf [OF assms(1)]
  show "tree_get (finish t) (canon p) = tree_get (finish t) p" for p
    by (simp add: tree_get_def)
  show "epath e = canon p" if "tree_get (finish t) p = Inr e" for p e
    using that view_epath [OF wf] by (auto simp: tree_get_view canon_eq split: option.splits)
  show "\<exists>d. tree_get (finish t) (abs_path p) = Inr d"
    if "proper_segs (p @ [s])" "p \<noteq> []" "tree_get (finish t) (abs_path (p @ [s])) = Inr e" for p s e
    using that finish_parent_closed [OF assms(1), of "p @ [s]" p]
    by (auto simp: tree_get_view strict_prefix_snoc split: option.splits)
  show "set (tree_children (finish t) p) =
      {e. \<exists>s. proper s \<and> tree_get (finish t) (abs_path (psegs p @ [s])) = Inr e}" for p
  proof -
    have "view (finish t) (psegs p @ [s]) = Some e \<longleftrightarrow>
        proper s \<and> tree_get (finish t) (abs_path (psegs p @ [s])) = Inr e" for s e
      using view_proper [of "finish t" "psegs p @ [s]" e]
      by (cases "proper s") (auto simp: tree_get_view split: option.splits)
    then show ?thesis by (simp add: finish_children(1) [OF assms])
  qed
  show "sorted (map epath (tree_children (finish t) p))"
    "distinct (map epath (tree_children (finish t) p))" for p
    by (rule finish_children(2,3) [OF assms])+
qed

lemma layer_put_invariant:
  "tree_wf t \<Longrightarrow> tree_wf (foldl layer_put t es) \<and> kids (foldl layer_put t es) = kids t"
  by (induction es arbitrary: t) (simp_all add: layer_put_def Let_def tree_wf_put)

definition layer_stack :: "tarfs_entry list \<Rightarrow> tree" where
  "layer_stack es = foldl layer_put new_tree es"

lemma LayerTree_finish: "LayerTree es = finish (layer_stack es)"
  by (simp add: LayerTree_def finish_def layer_stack_def)

lemma layer_stack_wf: "tree_wf (layer_stack es)" "kids (layer_stack es) = Map.empty"
  using layer_put_invariant [of new_tree es] by (simp_all add: layer_stack_def)

interpretation merged: image_tree "tree_get (Merge srt layers)" "tree_children (Merge srt layers)"
  for srt layers
  unfolding Merge_finish by (rule finish_image_tree [OF stack_layers_wf kids_stack_layers])

interpretation raw: image_tree "tree_get (LayerTree es)" "tree_children (LayerTree es)" for es
  unfolding LayerTree_finish by (rule finish_image_tree [OF layer_stack_wf])

end
