(* ===== verification/Plain_Layers.thy ===== *)
theory Plain_Layers
  imports Image_Tree
begin

text \<open>
  A syntactic condition on a layer's file names under which sorting puts every marker in
  front of the entries it reaches: names are clean relative paths, and no path segment of an
  ordinary entry starts with a character up to the dot, so that it sorts behind the
  \<open>.wh.\<close> prefix.  Under it a layer meets \<open>good_layer\<close> and the refinement applies.
\<close>

definition clean_filename :: "string \<Rightarrow> bool" where
  "clean_filename f \<longleftrightarrow> (let s = psegs f in s \<noteq> [] \<and>
     (f = join_with ''/'' s \<or> f = join_with ''/'' s @ ''/'' \<and> \<not> has_prefix (last s) wh_prefix))"

definition marker_target_ok :: "string \<Rightarrow> bool" where
  "marker_target_ok base \<longleftrightarrow> has_prefix base wh_prefix \<longrightarrow> base \<noteq> wh_opaque \<longrightarrow>
     proper (trim_prefix base wh_prefix)"

definition plain_seg :: "string \<Rightarrow> bool" where
  "plain_seg s \<longleftrightarrow> s \<noteq> [] \<and> CHR ''.'' < hd s"

definition plain_entry :: "tarfs_entry \<Rightarrow> bool" where
  "plain_entry e \<longleftrightarrow> clean_filename (filename e) \<and> marker_target_ok (last (psegs (filename e))) \<and>
     (case op_of e of Put s h \<Rightarrow> list_all plain_seg s | _ \<Rightarrow> True)"

definition plain_layer :: "tarfs_entry list \<Rightarrow> bool" where
  "plain_layer es \<longleftrightarrow> list_all plain_entry es \<and> distinct_puts es"

section \<open>Base and directory of a clean name\<close>

text \<open>What precedes the last segment of a joined path.\<close>

definition join_head :: "string list \<Rightarrow> string" where
  "join_head d = (if d = [] then [] else join_with ''/'' d @ ''/'')"

lemma join_head_append: "r \<noteq> [] \<Longrightarrow> join_with ''/'' (d @ r) = join_head d @ join_with ''/'' r"
  by (simp add: join_head_def join_with_append)

lemma join_head_slash: "join_head d = [] \<or> (\<exists>q. join_head d = q @ ''/'')"
  by (simp add: join_head_def)

lemma psegs_join [simp]: "proper_segs s \<Longrightarrow> psegs (join_with ''/'' s) = s"
  using psegs_abs_path [of s] by (simp add: abs_path_def)

lemma path_base_head:
  assumes "proper s"
  shows "path_base (join_head d @ s) = s" "path_base (join_head d @ s @ ''/'') = s"
proof -
  let ?q = "join_head d"
  have "dropWhile (\<lambda>c. c = slash) (rev (?q @ s)) = rev (?q @ s)"
    using assms by (subst dropWhile_id) (auto simp: proper_def hd_append hd_rev dest: last_in_set)
  moreover have "(case last_index_byte (?q @ s) slash of None \<Rightarrow> ?q @ s | Some i \<Rightarrow> drop (Suc i) (?q @ s)) = s"
  proof (cases "?q = []")
    case True
    with assms show ?thesis by (simp add: last_index_byte_None [THEN iffD2] proper_def)
  next
    case False
    then obtain r where "?q = r @ ''/''"
      using join_head_slash [of d] by auto
    with assms show ?thesis by (simp add: last_index_byte_append proper_def)
  qed
  ultimately show "path_base (join_head d @ s) = s" "path_base (join_head d @ s @ ''/'') = s"
    using assms by (auto simp: path_base_def Let_def proper_def)
qed

lemma psegs_path_dir_head:
  assumes "proper_segs d" "proper s"
  shows "psegs (path_dir (join_head d @ s)) = d"
proof (cases "d = []")
  case True
  with assms(2) show ?thesis
    by (simp add: join_head_def path_dir_def path_split_dir_def last_index_byte_None [THEN iffD2]
        proper_def path_clean_def psegs_def clean_segs_def clean_step_def)
next
  case False
  have "path_split_dir (join_head d @ s) = join_with ''/'' d @ ''/''"
    using assms(2) False path_split_dir_append [of s "join_with ''/'' d"]
    by (simp add: join_head_def proper_def)
  moreover have "split_on slash (join_with ''/'' d @ ''/'') = d @ [[]]"
    using split_on_append_sep [of slash "join_with ''/'' d" "[]"] split_join [of d slash]
      proper_no_slash [OF assms(1)] False by simp
  moreover have "join_with ''/'' d \<noteq> []" "hd (join_with ''/'' d) \<noteq> slash"
    using False assms(1) by (cases d; cases "hd d"; auto simp: join_with_Cons proper_def)+
  ultimately have "path_dir (join_head d @ s) = join_with ''/'' d"
    using assms(1) by (simp add: path_dir_def path_clean_def clean_segs_proper hd_append)
  with assms(1) show ?thesis by simp
qed

lemma psegs_path_join:
  assumes "proper_segs d" "proper x"
  shows "psegs (path_join [abs_path d, x]) = d @ [x]"
proof -
  have "path_join [abs_path d, x] = path_clean (abs_path d @ slash # x)"
    by (simp add: path_join_def abs_path_def)
  also have "\<dots> = abs_path (psegs (abs_path d @ slash # x))"
    using path_clean_rooted by (simp add: abs_path_def)
  also have "psegs (abs_path d @ slash # x) = psegs (abs_path d) @ [x]"
    using assms(2) by (simp add: psegs_def split_on_append_sep split_on_free proper_def
        clean_segs_snoc_proper [unfolded proper_def])
  finally show ?thesis using assms by simp
qed

lemma clean_filename_cases:
  assumes "clean_filename f"
  obtains d s where "psegs f = d @ [s]" "proper_segs d" "proper s" "f = join_head d @ s"
  | d s where "psegs f = d @ [s]" "proper_segs d" "proper s" "f = join_head d @ s @ ''/''"
      "\<not> has_prefix s wh_prefix"
proof -
  obtain d s where ds: "psegs f = d @ [s]"
    using assms by (cases "psegs f" rule: rev_cases) (auto simp: clean_filename_def)
  then have "proper_segs (d @ [s])"
    using proper_psegs [of f] by simp
  moreover have "join_with ''/'' (d @ [s]) = join_head d @ s"
    by (simp add: join_head_append)
  ultimately show thesis
    using assms that ds by (auto simp: clean_filename_def)
qed

lemma op_of_clean:
  assumes "clean_filename (filename e)" "psegs (filename e) = d @ [s]" "marker_target_ok s"
  shows "op_of e = (if s = wh_opaque then Opaque d
    else if has_prefix s wh_prefix then Whiteout (d @ [trim_prefix s wh_prefix])
    else Put (d @ [s]) (header e))"
proof -
  have opq: "has_prefix wh_opaque wh_prefix"
    by (simp add: wh_opaque_def wh_prefix_def has_prefix_def)
  from assms(1) show ?thesis
  proof (cases rule: clean_filename_cases)
    case (1 d' s')
    then show ?thesis
      using assms(2,3) path_base_head psegs_path_dir_head psegs_path_join
      by (auto simp: op_of_def Let_def marker_target_ok_def)
  next
    case (2 d' s')
    then show ?thesis
      using assms(2) path_base_head opq by (auto simp: op_of_def Let_def)
  qed
qed

section \<open>The order of markers and entries\<close>

lemma less_append_left: "(xs @ ys < xs @ zs) = (ys < (zs :: string))"
  by (induction xs) auto

lemma marker_before_plain:
  assumes "m \<noteq> []" "hd m = CHR ''.''" "plain_seg x"
  shows "join_head d @ m < join_head d @ x @ (r :: string)"
  using assms by (cases m; cases x) (auto simp: less_append_left plain_seg_def)

lemma plain_markers_first:
  assumes "list_all plain_entry es"
  shows "markers_first es"
proof -
  have "filename w < filename e"
    if mem: "e \<in> set es" "w \<in> set es" and put: "op_of e = Put p h" and hid: "hides (op_of w) p" for e w p h
  proof -
    from assms mem have e: "clean_filename (filename e)" "marker_target_ok (last (psegs (filename e)))"
        "list_all plain_seg p"
      and w: "clean_filename (filename w)" "marker_target_ok (last (psegs (filename w)))"
      using put by (auto simp: list_all_iff plain_entry_def)
    obtain d m where dm: "psegs (filename w) = d @ [m]"
      using w(1) by (cases "psegs (filename w)" rule: rev_cases) (auto simp: clean_filename_def)
    have marker: "has_prefix m wh_prefix" and reach: "\<exists>x r. p = d @ x # r"
      using hid w op_of_clean [OF w(1) dm]
      by (auto simp: dm wh_opaque_def wh_prefix_def has_prefix_def in_subtree_def strict_prefix_def
          prefix_def neq_Nil_conv split: if_splits) (metis neq_Nil_conv)+
    have fw: "filename w = join_head d @ m"
      using clean_filename_cases [OF w(1)] dm marker by force
    obtain x r where p: "p = d @ x # r" using reach by blast
    have pe: "p = psegs (filename e)"
      using put by (simp add: op_of_def Let_def split: if_splits)
    have "\<exists>t. filename e = join_head d @ x @ t"
      using e(1) p by (auto simp: clean_filename_def Let_def pe [symmetric] join_head_append join_with_Cons)
    moreover have "m \<noteq> []" "hd m = CHR ''.''"
      using marker by (auto simp: has_prefix_def wh_prefix_def dest: arg_cong [of _ _ hd])
    moreover have "plain_seg x" using e(3) p by simp
    ultimately show ?thesis
      using marker_before_plain fw by auto
  qed
  then show ?thesis
    by (auto simp: markers_first_def list_all_iff split: layer_op.splits)
qed

lemma plain_good_layer: "plain_layer es \<Longrightarrow> good_layer es"
  by (simp add: plain_layer_def good_layer_def plain_markers_first)

end
