(* ===== verification/Merge_Props.thy ===== *)
theory Merge_Props
  imports Plain_Layers "HOL-Library.While_Combinator"
begin

text \<open>
  The properties of \<open>internal/merge\<close>: the condition on the layers under which \<open>Merge\<close> computes the
  overlay of the OCI image specification, what it does outside that condition, and that both trees are closed under parents with an exact children index.  The fixtures
  are those of the package's tests.
\<close>

section \<open>Fixtures\<close>

definition reg_entry :: "string \<Rightarrow> tarfs_entry" where
  "reg_entry n = \<lparr>filename = n, header = zero_header\<lparr>typeflag := TypeReg, hname := n, hmode := 0x1A4\<rparr>\<rparr>"

definition dir_entry :: "string \<Rightarrow> tarfs_entry" where
  "dir_entry n = \<lparr>filename = n, header = zero_header\<lparr>typeflag := TypeDir, hname := n, hmode := 0x1ED\<rparr>\<rparr>"

definition base_layer :: "tarfs_entry list" where
  "base_layer = [reg_entry ''a'', dir_entry ''b/'', reg_entry ''b/x'', reg_entry ''b/y'']"

definition whiteout_layer :: "tarfs_entry list" where
  "whiteout_layer = [reg_entry ''b/.wh.x'', reg_entry ''c'']"

definition opaque_layer :: "tarfs_entry list" where
  "opaque_layer = [dir_entry ''b/'', reg_entry ''b/.wh..wh..opq'', reg_entry ''b/z'']"

definition dotfile_layer :: "tarfs_entry list" where
  "dotfile_layer = [dir_entry ''b/'', reg_entry ''b/.bashrc'', reg_entry ''b/.wh..wh..opq'']"

section \<open>Canonical paths\<close>

text \<open>The path normalisation of the tree is a projection onto rooted paths: its result
  is a slash followed by segments that are not empty, a dot, a dot-dot or contain a slash,
  joined by slashes with none trailing, and normalising it again changes nothing.\<close>

theorem canon_normal_form:
  "canon (canon p) = canon p \<and> canon p = abs_path (psegs p) \<and> list_all proper (psegs p)"
  by (simp add: canon_eq)

section \<open>The merged tree is the overlay of the layers\<close>

text \<open>C1. For a good image, whatever sorting function \<open>sort.Slice\<close> is, a lookup in the merged tree gives
  what the image specification says.  An image is good when in each of its layers every whiteout and opaque
  marker sorts in front of the entries of the layer that it reaches and no path has two entries, and when no
  layer turns a directory of the layers below into another kind of file, or such a file into a directory,
  without a marker.  Then a path has the entry of the topmost layer that puts it, unless a layer above that
  whites the path out, makes a directory above it opaque or puts a file above it; a path with no entry of its own but with
  entries below it is a synthesized directory; every other path does not exist.\<close>

theorem merge_get_overlay:
  assumes "slice_sorter filename srt" "good_image layers"
  shows "tree_get (Merge srt layers) q =
    (case overlay_image layers (psegs q) of
       Some e \<Rightarrow> Inr e
     | None \<Rightarrow> if psegs q \<noteq> [] \<and> (\<exists>p. strict_prefix (psegs q) p \<and> overlay_image layers p \<noteq> None)
               then Inr (synthetic_dir (canon q)) else Inl ErrNotExist)"
  using Merge_get_overlay [OF assms] by (simp add: overlay_get_def canon_eq split: option.splits)

theorem merge_get_overlay_witness:
  "tree_get (Merge (insertion_sort filename) [base_layer, whiteout_layer]) ''/b/x'' = Inl ErrNotExist \<and>
   tree_get (Merge (insertion_sort filename) [base_layer, whiteout_layer]) ''b/y/'' =
     Inr \<lparr>epath = ''/b/y'', eheader = header (reg_entry ''b/y''), elayer = 0\<rparr>"
proof -
  have good: "good_image [base_layer, whiteout_layer]" by code_simp
  note get = merge_get_overlay [OF ins.slice_sorter_axioms good]
  have above: "\<not> (\<exists>p. strict_prefix (psegs ''/b/x'') p \<and>
      overlay_image [base_layer, whiteout_layer] p \<noteq> None)"
  proof
    assume "\<exists>p. strict_prefix (psegs ''/b/x'') p \<and> overlay_image [base_layer, whiteout_layer] p \<noteq> None"
    then obtain p where p: "strict_prefix [''b'', ''x''] p"
        "overlay_image [base_layer, whiteout_layer] p \<noteq> None"
      by (auto simp: psegs_def clean_segs_def clean_step_def)
    moreover have "op_of (reg_entry ''b/.wh.x'') = Whiteout [''b'', ''x'']"
      "map op_of whiteout_layer = [Whiteout [''b'', ''x''], Put [''c''] (header (reg_entry ''c''))]"
      by code_simp+
    ultimately show False
      by (auto simp: overlay_image_def oci_layer_def own_put_def in_subtree_def strict_prefix_def
          split: option.splits if_splits)
  qed
  have "overlay_image [base_layer, whiteout_layer] (psegs ''/b/x'') = None"
    "overlay_image [base_layer, whiteout_layer] (psegs ''b/y/'') =
      Some \<lparr>epath = ''/b/y'', eheader = header (reg_entry ''b/y''), elayer = 0\<rparr>"
    by code_simp+
  with above show ?thesis
    by (simp only: get) simp
qed


text \<open>A layer whose names are clean relative paths, with no segment of an ordinary entry
  starting at or before the dot, and one entry for each path, has its markers in front: in a stack of
  such layers a path whited out by a layer does not exist
  unless a layer from there on puts it, or something below it, again.\<close>

theorem plain_whiteout_removes:
  assumes "slice_sorter filename srt" "\<forall>es' \<in> set (lower @ es # upper). plain_layer es'"
    and "w \<in> set es" "op_of w = Whiteout d" "d \<noteq> []" "prefix d (psegs q)"
    and "\<forall>es' \<in> set (es # upper). \<forall>e \<in> set es'. \<forall>p h. op_of e = Put p h \<longrightarrow> \<not> prefix (psegs q) p"
  shows "tree_get (Merge srt (lower @ es # upper)) q = Inl ErrNotExist"
proof -
  have none: "pathwise_image (lower @ es # upper) p = None" if "prefix (psegs q) p" for p
  proof (rule pathwise_hidden)
    show "list_ex (\<lambda>e. hides (op_of e) p) es"
      using assms(3-5) prefix_order.trans [OF assms(6) that]
      by (auto simp: list_ex_iff in_subtree_def intro: bexI [of _ w])
    show "\<forall>es' \<in> set (es # upper). own_put (map op_of es') p = None"
      using assms(7) that unfolding own_put_None_map by blast
  qed
  have "\<forall>es' \<in> set (lower @ es # upper). good_layer es'"
    using assms(2) plain_good_layer by blast
  from view_stack_layers [OF assms(1) this] none show ?thesis
    by (simp add: Merge_finish above_entry_overlay above_entry_def strict_prefix_def)
qed

theorem plain_whiteout_removes_witness:
  "tree_get (Merge (insertion_sort filename) ([base_layer] @ whiteout_layer # [])) ''/b/x'' = Inl ErrNotExist"
proof -
  have q: "psegs ''/b/x'' = [''b'', ''x'']" "psegs ''b/x'' = [''b'', ''x'']" by code_simp+
  have ops: "map op_of whiteout_layer =
      [Whiteout [''b'', ''x''], Put [''c''] (header (reg_entry ''c''))]" by code_simp
  have mem: "reg_entry ''b/.wh.x'' \<in> set whiteout_layer" by (simp add: whiteout_layer_def)
  have w: "op_of (reg_entry ''b/.wh.x'') = Whiteout [''b'', ''x'']" by code_simp
  have plain: "\<forall>es' \<in> set ([base_layer] @ whiteout_layer # []). plain_layer es'" by code_simp
  have no: "\<forall>es' \<in> set (whiteout_layer # []). \<forall>e \<in> set es'. \<forall>p h. op_of e = Put p h \<longrightarrow>
      \<not> prefix (psegs ''/b/x'') p"
  proof -
    have "Put p h \<in> set (map op_of whiteout_layer) \<longrightarrow> \<not> prefix (psegs ''/b/x'') p" for p h
      by (simp add: ops q)
    then show ?thesis by force
  qed
  show ?thesis
    by (rule plain_whiteout_removes [OF ins.slice_sorter_axioms plain mem w _ _ no]) (simp_all add: q)
qed

section \<open>Outside the condition\<close>

text \<open>C16. Whiteouts and opaque markers are meant to act on lower layers only, but the code
  applies them in the order of the file names: an entry that sorts in front of a marker of its
  own layer reaching it (a dot file next to an opaque marker, say) is deleted by that marker
  and missing from the tree, although the specification keeps it.\<close>

theorem own_entry_lost:
  assumes "slice_sorter filename srt"
    and "e \<in> set es" "op_of e = Put p h" "w \<in> set es" "hides (op_of w) p"
    and "\<forall>e' \<in> set es. \<forall>h'. op_of e' = Put p h' \<longrightarrow> filename e' < filename w"
  shows "view (apply_layer srt t es li) p = None \<and> oci_layer li (map op_of es) (view t) p \<noteq> None"
proof
  have "w \<in> set (srt es)"
    using assms(1,4) by (simp add: slice_sorter.set_srt)
  then obtain as bs where split: "srt es = as @ w # bs"
    by (meson split_list)
  have "op_of e' \<noteq> Put p h'" if "e' \<in> set bs" for e' h'
  proof
    assume "op_of e' = Put p h'"
    moreover have "e' \<in> set es"
      using that split slice_sorter.set_srt [OF assms(1), of es] by (metis in_set_conv_decomp append_Cons append_assoc)
    ultimately have "filename e' < filename w"
      using assms(6) by blast
    then show False
      using slice_sorter.srt_before [OF assms(1) split that] by simp
  qed
  then have "\<forall>h'. Put p h' \<notin> set (map op_of bs)"
    unfolding own_put_None [symmetric] own_put_None_map by blast
  then show "view (apply_layer srt t es li) p = None"
    using op_effects_hidden_last [OF assms(5), of "map op_of bs"]
    by (simp add: view_apply_layer split)
  have "own_put (map op_of es) p \<noteq> None"
    using assms(2,3) unfolding own_put_None_map by blast
  then show "oci_layer li (map op_of es) (view t) p \<noteq> None"
    by (auto simp: oci_layer_def)
qed

theorem own_entry_lost_witness:
  "view (apply_layer (insertion_sort filename) new_tree dotfile_layer 0) [''b'', ''.bashrc''] = None \<and>
   oci_layer 0 (map op_of dotfile_layer) (view new_tree) [''b'', ''.bashrc''] \<noteq> None"
proof (rule own_entry_lost [OF ins.slice_sorter_axioms])
  show "reg_entry ''b/.bashrc'' \<in> set dotfile_layer" "reg_entry ''b/.wh..wh..opq'' \<in> set dotfile_layer"
    by (simp_all add: dotfile_layer_def)
  show "op_of (reg_entry ''b/.bashrc'') = Put [''b'', ''.bashrc''] (header (reg_entry ''b/.bashrc''))"
    "hides (op_of (reg_entry ''b/.wh..wh..opq'')) [''b'', ''.bashrc'']"
    by code_simp+
  have "map op_of dotfile_layer = [Put [''b''] (header (dir_entry ''b/'')),
      Put [''b'', ''.bashrc''] (header (reg_entry ''b/.bashrc'')), Opaque [''b'']]"
    "filename (reg_entry ''b/.bashrc'') < filename (reg_entry ''b/.wh..wh..opq'')"
    by code_simp+
  then show "\<forall>e' \<in> set dotfile_layer. \<forall>h'. op_of e' = Put [''b'', ''.bashrc''] h' \<longrightarrow>
      filename e' < filename (reg_entry ''b/.wh..wh..opq'')"
    by (auto simp: dotfile_layer_def)
qed


text \<open>C17. A layer that turns a directory into a file without a whiteout leaves the old
  content below it in the tree: the merged tree then holds a file at the path and, below it,
  entries of lower layers, which a later layer that makes the path a directory again brings
  back into view.  The specification removes a path before it is recreated with another
  type: in its overlay the old content is gone.\<close>

theorem file_over_directory_keeps_children:
  assumes "slice_sorter filename srt" "\<forall>es' \<in> set (lower @ [es]). good_layer es'"
    and "pathwise_image lower (d @ s) = Some e" "s \<noteq> []"
    and "own_put (map op_of es) d = Some h" "own_put (map op_of es) (d @ s) = None"
    and "\<forall>w \<in> set es. \<not> hides (op_of w) (d @ s)"
  shows "tree_get (Merge srt (lower @ [es])) (abs_path (d @ s)) = Inr e \<and>
    tree_get (Merge srt (lower @ [es])) (abs_path d) =
      Inr \<lparr>epath = abs_path d, eheader = h, elayer = int (length lower)\<rparr> \<and>
    (typeflag h \<noteq> TypeDir \<and> d \<noteq> [] \<longrightarrow> overlay_image (lower @ [es]) (d @ s) = None)"
proof -
  note view = view_stack_layers [OF assms(1,2)]
  have below: "pathwise_image (lower @ [es]) (d @ s) = Some e"
    using assms(3,6,7) by (simp add: pathwise_image_snoc pathwise_layer_def list_ex_hides_map list_ex_iff)
  moreover have "pathwise_image (lower @ [es]) d =
      Some \<lparr>epath = abs_path d, eheader = h, elayer = int (length lower)\<rparr>"
    using assms(5) by (rule pathwise_put)
  moreover have "proper_segs (d @ s)"
    using view_proper below view by metis
  moreover have "overlay_image (lower @ [es]) (d @ s) = None" if "typeflag h \<noteq> TypeDir" "d \<noteq> []"
  proof -
    have "file_over (Put d h) (d @ s)" using that assms(4) by (simp add: strict_prefix_def)
    then have "list_ex (\<lambda>op. file_over op (d @ s)) (map op_of es)"
      using own_put_Some [OF assms(5)] unfolding list_ex_iff by blast
    then show ?thesis
      using assms(6) by (simp add: overlay_image_snoc oci_layer_def replaced_def split: option.split)
  qed
  ultimately show ?thesis
    using view by (simp add: Merge_finish above_entry_overlay)
qed

definition file_layer :: "tarfs_entry list" where
  "file_layer = [reg_entry ''b'']"

theorem file_over_directory_keeps_children_witness:
  "tree_get (Merge (insertion_sort filename) ([base_layer] @ [file_layer])) (abs_path ([''b''] @ [''x''])) =
     Inr \<lparr>epath = ''/b/x'', eheader = header (reg_entry ''b/x''), elayer = 0\<rparr> \<and>
   tree_get (Merge (insertion_sort filename) ([base_layer] @ [file_layer])) (abs_path [''b'']) =
     Inr \<lparr>epath = abs_path [''b''], eheader = header (reg_entry ''b''), elayer = int (length [base_layer])\<rparr> \<and>
   overlay_image ([base_layer] @ [file_layer]) ([''b''] @ [''x'']) = None"
proof -
  have good: "\<forall>es' \<in> set ([base_layer] @ [file_layer]). good_layer es'" by code_simp
  have lower: "pathwise_image [base_layer] ([''b''] @ [''x'']) =
      Some \<lparr>epath = ''/b/x'', eheader = header (reg_entry ''b/x''), elayer = 0\<rparr>" by code_simp
  have put: "own_put (map op_of file_layer) [''b''] = Some (header (reg_entry ''b''))"
    "own_put (map op_of file_layer) ([''b''] @ [''x'']) = None" by code_simp+
  have "\<forall>w \<in> set file_layer. \<not> hides (op_of w) ([''b''] @ [''x''])" by code_simp
  note t = file_over_directory_keeps_children [OF ins.slice_sorter_axioms good lower _ put this]
  have "typeflag (header (reg_entry ''b'')) \<noteq> TypeDir" by code_simp
  with t show ?thesis by blast
qed

section \<open>Structure of the tree\<close>

text \<open>C11. The merged tree is closed under parents, whatever the layers and whatever order
  \<open>sort.Slice\<close> returns: every proper ancestor below the root of a path that exists exists
  too.\<close>

theorem merge_parent_closed:
  assumes "tree_get (Merge srt layers) q = Inr e" "strict_prefix p (psegs q)" "p \<noteq> []"
  shows "\<exists>d. tree_get (Merge srt layers) (abs_path p) = Inr d"
  using merged.get_ancestor [of "psegs q" srt layers e p] assms
  by (simp add: tree_get_view)

theorem merge_parent_closed_witness:
  "\<exists>d. tree_get (Merge (insertion_sort filename) [[reg_entry ''deep/nested/file'']]) (abs_path [''deep'']) = Inr d"
proof (rule merge_parent_closed)
  show "tree_get (Merge (insertion_sort filename) [[reg_entry ''deep/nested/file'']]) ''deep/nested/file'' =
      Inr \<lparr>epath = ''/deep/nested/file'', eheader = header (reg_entry ''deep/nested/file''), elayer = 0\<rparr>"
    by code_simp
  have "psegs ''deep/nested/file'' = [''deep'', ''nested'', ''file'']" by code_simp
  then show "strict_prefix [''deep''] (psegs ''deep/nested/file'')" by (simp add: strict_prefix_def)
qed simp

text \<open>C10. A directory listing of the merged tree is exact: it holds one entry for each name
  under which a lookup in the directory succeeds and no other, in strictly increasing order
  of the full paths.\<close>

theorem merge_children_exact:
  "set (tree_children (Merge srt layers) q) =
     {e. \<exists>s. proper s \<and> tree_get (Merge srt layers) (abs_path (psegs q @ [s])) = Inr e} \<and>
   sorted_wrt (<) (map epath (tree_children (Merge srt layers) q))"
  using merged.set_kids merged.sorted_kids merged.distinct_kids
  by (simp add: strict_sorted_iff)

text \<open>The tree does not depend on the order in which Go ranges over its maps: two
  well-formed trees with the same entries in different order give, once parents are
  synthesized and children linked, the same lookups and the same listings.\<close>

theorem finish_order_independent:
  assumes "tree_wf t" "kids t = Map.empty" "mset (entries t) = mset (entries t')" "kids t' = kids t"
  shows "tree_get (finish t) q = tree_get (finish t') q \<and>
    tree_children (finish t) q = tree_children (finish t') q"
proof -
  have dist: "distinct (akeys (entries t'))"
    using assms(1,3) by (metis akeys_def mset_eq_imp_distinct_iff mset_map tree_wf_def)
  moreover have "set (entries t) = set (entries t')"
    using assms(3) by (rule mset_eq_setD)
  ultimately have wf': "tree_wf t'"
    using assms(1) by (simp add: tree_wf_def list_all_iff)
  have "map_of (entries t) = map_of (entries t')"
    using assms(1,3) by (simp add: mset_eq_map_of tree_wf_def)
  then have vt: "view t = view t'"
    by (simp add: fun_eq_iff view_def)
  have view: "view (finish t) = view (finish t')"
    by (rule ext) (simp only: view_finish [OF assms(1)] view_finish [OF wf'] above_entry_def vt)
  note fc = finish_children [OF assms(1,2), of q] finish_children [OF wf' assms(4) [unfolded assms(2)], of q]
  have wfs: "tree_wf (finish t)" "tree_wf (finish t')"
    using finish_wf assms(1) wf' by blast+
  have set_eq: "set (tree_children (finish t) q) = set (tree_children (finish t') q)"
    using fc(1,4) view by simp
  then have "map epath (tree_children (finish t) q) = map epath (tree_children (finish t') q)"
    using fc by (intro sorted_distinct_set_unique) (simp_all del: distinct_map)
  moreover have "inj_on epath (set (tree_children (finish t) q) \<union> set (tree_children (finish t') q))"
    using fc(3) set_eq by (simp add: distinct_map)
  ultimately have "tree_children (finish t) q = tree_children (finish t') q"
    by (metis map_inj_on)
  with view show ?thesis by (simp add: tree_get_view)
qed

theorem finish_order_independent_witness:
  "tree_get (finish (layer_stack [reg_entry ''a'', reg_entry ''b/x''])) ''/b'' =
     tree_get (finish (layer_stack [reg_entry ''b/x'', reg_entry ''a''])) ''/b'' \<and>
   tree_children (finish (layer_stack [reg_entry ''a'', reg_entry ''b/x''])) ''/b'' =
     tree_children (finish (layer_stack [reg_entry ''b/x'', reg_entry ''a''])) ''/b''"
proof (rule finish_order_independent [OF layer_stack_wf])
  show "mset (entries (layer_stack [reg_entry ''a'', reg_entry ''b/x''])) =
      mset (entries (layer_stack [reg_entry ''b/x'', reg_entry ''a'']))"
  proof -
    have "entries (layer_stack [reg_entry ''a'', reg_entry ''b/x'']) =
        [(''/'', root_entry), (''/a'', \<lparr>epath = ''/a'', eheader = header (reg_entry ''a''), elayer = 0\<rparr>),
         (''/b/x'', \<lparr>epath = ''/b/x'', eheader = header (reg_entry ''b/x''), elayer = 0\<rparr>)]"
      "entries (layer_stack [reg_entry ''b/x'', reg_entry ''a'']) =
        [(''/'', root_entry), (''/b/x'', \<lparr>epath = ''/b/x'', eheader = header (reg_entry ''b/x''), elayer = 0\<rparr>),
         (''/a'', \<lparr>epath = ''/a'', eheader = header (reg_entry ''a''), elayer = 0\<rparr>)]"
      by code_simp+
    then show ?thesis by simp
  qed
  show "kids (layer_stack [reg_entry ''b/x'', reg_entry ''a'']) =
      kids (layer_stack [reg_entry ''a'', reg_entry ''b/x''])"
    by (simp add: layer_stack_wf)
qed


section \<open>Whiteout markers are not files of the image\<close>

definition no_marker_puts :: "layer_op list \<Rightarrow> bool" where
  "no_marker_puts ops \<longleftrightarrow>
     list_all (\<lambda>op. case op of Put s h \<Rightarrow> s \<noteq> [] \<and> \<not> has_prefix (last s) wh_prefix | _ \<Rightarrow> True) ops"

definition marker_free :: "(string list \<rightharpoonup> entry) \<Rightarrow> bool" where
  "marker_free v \<longleftrightarrow> (\<forall>p e. v p = Some e \<longrightarrow> p \<noteq> [] \<longrightarrow> \<not> has_prefix (last p) wh_prefix)"

lemma clean_no_marker_puts:
  assumes "\<forall>e \<in> set es. clean_filename (filename e)"
  shows "no_marker_puts (map op_of es)"
proof -
  have "s \<noteq> [] \<and> \<not> has_prefix (last s) wh_prefix" if "e \<in> set es" "op_of e = Put s h" for e s h
  proof -
    have s: "s = psegs (filename e)" "\<not> has_prefix (path_base (filename e)) wh_prefix"
      using that(2) by (auto simp: op_of_def Let_def split: if_splits)
    have "clean_filename (filename e)" using assms that(1) by blast
    then show ?thesis
      by (cases rule: clean_filename_cases) (use s path_base_head in auto)
  qed
  then show ?thesis
    by (auto simp: no_marker_puts_def list_all_iff split: layer_op.splits)
qed

lemma marker_free_effects:
  "no_marker_puts ops \<Longrightarrow> marker_free v \<Longrightarrow> marker_free (foldl (\<lambda>v op. op_effect li op v) v ops)"
proof (induction ops arbitrary: v)
  case (Cons op ops)
  then have "marker_free (op_effect li op v)"
    by (cases op) (auto simp: marker_free_def no_marker_puts_def)
  moreover have "no_marker_puts ops"
    using Cons.prems(1) by (simp add: no_marker_puts_def)
  ultimately show ?case using Cons.IH by simp
qed simp

lemma marker_free_stack:
  assumes "slice_sorter filename srt" "\<forall>es \<in> set layers. \<forall>e \<in> set es. clean_filename (filename e)"
  shows "marker_free (view (stack_layers srt layers))"
  using assms(2)
proof (induction layers rule: rev_induct)
  case Nil
  show ?case by (auto simp: marker_free_def view_new_tree)
next
  case (snoc es layers)
  moreover have "no_marker_puts (map op_of (srt es))"
    using snoc.prems slice_sorter.set_srt [OF assms(1)] by (intro clean_no_marker_puts) auto
  ultimately show ?case
    by (simp add: stack_layers_snoc view_apply_layer marker_free_effects)
qed

text \<open>Whiteout and opaque markers never appear in the merged tree: an entry that comes
  from a layer, at any path other than the root, has a name without the marker prefix.\<close>

theorem merge_hides_markers:
  assumes "slice_sorter filename srt" "\<forall>es \<in> set layers. \<forall>e \<in> set es. clean_filename (filename e)"
    and "tree_get (Merge srt layers) q = Inr e" "elayer e \<noteq> - 1" "epath e \<noteq> ''/''"
  shows "\<not> has_prefix (path_base (epath e)) wh_prefix"
proof -
  have e: "view (stack_layers srt layers) (psegs q) = Some e"
    using assms(3,4) by (auto simp: Merge_finish above_entry_overlay synthetic_dir_def
        split: option.splits if_splits)
  then have path: "epath e = abs_path (psegs q)"
    using view_epath [OF stack_layers_wf] by blast
  then have "psegs q \<noteq> []"
    using assms(5) by auto
  with path e marker_free_stack [OF assms(1,2)] show ?thesis
    by (auto simp: path_base_abs_path marker_free_def)
qed

theorem merge_hides_markers_witness:
  "\<not> has_prefix (path_base (epath \<lparr>epath = ''/b/z'', eheader = header (reg_entry ''b/z''), elayer = 1\<rparr>)) wh_prefix"
proof (rule merge_hides_markers [OF ins.slice_sorter_axioms])
  show "\<forall>es \<in> set [base_layer, opaque_layer]. \<forall>e \<in> set es. clean_filename (filename e)" by code_simp
  show "tree_get (Merge (insertion_sort filename) [base_layer, opaque_layer]) ''/b/z'' =
      Inr \<lparr>epath = ''/b/z'', eheader = header (reg_entry ''b/z''), elayer = 1\<rparr>" by code_simp
qed simp_all

section \<open>The loop over the parents\<close>

text \<open>The loop as it is written: as long as the condition holds, one more directory is seen.\<close>

lemma parents_while:
  "while_option (\<lambda>(q, _). q \<noteq> ''/'') (\<lambda>(q, seen). (canon (path_dir q), seen @ [q])) (q, seen) =
    Some (''/'', seen @ parents_loop q)"
proof (induction q arbitrary: seen rule: parents_loop.induct)
  case (1 q)
  then show ?case
    by (subst while_option_unfold, subst parents_loop.simps) simp
qed

lemma parents_loop_list:
  "proper_segs s \<Longrightarrow> parents_loop (abs_path s) = map (\<lambda>n. abs_path (take n s)) (rev [1..<Suc (length s)])"
proof (induction s rule: rev_induct)
  case Nil
  then show ?case by (simp add: parents_loop.simps)
next
  case (snoc x s)
  then have "abs_path (s @ [x]) \<noteq> ''/''" by (subst abs_path_root) auto
  then have "parents_loop (abs_path (s @ [x])) = abs_path (s @ [x]) # parents_loop (abs_path s)"
    using snoc.prems by (subst parents_loop.simps) (simp add: path_simps)
  also have "\<dots> = map (\<lambda>n. abs_path (take n (s @ [x]))) (rev ([1..<Suc (length s)] @ [Suc (length s)]))"
    using snoc by (auto simp del: upt_Suc)
  finally show ?case by simp
qed

text \<open>C12. The loop over the directories above a path ends for every key of the map, clean or not: it
  reaches the root after as many rounds as the directory of the key has segments, and sees each
  of the directories on the way to the root once, the deepest first.\<close>

theorem parents_loop_ends:
  "while_option (\<lambda>(parent, _). parent \<noteq> ''/'') (\<lambda>(parent, seen). (canon (path_dir parent), seen @ [parent]))
      (canon (path_dir p), []) =
    Some (''/'', parents_loop (canon (path_dir p))) \<and>
   parents_loop (canon (path_dir p)) =
    map (\<lambda>n. abs_path (take n (psegs (path_dir p)))) (rev [1..<Suc (length (psegs (path_dir p)))]) \<and>
   distinct (parents_loop (canon (path_dir p)))"
proof -
  let ?s = "psegs (path_dir p)"
  have list: "parents_loop (canon (path_dir p)) = map (\<lambda>n. abs_path (take n ?s)) (rev [1..<Suc (length ?s)])"
    unfolding canon_eq by (rule parents_loop_list) simp
  have "inj_on (\<lambda>n. abs_path (take n ?s)) {1..<Suc (length ?s)}"
  proof (rule inj_onI)
    fix m n assume mn: "m \<in> {1..<Suc (length ?s)}" "n \<in> {1..<Suc (length ?s)}" "abs_path (take m ?s) = abs_path (take n ?s)"
    have "proper_segs (take k ?s)" for k using proper_psegs [of "path_dir p"] by (auto simp: list_all_iff dest: in_set_takeD)
    then have "take m ?s = take n ?s" using abs_path_inj mn(3) by blast
    then have "length (take m ?s) = length (take n ?s)" by simp
    then show "m = n" using mn(1,2) by simp
  qed
  then have "distinct (parents_loop (canon (path_dir p)))" unfolding list by (simp add: distinct_map del: upt_Suc)
  then show ?thesis using list parents_while [of _ "[]"] by simp
qed

section \<open>The raw view of one layer\<close>

lemma view_layer_stack:
  "view (layer_stack es) p =
    (case map_of (rev (map (\<lambda>e. (psegs (filename e), header e)) es)) p of
       Some h \<Rightarrow> Some \<lparr>epath = abs_path p, eheader = h, elayer = 0\<rparr>
     | None \<Rightarrow> if p = [] then Some root_entry else None)"
proof (induction es rule: rev_induct)
  case Nil
  show ?case by (simp add: layer_stack_def view_new_tree)
next
  case (snoc e es)
  then show ?case
    by (simp add: layer_stack_def layer_put_def Let_def canon_eq view_put)
qed

text \<open>The raw view of a layer shows every entry of its tar, whiteout and opaque markers
  included, the last one where a name occurs twice; directories the tar leaves out are
  synthesized, and nothing else exists.\<close>

theorem layer_tree_get:
  "tree_get (LayerTree es) q =
    (case map_of (rev (map (\<lambda>e. (psegs (filename e), header e)) es)) (psegs q) of
       Some h \<Rightarrow> Inr \<lparr>epath = canon q, eheader = h, elayer = 0\<rparr>
     | None \<Rightarrow> if psegs q = [] then Inr root_entry
               else if list_ex (\<lambda>e. strict_prefix (psegs q) (psegs (filename e))) es
               then Inr (synthetic_dir (canon q)) else Inl ErrNotExist)"
proof -
  have "above_entry (layer_stack es) p \<longleftrightarrow> p \<noteq> [] \<and> list_ex (\<lambda>e. strict_prefix p (psegs (filename e))) es" for p
  proof -
    have "view (layer_stack es) r \<noteq> None \<longleftrightarrow> r = [] \<or> (\<exists>e \<in> set es. r = psegs (filename e))" for r
    proof -
      have "map_of (rev (map (\<lambda>e. (psegs (filename e), header e)) es)) r = None \<longleftrightarrow>
          (\<forall>e \<in> set es. r \<noteq> psegs (filename e))"
        by (simp add: map_of_eq_None_iff image_image) (simp add: image_iff)
      then show ?thesis
        by (cases "map_of (rev (map (\<lambda>e. (psegs (filename e), header e)) es)) r")
           (simp_all add: view_layer_stack)
    qed
    then show ?thesis
      by (auto simp: above_entry_def list_ex_iff)
  qed
  then show ?thesis
    by (simp add: LayerTree_finish tree_get_view view_finish [OF layer_stack_wf(1)] view_layer_stack
        canon_eq split: option.splits)
qed

end
