(* ===== verification/Oci_Types.thy ===== *)
theory Oci_Types
  imports Prelude
begin

text \<open>
  The data of \<open>go-containerregistry\<close> that the program inspects: a platform, with the three
  fields the program reads, and a content digest.
\<close>

record platform =
  plat_os :: string
  plat_arch :: string
  plat_variant :: string

record hash =
  hash_algorithm :: string
  hash_hex :: string

end
