(* ===== verification/FsPath.thy ===== *)
theory FsPath
  imports Go_Path Oci_Types
begin

text \<open>
  \<open>internal/fspath/parse.go\<close>: splitting a path below the mount point into an image reference
  and a path inside the image.  The reference parser of \<open>name\<close> and the platform parser of
  \<open>v1\<close> are third-party functions and parameters here; \<open>'r\<close> is the type of references and
  \<open>'e\<close> that of their errors.
\<close>

section \<open>Data\<close>

record 'r parsed =
  p_intermediate :: "string list"
  p_ref :: "'r option"
  p_in_image :: path
  p_platform :: "platform option"

definition zero_parsed :: "'r parsed" where
  "zero_parsed = \<lparr>p_intermediate = [], p_ref = None, p_in_image = [], p_platform = None\<rparr>"

datatype 'e spec_error = EmptySpec | SpecError 'e

datatype 'e parse_error = PlatformError string "'e spec_error" | RefError string 'e

section \<open>Operations\<close>

definition all_digits :: "string \<Rightarrow> bool" where
  "all_digits s \<longleftrightarrow> list_all (\<lambda>r. \<not> (r < CHR ''0'' \<or> CHR ''9'' < r)) s"

definition is_registry_segment :: "string \<Rightarrow> bool" where
  "is_registry_segment s =
     (case last_index_byte s CHR '':'' of
        Some i \<Rightarrow> (let port = drop (Suc i) s in port \<noteq> [] \<and> all_digits port)
      | None \<Rightarrow> contains_any s ''.'')"

definition parse_platform_spec ::
  "(string \<Rightarrow> 'e + platform) \<Rightarrow> string \<Rightarrow> 'e spec_error + platform" where
  "parse_platform_spec parse_platform s =
     (if s = [] then Inl EmptySpec
      else case parse_platform (replace_char CHR ''-'' CHR ''/'' s) of
        Inl e \<Rightarrow> Inl (SpecError e) | Inr p \<Rightarrow> Inr p)"

text \<open>The loop that looks for the segment where the reference ends; \<open>i\<close> is its index.\<close>

fun find_ref :: "nat \<Rightarrow> string list \<Rightarrow> nat option" where
  "find_ref i [] = None"
| "find_ref i (s # ss) =
     (if i = 0 \<and> is_registry_segment s then find_ref (Suc i) ss
      else if contains_any s '':@'' then Some i
      else find_ref (Suc i) ss)"

text \<open>The platform suffix of the segment that bears the reference: the segment without it and
  the platform it names.\<close>

definition strip_platform ::
  "(string \<Rightarrow> 'e + platform) \<Rightarrow> string \<Rightarrow> 'e parse_error + string \<times> platform option" where
  "strip_platform parse_platform seg =
     (case index_byte seg CHR ''~'' of
        None \<Rightarrow> Inr (seg, None)
      | Some i \<Rightarrow> (let spec = drop (Suc i) seg
          in case parse_platform_spec parse_platform spec of
               Inl e \<Rightarrow> Inl (PlatformError spec e)
             | Inr p \<Rightarrow> Inr (take i seg, Some p)))"

definition Parse ::
  "(string \<Rightarrow> 'e + 'r) \<Rightarrow> (string \<Rightarrow> 'e + platform) \<Rightarrow> path \<Rightarrow> 'e parse_error + 'r parsed" where
  "Parse parse_reference parse_platform path =
     (let p = trim_char slash path
      in if p = [] then Inr zero_parsed
         else let segs = split_on slash p
              in case find_ref 0 segs of
                   None \<Rightarrow> Inr (zero_parsed\<lparr>p_intermediate := segs\<rparr>)
                 | Some i \<Rightarrow> (case strip_platform parse_platform (segs ! i) of
                     Inl e \<Rightarrow> Inl e
                   | Inr (seg, platform) \<Rightarrow>
                       (let ref_str = join_with ''/'' (take i segs @ [seg])
                        in case parse_reference ref_str of
                             Inl e \<Rightarrow> Inl (RefError ref_str e)
                           | Inr ref \<Rightarrow>
                               (let tail = drop (Suc i) segs;
                                    in_image = (if tail \<noteq> [] then ''/'' @ path_join tail else ''/'')
                                in Inr \<lparr>p_intermediate = [], p_ref = Some ref,
                                        p_in_image = in_image, p_platform = platform\<rparr>))))"

section \<open>Registry segments and the reference boundary\<close>

text \<open>A segment ends the reference when it holds a colon or an at sign, except a registry with
  a port in front.\<close>

definition bears_ref :: "nat \<Rightarrow> string \<Rightarrow> bool" where
  "bears_ref i s \<longleftrightarrow> contains_any s '':@'' \<and> \<not> (i = 0 \<and> is_registry_segment s)"

lemma find_ref_None: "find_ref i ss = None \<longleftrightarrow> (\<forall>j < length ss. \<not> bears_ref (i + j) (ss ! j))"
proof (induction ss arbitrary: i)
  case (Cons s ss)
  have "find_ref i (s # ss) = None \<longleftrightarrow> \<not> bears_ref i s \<and> find_ref (Suc i) ss = None"
    by (auto simp: bears_ref_def)
  also have "\<dots> \<longleftrightarrow> (\<forall>j < length (s # ss). \<not> bears_ref (i + j) ((s # ss) ! j))"
    unfolding Cons.IH by (auto simp: less_Suc_eq_0_disj)
  finally show ?case .
qed simp

lemma find_ref_Some:
  "find_ref i ss = Some k \<Longrightarrow> \<exists>j < length ss. k = i + j \<and> bears_ref k (ss ! j) \<and>
    (\<forall>j' < j. \<not> bears_ref (i + j') (ss ! j'))"
proof (induction ss arbitrary: i)
  case (Cons s ss)
  show ?case
  proof (cases "bears_ref i s")
    case True
    with Cons.prems have "k = i" by (auto simp: bears_ref_def)
    with True show ?thesis by auto
  next
    case False
    with Cons.prems have "find_ref (Suc i) ss = Some k"
      by (auto simp: bears_ref_def split: if_splits)
    from Cons.IH [OF this] obtain j where j: "j < length ss" "k = Suc i + j" "bears_ref k (ss ! j)"
        "\<forall>j' < j. \<not> bears_ref (Suc i + j') (ss ! j')" by blast
    with False show ?thesis
      by (intro exI [of _ "Suc j"]) (auto simp: less_Suc_eq_0_disj)
  qed
qed simp

lemma find_ref_at:
  assumes "\<forall>j < length pre. \<not> bears_ref j (pre ! j)" "bears_ref (length pre) r"
  shows "find_ref 0 (pre @ r # tail) = Some (length pre)"
proof -
  have "\<not> (\<forall>j < length (pre @ r # tail). \<not> bears_ref (0 + j) ((pre @ r # tail) ! j))"
    using assms(2) by (auto intro!: exI [of _ "length pre"])
  then obtain k where k: "find_ref 0 (pre @ r # tail) = Some k"
    unfolding find_ref_None [symmetric] by blast
  from find_ref_Some [OF this] have b: "bears_ref k ((pre @ r # tail) ! k)"
      "\<forall>j < k. \<not> bears_ref j ((pre @ r # tail) ! j)" by auto
  have "\<not> k < length pre"
    using b(1) assms(1) by (auto simp: nth_append)
  moreover have "\<not> length pre < k"
    using b(2) assms(2) by force
  ultimately show ?thesis using k by simp
qed

section \<open>Trimming\<close>

lemma trim_slash_Cons: "trim_char c (c # s) = trim_char c s"
  by (simp add: trim_char_def)

lemma trim_slash_snoc: "trim_char c (s @ [c]) = trim_char c s"
proof (cases "\<forall>x \<in> set s. x = c")
  case True
  then show ?thesis
    by (auto simp: trim_char_def dropWhile_append dest: set_dropWhileD)
next
  case False
  then obtain x where "x \<in> set s" "x \<noteq> c" by blast
  then show ?thesis by (simp add: trim_char_def dropWhile_append1)
qed

section \<open>Paths written from segments\<close>

lemma join_ends:
  assumes "\<forall>s \<in> set segs. s \<noteq> [] \<and> slash \<notin> set s" "segs \<noteq> []"
  shows "join_with ''/'' segs \<noteq> []" "hd (join_with ''/'' segs) \<noteq> slash"
    "last (join_with ''/'' segs) \<noteq> slash"
proof -
  obtain x xs where s: "segs = x # xs" using assms(2) by (cases segs) auto
  with assms(1) have "x \<noteq> []" "hd x \<noteq> slash" by (auto dest: list.set_sel(1))
  then show "join_with ''/'' segs \<noteq> []" "hd (join_with ''/'' segs) \<noteq> slash"
    by (auto simp: s join_with_Cons hd_append)
  obtain y ys where s: "segs = ys @ [y]" using assms(2) by (cases segs rule: rev_cases) auto
  with assms(1) have "y \<noteq> []" "last y \<noteq> slash" by (auto dest: last_in_set)
  then show "last (join_with ''/'' segs) \<noteq> slash"
    by (auto simp: s join_with_append)
qed

lemma Parse_segments:
  assumes "\<forall>s \<in> set segs. s \<noteq> [] \<and> slash \<notin> set s" "segs \<noteq> []"
  shows "trim_char slash (join_with ''/'' segs) = join_with ''/'' segs"
    "split_on slash (join_with ''/'' segs) = segs"
  using join_ends [OF assms] split_join [OF assms(2)] assms(1) by (auto intro: trim_char_id)

end
