(* ===== verification/FsPath_Props.thy ===== *)
theory FsPath_Props
  imports FsPath
begin

text \<open>
  The properties of \<open>internal/fspath\<close>: where the reference ends, that a mount path written
  from its parts parses back into them, and that surrounding slashes do not matter.
\<close>

text \<open>C7. A mount path written from its parts, a registry and repository prefix, the segment
  that bears the reference (with or without a platform suffix) and a path inside the image,
  parses back into them: the reference parser gets the prefix and the segment without its
  platform suffix, the rest is the in-image path, and colons in it are not looked at.\<close>

theorem parse_mount_path:
  assumes "\<forall>s \<in> set pre. s \<noteq> [] \<and> slash \<notin> set s" "r \<noteq> []" "slash \<notin> set r" "proper_segs tail"
    and "\<forall>j < length pre. \<not> bears_ref j (pre ! j)" "bears_ref (length pre) r"
    and "strip_platform parse_platform r = Inr (seg, plat)"
    and "parse_reference (join_with ''/'' (pre @ [seg])) = Inr ref"
  shows "Parse parse_reference parse_platform (join_with ''/'' (pre @ r # tail)) =
    Inr \<lparr>p_intermediate = [], p_ref = Some ref, p_in_image = abs_path tail, p_platform = plat\<rparr>"
proof -
  let ?segs = "pre @ r # tail"
  have segs: "\<forall>s \<in> set ?segs. s \<noteq> [] \<and> slash \<notin> set s"
    using assms(1-4) by (auto simp: list_all_iff proper_def)
  have "find_ref 0 ?segs = Some (length pre)"
    using assms(5,6) by (rule find_ref_at)
  moreover have "tail \<noteq> [] \<Longrightarrow> path_join tail = join_with ''/'' tail"
    using assms(4) by (rule path_join_proper)
  ultimately show ?thesis
    using assms(7,8) join_ends(1) [OF segs] Parse_segments [OF segs]
    by (simp add: Parse_def Let_def abs_path_def)
qed

text \<open>Instances of the third-party parsers for the witnesses: every reference is accepted as its
  own text, every platform as an operating system and an architecture.\<close>

definition id_reference :: "string \<Rightarrow> string + string" where
  "id_reference s = Inr s"

definition two_part_platform :: "string \<Rightarrow> string + platform" where
  "two_part_platform s = (case split_on slash s of
     [a, b] \<Rightarrow> Inr \<lparr>plat_os = a, plat_arch = b, plat_variant = []\<rparr> | _ \<Rightarrow> Inl s)"

theorem parse_mount_path_witness:
  "Parse id_reference two_part_platform
     (join_with ''/'' ([''localhost:5000'', ''foo''] @ ''bar:1.0~linux-arm64'' # [''etc'', ''a:b''])) =
   Inr \<lparr>p_intermediate = [], p_ref = Some ''localhost:5000/foo/bar:1.0'', p_in_image = abs_path [''etc'', ''a:b''],
     p_platform = Some \<lparr>plat_os = ''linux'', plat_arch = ''arm64'', plat_variant = []\<rparr>\<rparr>"
proof (rule parse_mount_path)
  show "strip_platform two_part_platform ''bar:1.0~linux-arm64'' =
      Inr (''bar:1.0'', Some \<lparr>plat_os = ''linux'', plat_arch = ''arm64'', plat_variant = []\<rparr>)" by code_simp
  have "\<not> bears_ref 0 ''localhost:5000''" "\<not> bears_ref 1 ''foo''" by code_simp+
  then show "\<forall>j < length [''localhost:5000'', ''foo'']. \<not> bears_ref j ([''localhost:5000'', ''foo''] ! j)"
    by (auto simp: less_Suc_eq_0_disj)
  show "bears_ref (length [''localhost:5000'', ''foo'']) ''bar:1.0~linux-arm64''" by code_simp
  show "id_reference (join_with ''/'' ([''localhost:5000'', ''foo''] @ [''bar:1.0''])) =
      Inr ''localhost:5000/foo/bar:1.0''" by code_simp
  show "proper_segs [''etc'', ''a:b'']" by code_simp
qed simp_all

text \<open>A path stays in the registry and repository hierarchy exactly when no segment bears a
  reference: the parse then succeeds without calling either third-party parser and returns
  the segments walked so far.\<close>

theorem parse_intermediate_iff:
  "(\<exists>x. Parse parse_reference parse_platform p = Inr x \<and> p_ref x = None) \<longleftrightarrow>
    (let segs = split_on slash (trim_char slash p) in \<not> (\<exists>j < length segs. bears_ref j (segs ! j)))"
proof -
  let ?segs = "split_on slash (trim_char slash p)"
  have empty: "\<not> bears_ref 0 []"
    by (simp add: bears_ref_def contains_any_def)
  show ?thesis
  proof (cases "find_ref 0 ?segs")
    case None
    then show ?thesis
      using find_ref_None [of 0 ?segs] by (auto simp: Parse_def Let_def zero_parsed_def)
  next
    case (Some i)
    then have "\<not> (\<forall>j < length ?segs. \<not> bears_ref j (?segs ! j))"
      using find_ref_None [of 0 ?segs] by simp
    moreover from this have "trim_char slash p \<noteq> []" using empty by auto
    ultimately show ?thesis
      using Some by (auto simp: Parse_def Let_def split: sum.splits prod.splits)
  qed
qed

text \<open>Slashes around a path are ignored: a leading or a trailing slash changes neither the
  result nor the error of the parse.\<close>

theorem parse_trims_slashes:
  "Parse parse_reference parse_platform (''/'' @ p) = Parse parse_reference parse_platform p \<and>
   Parse parse_reference parse_platform (p @ ''/'') = Parse parse_reference parse_platform p"
  by (simp add: Parse_def trim_slash_Cons trim_slash_snoc)

text \<open>A first segment of the form name, colon, digits is always read as a registry with a
  port: the path stays in the hierarchy whatever the reference parser would make of it, so
  the Docker Hub shorthand with a numeric tag never reaches an image.\<close>

theorem numeric_tag_is_registry:
  assumes "port \<noteq> []" "all_digits port" "slash \<notin> set h"
  shows "Parse parse_reference parse_platform (h @ '':'' @ port) =
    Inr (zero_parsed\<lparr>p_intermediate := [h @ '':'' @ port]\<rparr>)"
proof -
  have port: "CHR '':'' \<notin> set port" "slash \<notin> set port"
    using assms(2) by (auto simp: all_digits_def list_all_iff less_char_def)
  then have reg: "is_registry_segment (h @ '':'' @ port)"
    using assms(1,2) last_index_byte_append [of "CHR '':''" port h]
    by (simp add: is_registry_segment_def)
  have seg: "\<forall>s \<in> set [h @ '':'' @ port]. s \<noteq> [] \<and> slash \<notin> set s"
    using assms(3) port by simp
  show ?thesis
    using Parse_segments [OF seg] reg by (simp add: Parse_def)
qed

theorem numeric_tag_is_registry_witness:
  "Parse id_reference two_part_platform (''postgres'' @ '':'' @ ''16'') =
    Inr (zero_parsed\<lparr>p_intermediate := [''postgres'' @ '':'' @ ''16'']\<rparr>)"
proof (rule numeric_tag_is_registry)
  show "all_digits ''16''" by code_simp
qed simp_all

text \<open>A parse fails for one of two reasons only, and each names the offending text: the
  platform suffix is empty or rejected by the platform parser, or the reference parser
  rejects the prefix up to and including the segment that bears the reference.\<close>

theorem parse_error_cause:
  assumes "Parse parse_reference parse_platform p = Inl err"
  shows "\<exists>i seg. let segs = split_on slash (trim_char slash p) in
    i < length segs \<and> bears_ref i (segs ! i) \<and> (\<forall>j < i. \<not> bears_ref j (segs ! j)) \<and>
    (strip_platform parse_platform (segs ! i) = Inl err \<or>
     (\<exists>plat e. strip_platform parse_platform (segs ! i) = Inr (seg, plat) \<and>
        parse_reference (join_with ''/'' (take i segs @ [seg])) = Inl e \<and>
        err = RefError (join_with ''/'' (take i segs @ [seg])) e))"
proof -
  let ?segs = "split_on slash (trim_char slash p)"
  obtain i where i: "find_ref 0 ?segs = Some i"
    using assms by (auto simp: Parse_def Let_def split: if_splits option.splits)
  from find_ref_Some [OF this] have "i < length ?segs" "bears_ref i (?segs ! i)"
      "\<forall>j < i. \<not> bears_ref j (?segs ! j)" by auto
  moreover have "\<exists>seg. strip_platform parse_platform (?segs ! i) = Inl err \<or>
     (\<exists>plat e. strip_platform parse_platform (?segs ! i) = Inr (seg, plat) \<and>
        parse_reference (join_with ''/'' (take i ?segs @ [seg])) = Inl e \<and>
        err = RefError (join_with ''/'' (take i ?segs @ [seg])) e)"
    using assms i by (auto simp: Parse_def Let_def split: if_splits sum.splits prod.splits)
  ultimately show ?thesis by (auto simp: Let_def)
qed

theorem parse_error_cause_witness:
  "\<exists>i seg. let segs = split_on slash (trim_char slash ''a:b~'') in
    i < length segs \<and> bears_ref i (segs ! i) \<and> (\<forall>j < i. \<not> bears_ref j (segs ! j)) \<and>
    (strip_platform two_part_platform (segs ! i) = Inl (PlatformError [] EmptySpec) \<or>
     (\<exists>plat e. strip_platform two_part_platform (segs ! i) = Inr (seg, plat) \<and>
        id_reference (join_with ''/'' (take i segs @ [seg])) = Inl e \<and>
        PlatformError [] EmptySpec = RefError (join_with ''/'' (take i segs @ [seg])) e))"
proof (rule parse_error_cause)
  show "Parse id_reference two_part_platform ''a:b~'' = Inl (PlatformError [] EmptySpec)" by code_simp
qed

end
