(* ===== verification/Go_Base.thy ===== *)
theory Go_Base
  imports Prelude
begin

text \<open>
  Go's \<open>int64\<close> arithmetic, byte slices and reader interface.  Values of type \<open>int64\<close> are
  integers; where an addition can leave the range it is wrapped by \<open>wrap64\<close>.  A byte slice is
  a backing array from the slice's start to its capacity, with the slice's length: slicing may
  extend a slice up to its capacity, which the model therefore has to know.
\<close>

section \<open>64-bit integers\<close>

definition wrap64 :: "int \<Rightarrow> int" where
  "wrap64 x = (x + 2 ^ 63) mod 2 ^ 64 - 2 ^ 63"

lemma wrap64_id [simp]: "- (2 ^ 63) \<le> x \<Longrightarrow> x < 2 ^ 63 \<Longrightarrow> wrap64 x = x"
  by (simp add: wrap64_def)

lemma wrap64_range: "- (2 ^ 63) \<le> wrap64 x \<and> wrap64 x < 2 ^ 63"
  by (simp add: wrap64_def)

section \<open>Byte slices\<close>

record go_slice =
  backing :: bytes
  slen :: nat

definition slice_bytes :: "go_slice \<Rightarrow> bytes" where
  "slice_bytes s = take (slen s) (backing s)"

text \<open>The bytes of the slice expression \<open>s[a:b]\<close>; \<open>None\<close> is the run-time panic for bounds
  outside the capacity.\<close>

definition reslice :: "go_slice \<Rightarrow> int \<Rightarrow> int \<Rightarrow> bytes option" where
  "reslice s a b =
     (if 0 \<le> a \<and> a \<le> b \<and> b \<le> int (length (backing s))
      then Some (take (nat (b - a)) (drop (nat a) (backing s))) else None)"

text \<open>\<open>copy(dst[k:], src)\<close>: the new destination and the number of bytes copied.\<close>

definition copy_at :: "bytes \<Rightarrow> nat \<Rightarrow> bytes \<Rightarrow> bytes \<times> nat" where
  "copy_at dst k src =
     (let n = min (length dst - k) (length src)
      in (take k dst @ take n src @ drop (k + n) dst, n))"

section \<open>Readers\<close>

datatype io_error = EOF | IOError string

text \<open>An \<open>io.ReaderAt\<close> called with a buffer of the given length at an offset, in a world it
  may change: the buffer's content after the call, the count and the error it returns.\<close>

type_synonym 'w reader_at = "int \<Rightarrow> nat \<Rightarrow> 'w \<Rightarrow> (bytes \<times> nat \<times> io_error option) \<times> 'w"

text \<open>A call of the program ends normally, with an error value or with a run-time panic.\<close>

datatype fault = Panic | Fail io_error

end
