(* ===== verification/ChunkCache.thy ===== *)
theory ChunkCache
  imports Go_Base Oci_Types
begin

text \<open>
  \<open>internal/layer/chunkcache.go\<close>: the global LRU cache of compressed chunks and the reader
  that fronts it.  An element of the \<open>container/list\<close> is its identity together with the entry
  it points to; \<open>cc_next\<close> numbers the elements the list allocates.  The mutex makes \<open>get\<close>
  and \<open>put\<close> atomic, so each is one function on the cache state.
\<close>

section \<open>Data\<close>

record chunk_key =
  ck_layer :: hash
  ck_idx :: int

record lru_entry =
  le_key :: chunk_key
  le_data :: go_slice
  le_elem :: nat

record chunk_cache =
  cc_cap :: int
  cc_chunk_size :: int
  cc_used :: int
  cc_items :: "chunk_key \<rightharpoonup> lru_entry"
  cc_lru :: "(nat \<times> lru_entry) list"
  cc_next :: nat

definition new_chunk_cache :: "int \<Rightarrow> int \<Rightarrow> chunk_cache" where
  "new_chunk_cache cap_bytes chunk_size =
     (let cs = (if chunk_size \<le> 0 then 2 ^ 20 else chunk_size)
      in \<lparr>cc_cap = cap_bytes, cc_chunk_size = cs, cc_used = 0, cc_items = Map.empty,
          cc_lru = [], cc_next = 0\<rparr>)"

definition chunks_used :: "chunk_cache \<Rightarrow> int" where
  "chunks_used g = cc_used g"

section \<open>The LRU\<close>

text \<open>\<open>list.MoveToFront\<close> of the element with a given identity.\<close>

definition move_to_front :: "nat \<Rightarrow> (nat \<times> 'a) list \<Rightarrow> (nat \<times> 'a) list" where
  "move_to_front i xs = filter (\<lambda>x. fst x = i) xs @ filter (\<lambda>x. fst x \<noteq> i) xs"

definition cc_get :: "chunk_key \<Rightarrow> chunk_cache \<Rightarrow> go_slice option \<times> chunk_cache" where
  "cc_get key g =
     (case cc_items g key of
        None \<Rightarrow> (None, g)
      | Some e \<Rightarrow> (Some (le_data e), g\<lparr>cc_lru := move_to_front (le_elem e) (cc_lru g)\<rparr>))"

function evict_loop :: "chunk_cache \<Rightarrow> chunk_cache" where
  "evict_loop g =
     (if cc_cap g < cc_used g then
        (if cc_lru g = [] then g
         else let oe = snd (last (cc_lru g))
              in evict_loop (g\<lparr>cc_lru := butlast (cc_lru g),
                               cc_items := (cc_items g)(le_key oe := None),
                               cc_used := cc_used g - int (slen (le_data oe))\<rparr>))
      else g)"
  by pat_completeness auto
termination
  by (relation "measure (\<lambda>g. length (cc_lru g))") auto

declare evict_loop.simps [simp del]

definition push_entry :: "chunk_key \<Rightarrow> go_slice \<Rightarrow> chunk_cache \<Rightarrow> chunk_cache" where
  "push_entry key data g =
     (let e = \<lparr>le_key = key, le_data = data, le_elem = cc_next g\<rparr>
      in g\<lparr>cc_lru := (cc_next g, e) # cc_lru g, cc_items := (cc_items g)(key \<mapsto> e),
           cc_used := cc_used g + int (slen data), cc_next := Suc (cc_next g)\<rparr>)"

definition cc_put :: "chunk_key \<Rightarrow> go_slice \<Rightarrow> chunk_cache \<Rightarrow> chunk_cache" where
  "cc_put key data g =
     (case cc_items g key of
        Some existing \<Rightarrow> g\<lparr>cc_lru := move_to_front (le_elem existing) (cc_lru g)\<rparr>
      | None \<Rightarrow> (let g' = push_entry key data g
                 in if cc_cap g' \<le> 0 then g' else evict_loop g'))"

section \<open>Reading through the cache\<close>

record 'w layer_view =
  lv_layer :: hash
  lv_under :: "'w reader_at"
  lv_size :: int

definition for_layer :: "hash \<Rightarrow> 'w reader_at \<Rightarrow> int \<Rightarrow> 'w layer_view" where
  "for_layer layer underlying sz = \<lparr>lv_layer = layer, lv_under = underlying, lv_size = sz\<rparr>"

definition fetch_chunk ::
  "'w layer_view \<Rightarrow> int \<Rightarrow> int \<Rightarrow> int \<Rightarrow> chunk_cache \<Rightarrow> 'w \<Rightarrow>
   (fault + go_slice) \<times> chunk_cache \<times> 'w" where
  "fetch_chunk v idx start stop g w =
     (let key = \<lparr>ck_layer = lv_layer v, ck_idx = idx\<rparr>
      in case cc_get key g of
           (Some data, g1) \<Rightarrow> (Inr data, g1, w)
         | (None, g1) \<Rightarrow>
             (if stop < start then (Inl Panic, g1, w)
              else case lv_under v start (nat (stop - start)) w of
                ((buf, n, err), w1) \<Rightarrow>
                  (if err \<noteq> None \<and> err \<noteq> Some EOF then (Inl (Fail (the err)), g1, w1)
                   else if length buf < n then (Inl Panic, g1, w1)
                   else let chunk = \<lparr>backing = buf, slen = n\<rparr>
                        in (Inr chunk, cc_put key chunk g1, w1))))"

text \<open>The loop of \<open>ReadAt\<close>: \<open>p\<close> is the caller's buffer, \<open>cur\<close> the offset to read next and
  \<open>written\<close> the count so far.\<close>

function read_loop ::
  "'w layer_view \<Rightarrow> int \<Rightarrow> int \<Rightarrow> bytes \<Rightarrow> int \<Rightarrow> nat \<Rightarrow> chunk_cache \<Rightarrow> 'w \<Rightarrow>
   (bytes \<times> nat \<times> fault option) \<times> chunk_cache \<times> 'w" where
  "read_loop v off stop p cur written g w =
     (if stop \<le> cur then ((p, written, None), g, w)
      else if cc_chunk_size g = 0 then ((p, written, Some Panic), g, w)
      else
        (let idx = cur div cc_chunk_size g;
             chunk_start = idx * cc_chunk_size g;
             chunk_end0 = wrap64 (chunk_start + cc_chunk_size g);
             chunk_end = (if lv_size v < chunk_end0 then lv_size v else chunk_end0)
         in case fetch_chunk v idx chunk_start chunk_end g w of
              (Inl f, g1, w1) \<Rightarrow> ((p, written, Some f), g1, w1)
            | (Inr chunk, g1, w1) \<Rightarrow>
                (let copy_end = (if stop < chunk_end then stop else chunk_end)
                 in case reslice chunk (cur - chunk_start) (copy_end - chunk_start) of
                      None \<Rightarrow> ((p, written, Some Panic), g1, w1)
                    | Some src \<Rightarrow>
                        (if cur - off < 0 \<or> int (length p) < cur - off
                         then ((p, written, Some Panic), g1, w1)
                         else let (p1, n) = copy_at p (nat (cur - off)) src
                              in if n = 0 then ((p1, written, None), g1, w1)
                                 else read_loop v off stop p1 (cur + int n) (written + n) g1 w1))))"
  by pat_completeness auto
termination
  by (relation "measure (\<lambda>(v, off, stop, p, cur, written, g, w). nat (stop - cur))") auto

declare read_loop.simps [simp del]

definition read_at ::
  "'w layer_view \<Rightarrow> bytes \<Rightarrow> int \<Rightarrow> chunk_cache \<Rightarrow> 'w \<Rightarrow>
   (bytes \<times> nat \<times> fault option) \<times> chunk_cache \<times> 'w" where
  "read_at v p off g w =
     (if off < 0 \<or> lv_size v \<le> off then ((p, 0, Some (Fail EOF)), g, w)
      else
        (let end0 = wrap64 (off + int (length p));
             stop = (if lv_size v < end0 then lv_size v else end0)
         in case read_loop v off stop p off 0 g w of
              ((p1, written, None), g1, w1) \<Rightarrow>
                (if written < length p1 then ((p1, written, Some (Fail EOF)), g1, w1)
                 else ((p1, written, None), g1, w1))
            | r \<Rightarrow> r))"

end
