(* ===== verification/Lru_Spec.thy ===== *)
theory Lru_Spec
  imports Prelude
begin

text \<open>
  The abstract contract of the chunk cache, in two parts.  A recency list is a list of keys
  with sized values, most recently used first: \<open>lru_touch\<close> moves a key to the front,
  \<open>lru_insert\<close> adds one and keeps the longest front part that fits the capacity.  The locale
  \<open>caching\<close> is what a client needs to know: a cache returns only what was put into it.
\<close>

section \<open>Recency lists\<close>

definition lru_touch :: "'k \<Rightarrow> ('k \<times> 'v) list \<Rightarrow> ('k \<times> 'v) list" where
  "lru_touch k xs = filter (\<lambda>x. fst x = k) xs @ filter (\<lambda>x. fst x \<noteq> k) xs"

definition total :: "('v \<Rightarrow> nat) \<Rightarrow> ('k \<times> 'v) list \<Rightarrow> int" where
  "total sz xs = (\<Sum>x \<leftarrow> xs. int (sz (snd x)))"

fun fitting :: "('v \<Rightarrow> nat) \<Rightarrow> int \<Rightarrow> ('k \<times> 'v) list \<Rightarrow> ('k \<times> 'v) list" where
  "fitting sz c [] = []"
| "fitting sz c ((k, v) # xs) =
     (if int (sz v) \<le> c then (k, v) # fitting sz (c - int (sz v)) xs else [])"

definition lru_insert :: "('v \<Rightarrow> nat) \<Rightarrow> int \<Rightarrow> 'k \<Rightarrow> 'v \<Rightarrow> ('k \<times> 'v) list \<Rightarrow> ('k \<times> 'v) list" where
  "lru_insert sz cap k v xs =
     (if k \<in> fst ` set xs then lru_touch k xs
      else if cap \<le> 0 then (k, v) # xs
      else fitting sz cap ((k, v) # xs))"

lemma total_simps [simp]: "total sz [] = 0" "total sz (x # xs) = int (sz (snd x)) + total sz xs"
  "total sz (xs @ ys) = total sz xs + total sz ys"
  by (simp_all add: total_def)

lemma total_nonneg: "0 \<le> total sz xs"
  by (induction xs) auto

lemma set_lru_touch [simp]: "set (lru_touch k xs) = set xs"
  by (auto simp: lru_touch_def)

lemma total_filter: "total sz (filter P xs) + total sz (filter (\<lambda>x. \<not> P x) xs) = total sz xs"
  by (induction xs) auto

lemma total_lru_touch [simp]: "total sz (lru_touch k xs) = total sz xs"
  by (simp add: lru_touch_def total_filter)

lemma lru_touch_absent [simp]: "k \<notin> fst ` set xs \<Longrightarrow> lru_touch k xs = xs"
proof -
  assume "k \<notin> fst ` set xs"
  then have "\<forall>x \<in> set xs. fst x \<noteq> k" by auto
  then show ?thesis by (simp add: lru_touch_def)
qed

lemma fitting_all: "total sz xs \<le> c \<Longrightarrow> fitting sz c xs = xs"
proof (induction sz c xs rule: fitting.induct)
  case (2 sz c k v xs)
  then show ?case using total_nonneg [of sz xs] by auto
qed simp

lemma fitting_snoc: "c < total sz (xs @ [x]) \<Longrightarrow> fitting sz c (xs @ [x]) = fitting sz c xs"
proof (induction sz c xs rule: fitting.induct)
  case (1 sz c)
  then show ?case by (cases x) auto
qed auto

lemma total_fitting: "0 \<le> c \<Longrightarrow> total sz (fitting sz c xs) \<le> c"
  by (induction sz c xs rule: fitting.induct) auto

lemma fitting_prefix: "prefix (fitting sz c xs) xs"
  by (induction sz c xs rule: fitting.induct) auto

text \<open>The front part kept is the longest one that fits.\<close>

lemma fitting_longest: "prefix ys xs \<Longrightarrow> total sz ys \<le> c \<Longrightarrow> prefix ys (fitting sz c xs)"
proof (induction sz c xs arbitrary: ys rule: fitting.induct)
  case (2 sz c k v xs)
  show ?case
  proof (cases ys)
    case (Cons y zs)
    with "2.prems" have "y = (k, v)" "prefix zs xs" by auto
    with Cons "2.prems" "2.IH" [of zs] total_nonneg [of sz zs] show ?thesis by auto
  qed simp
qed simp

section \<open>What a client of a cache relies on\<close>

text \<open>A cache maps a key to an address, and two keys may share one; \<open>valid\<close> are the keys whose
  addresses nothing else uses.  A fetch may fail to find what is there, a store may lose other
  entries or its own, but a value found is one that was stored under the same address.\<close>

locale caching =
  fixes lookup :: "'c \<Rightarrow> 'k \<rightharpoonup> 'v"
    and fetch :: "'k \<Rightarrow> 'c \<Rightarrow> 'v option \<times> 'c"
    and store :: "'k \<Rightarrow> 'v \<Rightarrow> 'c \<Rightarrow> 'c"
    and inv :: "'c \<Rightarrow> bool"
    and addr :: "'k \<Rightarrow> 'a"
    and valid :: "'k \<Rightarrow> bool"
  assumes fetch_result: "inv c \<Longrightarrow> valid k \<Longrightarrow> fst (fetch k c) = Some v \<Longrightarrow> lookup c k = Some v"
    and lookup_fetch: "inv c \<Longrightarrow> lookup (snd (fetch k c)) = lookup c"
    and inv_fetch: "inv c \<Longrightarrow> inv (snd (fetch k c))"
    and lookup_store: "inv c \<Longrightarrow> valid k' \<Longrightarrow> lookup (store k v c) k' = Some v' \<Longrightarrow>
      lookup c k' = Some v' \<or> addr k' = addr k \<and> v' = v"
    and inv_store: "inv c \<Longrightarrow> inv (store k v c)"
begin

text \<open>Every cached value satisfies a predicate of its key, one that does not tell apart keys of
  the same address.\<close>

definition coherent :: "('k \<Rightarrow> 'v \<Rightarrow> bool) \<Rightarrow> 'c \<Rightarrow> bool" where
  "coherent P c \<longleftrightarrow> (\<forall>k v. valid k \<longrightarrow> lookup c k = Some v \<longrightarrow> P k v)"

definition addr_only :: "('k \<Rightarrow> 'v \<Rightarrow> bool) \<Rightarrow> bool" where
  "addr_only P \<longleftrightarrow> (\<forall>k k' v. valid k' \<longrightarrow> addr k' = addr k \<longrightarrow> P k v \<longrightarrow> P k' v)"

lemma coherentD: "coherent P c \<Longrightarrow> valid k \<Longrightarrow> lookup c k = Some v \<Longrightarrow> P k v"
  by (simp add: coherent_def)

lemma coherent_fetch: "inv c \<Longrightarrow> coherent P c \<Longrightarrow> coherent P (snd (fetch k c))"
  by (simp add: coherent_def lookup_fetch)

lemma coherent_store:
  assumes "inv c" "coherent P c" "addr_only P" "P k v"
  shows "coherent P (store k v c)"
  unfolding coherent_def
proof (intro allI impI)
  fix k' v' assume k': "valid k'" "lookup (store k v c) k' = Some v'"
  from lookup_store [OF assms(1) k'] show "P k' v'"
    using assms k' by (auto simp: coherent_def addr_only_def)
qed

text \<open>Read-through: a hit returns a value that satisfies the predicate, and so does a miss whose
  loaded value does; the cache stays coherent.\<close>

lemma read_hit:
  assumes "inv c" "coherent P c" "valid k" "fetch k c = (Some u, c')"
  shows "P k u" "inv c'" "coherent P c'"
  using assms fetch_result [of c k u] inv_fetch [of c k] coherent_fetch [of c P k] coherentD [of P c k u]
  by simp_all

lemma read_miss:
  assumes "inv c" "coherent P c" "addr_only P" "P k v" "fetch k c = (None, c')"
  shows "inv c'" "coherent P c'" "inv (store k v c')" "coherent P (store k v c')"
proof -
  show c': "inv c'" "coherent P c'"
    using assms inv_fetch [of c k] coherent_fetch [of c P k] by simp_all
  show "inv (store k v c')" "coherent P (store k v c')"
    using c' assms(3,4) by (simp_all add: inv_store coherent_store)
qed

end

end
