(* ===== verification/ChunkCache_Lru.thy ===== *)
theory ChunkCache_Lru
  imports ChunkCache Lru_Spec
begin

text \<open>
  The chunk cache implements the recency list: the representation invariant of map, list and
  byte count, that \<open>get\<close> and \<open>put\<close> keep it and what they do to the abstract list.
\<close>

section \<open>Representation invariant and abstraction\<close>

definition lru_abs :: "chunk_cache \<Rightarrow> (chunk_key \<times> go_slice) list" where
  "lru_abs g = map (\<lambda>(i, e). (le_key e, le_data e)) (cc_lru g)"

definition lru_wf :: "chunk_cache \<Rightarrow> bool" where
  "lru_wf g \<longleftrightarrow> distinct (map fst (cc_lru g)) \<and>
     (\<forall>(i, e) \<in> set (cc_lru g). i < cc_next g \<and> le_elem e = i \<and> cc_items g (le_key e) = Some e) \<and>
     (\<forall>k e. cc_items g k = Some e \<longrightarrow> le_key e = k \<and> (le_elem e, e) \<in> set (cc_lru g)) \<and>
     cc_used g = total slen (lru_abs g)"

definition within_cap :: "chunk_cache \<Rightarrow> bool" where
  "within_cap g \<longleftrightarrow> 0 < cc_cap g \<longrightarrow> cc_used g \<le> cc_cap g"

definition cc_lookup :: "chunk_cache \<Rightarrow> chunk_key \<rightharpoonup> go_slice" where
  "cc_lookup g k = map_option le_data (cc_items g k)"

lemma lru_wfI:
  assumes "distinct (map fst (cc_lru g))"
    and "\<And>i e. (i, e) \<in> set (cc_lru g) \<Longrightarrow> i < cc_next g \<and> le_elem e = i \<and> cc_items g (le_key e) = Some e"
    and "\<And>k e. cc_items g k = Some e \<Longrightarrow> le_key e = k \<and> (le_elem e, e) \<in> set (cc_lru g)"
    and "cc_used g = total slen (lru_abs g)"
  shows "lru_wf g"
  using assms by (auto simp: lru_wf_def)

lemma wf_list: "lru_wf g \<Longrightarrow> (i, e) \<in> set (cc_lru g) \<Longrightarrow>
    i < cc_next g \<and> le_elem e = i \<and> cc_items g (le_key e) = Some e"
  by (fastforce simp: lru_wf_def)

lemma wf_items: "lru_wf g \<Longrightarrow> cc_items g k = Some e \<Longrightarrow> le_key e = k \<and> (le_elem e, e) \<in> set (cc_lru g)"
  by (simp add: lru_wf_def)

lemma keys_lru_abs: "map fst (lru_abs g) = map (\<lambda>(i, e). le_key e) (cc_lru g)"
  by (auto simp: lru_abs_def)

lemma distinct_lru_keys:
  assumes "lru_wf g"
  shows "distinct (map fst (lru_abs g))"
proof -
  have "inj_on (\<lambda>(i, e). le_key e) (set (cc_lru g))"
  proof (rule inj_onI, clarify)
    fix i e j f assume "(i, e) \<in> set (cc_lru g)" "(j, f) \<in> set (cc_lru g)" "le_key e = le_key f"
    with wf_list [OF assms this(1)] wf_list [OF assms this(2)] show "i = j \<and> e = f"
      by (metis option.inject)
  qed
  moreover have "distinct (cc_lru g)"
    using assms by (simp add: lru_wf_def distinct_map)
  ultimately show ?thesis by (simp add: keys_lru_abs distinct_map)
qed

lemma cc_lookup_abs:
  assumes "lru_wf g"
  shows "cc_lookup g = map_of (lru_abs g)"
proof
  fix k
  show "cc_lookup g k = map_of (lru_abs g) k"
  proof (cases "cc_items g k")
    case None
    then have "k \<notin> fst ` set (lru_abs g)"
      using wf_list [OF assms] by (force simp: lru_abs_def)
    then have "map_of (lru_abs g) k = None"
      by (simp only: map_of_eq_None_iff not_False_eq_True)
    with None show ?thesis by (simp add: cc_lookup_def)
  next
    case (Some e)
    then have "(k, le_data e) \<in> set (lru_abs g)"
      using wf_items [OF assms Some] by (force simp: lru_abs_def)
    with Some show ?thesis
      using distinct_lru_keys [OF assms] by (simp add: cc_lookup_def)
  qed
qed

lemma key_in_abs: "lru_wf g \<Longrightarrow> k \<in> fst ` set (lru_abs g) \<longleftrightarrow> cc_items g k \<noteq> None"
  using cc_lookup_abs [of g] by (metis cc_lookup_def map_of_eq_None_iff map_option_is_None)

section \<open>The operations\<close>

lemma lru_wf_new [simp]: "lru_wf (new_chunk_cache cap cs)"
  and within_cap_new [simp]: "within_cap (new_chunk_cache cap cs)"
  and lru_abs_new [simp]: "lru_abs (new_chunk_cache cap cs) = []"
  by (simp_all add: lru_wf_def within_cap_def lru_abs_def new_chunk_cache_def Let_def)

lemma move_to_front_touch:
  assumes "lru_wf g" "cc_items g key = Some x"
  shows "map (\<lambda>(i, e). (le_key e, le_data e)) (move_to_front (le_elem x) (cc_lru g)) = lru_touch key (lru_abs g)"
proof -
  have "fst y = le_elem x \<longleftrightarrow> le_key (snd y) = key" if "y \<in> set (cc_lru g)" for y
  proof -
    obtain i e where y: "y = (i, e)" by force
    with that have e: "le_elem e = i" "cc_items g (le_key e) = Some e"
      using wf_list [OF assms(1)] by auto
    have x: "le_key x = key" "(le_elem x, x) \<in> set (cc_lru g)"
      using wf_items [OF assms] by auto
    show ?thesis
    proof
      assume "fst y = le_elem x"
      then have "e = x"
        using that x(2) assms(1) y by (auto simp: lru_wf_def dest: eq_key_imp_eq_value)
      with x y show "le_key (snd y) = key" by simp
    next
      assume "le_key (snd y) = key"
      with e assms(2) y show "fst y = le_elem x" by simp
    qed
  qed
  then have "filter (\<lambda>y. fst y = le_elem x) (cc_lru g) = filter (\<lambda>y. le_key (snd y) = key) (cc_lru g)"
    "filter (\<lambda>y. fst y \<noteq> le_elem x) (cc_lru g) = filter (\<lambda>y. le_key (snd y) \<noteq> key) (cc_lru g)"
    by (auto intro!: filter_cong)
  then show ?thesis
    by (simp add: move_to_front_def lru_touch_def lru_abs_def filter_map comp_def case_prod_beta)
qed

lemma mset_move_to_front [simp]: "mset (move_to_front i xs) = mset xs"
  by (simp add: move_to_front_def)

lemma set_move_to_front [simp]: "set (move_to_front i xs) = set xs"
  by (metis mset_move_to_front set_mset_mset)

lemma distinct_move_to_front [simp]: "distinct (map fst (move_to_front i xs)) = distinct (map fst xs)"
  by (metis mset_move_to_front mset_map mset_eq_imp_distinct_iff)

definition touch_entry :: "lru_entry \<Rightarrow> chunk_cache \<Rightarrow> chunk_cache" where
  "touch_entry x g = g\<lparr>cc_lru := move_to_front (le_elem x) (cc_lru g)\<rparr>"

lemma touch_entry_refines:
  assumes "lru_wf g" "cc_items g key = Some x"
  shows "lru_abs (touch_entry x g) = lru_touch key (lru_abs g)" "lru_wf (touch_entry x g)"
proof -
  show abs: "lru_abs (touch_entry x g) = lru_touch key (lru_abs g)"
    using move_to_front_touch [OF assms] by (simp add: lru_abs_def touch_entry_def)
  show "lru_wf (touch_entry x g)"
    using assms(1) unfolding lru_wf_def abs by (simp add: touch_entry_def)
qed

lemma push_entry_refines:
  assumes "lru_wf g" "cc_items g key = None"
  shows "lru_abs (push_entry key d g) = (key, d) # lru_abs g" "lru_wf (push_entry key d g)"
proof -
  show abs: "lru_abs (push_entry key d g) = (key, d) # lru_abs g"
    by (simp add: lru_abs_def push_entry_def Let_def)
  have "fst ` set (cc_lru g) \<subseteq> {..<cc_next g}" "\<forall>(i, e) \<in> set (cc_lru g). le_key e \<noteq> key"
    using wf_list [OF assms(1)] assms(2) by force+
  then show "lru_wf (push_entry key d g)"
    using assms(1) unfolding lru_wf_def abs
    by (auto simp: push_entry_def Let_def less_Suc_eq split: if_splits)
qed

lemma drop_last_refines:
  assumes "lru_wf g" "cc_lru g = xs @ [(i, oe)]"
    and g': "g' = g\<lparr>cc_lru := xs, cc_items := (cc_items g)(le_key oe := None),
      cc_used := cc_used g - int (slen (le_data oe))\<rparr>"
  shows "lru_wf g'" "lru_abs g = lru_abs g' @ [(le_key oe, le_data oe)]"
proof -
  show abs: "lru_abs g = lru_abs g' @ [(le_key oe, le_data oe)]"
    by (simp add: lru_abs_def assms(2) g')
  have keys: "le_key e \<noteq> le_key oe" if "(j, e) \<in> set xs" for j e
    using distinct_lru_keys [OF assms(1)] that by (force simp: keys_lru_abs assms(2))
  have list: "j < cc_next g' \<and> le_elem e = j \<and> cc_items g' (le_key e) = Some e"
    if "(j, e) \<in> set xs" for j e
    using wf_list [OF assms(1), of j e] keys [OF that] that by (simp add: g' assms(2))
  have items: "le_key e = k \<and> (le_elem e, e) \<in> set xs" if "cc_items g' k = Some e" for k e
  proof -
    from that have "k \<noteq> le_key oe" "cc_items g k = Some e"
      by (auto simp: g' split: if_splits)
    with wf_items [OF assms(1) this(2)] show ?thesis by (auto simp: assms(2))
  qed
  have "distinct (map fst xs)" "cc_used g = total slen (lru_abs g)"
    using assms(1) by (simp_all add: lru_wf_def assms(2))
  then have "distinct (map fst (cc_lru g'))" "cc_used g' = total slen (lru_abs g')"
    unfolding abs by (simp_all add: g')
  moreover have "cc_lru g' = xs" by (simp add: g')
  ultimately show "lru_wf g'"
    using list items by (intro lru_wfI) simp_all
qed

lemma evict_loop_refines:
  assumes "lru_wf g" "0 \<le> cc_cap g"
  shows "lru_wf (evict_loop g) \<and> lru_abs (evict_loop g) = fitting slen (cc_cap g) (lru_abs g) \<and>
    cc_cap (evict_loop g) = cc_cap g \<and> cc_chunk_size (evict_loop g) = cc_chunk_size g"
  using assms
proof (induction g rule: evict_loop.induct)
  case (1 g)
  have used: "cc_used g = total slen (lru_abs g)"
    using "1.prems"(1) by (simp add: lru_wf_def)
  consider "cc_used g \<le> cc_cap g" | xs i oe where "cc_cap g < cc_used g" "cc_lru g = xs @ [(i, oe)]"
    using "1.prems" used by (cases "cc_lru g" rule: rev_cases) (force simp: lru_abs_def)+
  then show ?case
  proof cases
    case 1
    then show ?thesis
      using "1.prems"(1) used by (simp add: evict_loop.simps [of g] fitting_all)
  next
    case 2
    define g' where "g' = g\<lparr>cc_lru := xs, cc_items := (cc_items g)(le_key oe := None),
      cc_used := cc_used g - int (slen (le_data oe))\<rparr>"
    have ev: "evict_loop g = evict_loop g'"
      using 2 by (simp add: evict_loop.simps [of g] g'_def)
    note d = drop_last_refines [OF "1.prems"(1) 2(2) g'_def]
    have "fitting slen (cc_cap g) (lru_abs g) = fitting slen (cc_cap g) (lru_abs g')"
      using 2(1) used unfolding d(2) by (intro fitting_snoc) simp
    moreover have "cc_cap g' = cc_cap g" "cc_chunk_size g' = cc_chunk_size g"
      by (simp_all add: g'_def)
    ultimately show ?thesis
      using "1.IH" [OF 2(1)] d(1) "1.prems"(2) 2(2) by (simp add: ev g'_def [symmetric])
  qed
qed


lemma cc_get_refines:
  assumes "lru_wf g"
  shows "fst (cc_get k g) = map_of (lru_abs g) k" "lru_wf (snd (cc_get k g))"
    "lru_abs (snd (cc_get k g)) = lru_touch k (lru_abs g)"
proof -
  show "fst (cc_get k g) = map_of (lru_abs g) k"
    using cc_lookup_abs [OF assms, symmetric] by (simp add: cc_get_def cc_lookup_def split: option.splits)
  show "lru_wf (snd (cc_get k g))" "lru_abs (snd (cc_get k g)) = lru_touch k (lru_abs g)"
    using assms touch_entry_refines [OF assms, of k] key_in_abs [OF assms, of k]
    by (auto simp: cc_get_def touch_entry_def split: option.splits)
qed

lemma cc_put_refines:
  assumes "lru_wf g"
  shows "lru_wf (cc_put k d g)" "lru_abs (cc_put k d g) = lru_insert slen (cc_cap g) k d (lru_abs g)"
proof -
  have "lru_wf (cc_put k d g) \<and> lru_abs (cc_put k d g) = lru_insert slen (cc_cap g) k d (lru_abs g)"
  proof (cases "cc_items g k")
    case None
    then have new: "k \<notin> fst ` set (lru_abs g)"
      using key_in_abs [OF assms] by simp
    have cap: "cc_cap (push_entry k d g) = cc_cap g"
      by (simp add: push_entry_def Let_def)
    note push = push_entry_refines [OF assms None, of d]
    show ?thesis
    proof (cases "cc_cap g \<le> 0")
      case True
      with None new push cap show ?thesis by (simp add: cc_put_def Let_def lru_insert_def)
    next
      case False
      with None new push cap evict_loop_refines [OF push(2)] show ?thesis
        by (simp add: cc_put_def Let_def lru_insert_def)
    qed
  next
    case (Some e)
    then have "k \<in> fst ` set (lru_abs g)"
      using key_in_abs [OF assms] by simp
    with Some touch_entry_refines [OF assms Some] show ?thesis
      by (simp add: cc_put_def touch_entry_def lru_insert_def)
  qed
  then show "lru_wf (cc_put k d g)" "lru_abs (cc_put k d g) = lru_insert slen (cc_cap g) k d (lru_abs g)"
    by blast+
qed

lemma cap_cc_get [simp]: "cc_cap (snd (cc_get k g)) = cc_cap g"
  and chunk_size_cc_get [simp]: "cc_chunk_size (snd (cc_get k g)) = cc_chunk_size g"
  and used_cc_get [simp]: "cc_used (snd (cc_get k g)) = cc_used g"
  by (simp_all add: cc_get_def split: option.splits)

lemma cap_evict [simp]: "cc_cap (evict_loop g) = cc_cap g"
  and chunk_size_evict [simp]: "cc_chunk_size (evict_loop g) = cc_chunk_size g"
  by (induction g rule: evict_loop.induct; subst evict_loop.simps; simp add: Let_def)+

lemma cap_cc_put [simp]: "cc_cap (cc_put k d g) = cc_cap g"
  and chunk_size_cc_put [simp]: "cc_chunk_size (cc_put k d g) = cc_chunk_size g"
  by (simp_all add: cc_put_def push_entry_def Let_def split: option.splits)

lemma lru_insert_within:
  assumes "0 < cap" "total sz xs \<le> cap"
  shows "total sz (lru_insert sz cap k v xs) \<le> cap"
  using assms total_fitting [of cap sz "(k, v) # xs"] by (auto simp: lru_insert_def)

lemma within_cap_put:
  assumes "lru_wf g" "within_cap g"
  shows "within_cap (cc_put k d g)"
  using assms cc_put_refines [OF assms(1), of k d] lru_insert_within [of "cc_cap g" slen "lru_abs g" k d]
  by (auto simp: within_cap_def lru_wf_def [of g] lru_wf_def [of "cc_put k d g"])

lemma set_lru_insert: "set (lru_insert sz cap k v xs) \<subseteq> insert (k, v) (set xs)"
  using fitting_prefix [of sz cap "(k, v) # xs"]
  by (auto simp: lru_insert_def dest: set_mono_prefix split: if_splits)

section \<open>The cache as a provider\<close>

interpretation chunk: caching cc_lookup cc_get cc_put lru_wf "\<lambda>k. k" "\<lambda>_. True"
proof
  fix g k k' v v'
  assume wf: "lru_wf g"
  show "cc_lookup (snd (cc_get k g)) = cc_lookup g"
    by (auto simp: cc_lookup_def cc_get_def fun_eq_iff split: option.splits)
  show "lru_wf (snd (cc_get k g))" "lru_wf (cc_put k v g)"
    using wf by (rule cc_get_refines cc_put_refines)+
  show "fst (cc_get k g) = Some v \<Longrightarrow> cc_lookup g k = Some v"
    using cc_get_refines(1) [OF wf] by (simp add: cc_lookup_abs [OF wf])
  assume l: "cc_lookup (cc_put k v g) k' = Some v'"
  then have "(k', v') \<in> set (lru_insert slen (cc_cap g) k v (lru_abs g))"
    using cc_put_refines [OF wf, of k v] by (simp add: cc_lookup_abs map_of_SomeD)
  then have "(k', v') \<in> set (lru_abs g) \<or> k' = k \<and> v' = v"
    using set_lru_insert [of slen "cc_cap g" k v "lru_abs g"] by auto
  then show "cc_lookup g k' = Some v' \<or> k' = k \<and> v' = v"
    using distinct_lru_keys [OF wf] by (auto simp: cc_lookup_abs [OF wf])
qed

lemma chunk_addr_only [simp]: "chunk.addr_only P"
  by (simp add: chunk.addr_only_def)

end
