(* ===== verification/ChunkCache_Read.thy ===== *)
theory ChunkCache_Read
  imports ChunkCache_Lru
begin

text \<open>
  Reads through the chunk cache, against the bytes of the layer blobs: the invariant that every
  cached chunk is a window of its blob, the documented behaviour of the underlying reader, and
  what \<open>fetchChunk\<close> and the loop of \<open>ReadAt\<close> do under them.
\<close>

section \<open>Chunks of a blob\<close>

definition chunk_at :: "int \<Rightarrow> bytes \<Rightarrow> int \<Rightarrow> bytes" where
  "chunk_at cs blob idx = take (nat cs) (drop (nat (idx * cs)) blob)"

definition good_chunk :: "int \<Rightarrow> (hash \<Rightarrow> bytes) \<Rightarrow> chunk_key \<Rightarrow> go_slice \<Rightarrow> bool" where
  "good_chunk cs blobs k s \<longleftrightarrow>
     backing s = chunk_at cs (blobs (ck_layer k)) (ck_idx k) \<and> slen s = length (backing s)"

definition cache_ok :: "(hash \<Rightarrow> bytes) \<Rightarrow> chunk_cache \<Rightarrow> bool" where
  "cache_ok blobs g \<longleftrightarrow> lru_wf g \<and> within_cap g \<and> 0 < cc_chunk_size g \<and>
     chunk.coherent (good_chunk (cc_chunk_size g) blobs) g"

lemma cache_ok_new [simp]: "cache_ok blobs (new_chunk_cache cap cs)"
  by (simp add: cache_ok_def chunk.coherent_def)
    (simp add: new_chunk_cache_def Let_def cc_lookup_def)

lemma cache_okD: "cache_ok blobs g \<Longrightarrow> lru_wf g" "cache_ok blobs g \<Longrightarrow> 0 < cc_chunk_size g"
  "cache_ok blobs g \<Longrightarrow> within_cap g"
  by (simp_all add: cache_ok_def)

lemma cache_ok_get:
  assumes "cache_ok blobs g" "cc_get k g = (r, g')"
  shows "cache_ok blobs g'" "r = cc_lookup g k" "cc_chunk_size g' = cc_chunk_size g"
    "cc_cap g' = cc_cap g" "cc_lookup g' = cc_lookup g"
    "r = Some s \<Longrightarrow> good_chunk (cc_chunk_size g) blobs k s"
proof -
  have g': "g' = snd (cc_get k g)" and r: "r = fst (cc_get k g)"
    using assms(2) by simp_all
  have wf: "lru_wf g" and coh: "chunk.coherent (good_chunk (cc_chunk_size g) blobs) g"
    using assms(1) by (simp_all add: cache_ok_def)
  show "r = cc_lookup g k" "cc_lookup g' = cc_lookup g"
    using cc_get_refines(1) [OF wf] chunk.lookup_fetch [OF wf] by (simp_all add: r g' cc_lookup_abs [OF wf])
  show sz: "cc_chunk_size g' = cc_chunk_size g" "cc_cap g' = cc_cap g"
    by (simp_all add: g')
  show "cache_ok blobs g'"
    using assms(1) chunk.inv_fetch [OF wf] chunk.coherent_fetch [OF wf coh]
    by (simp add: cache_ok_def within_cap_def g')
  show "good_chunk (cc_chunk_size g) blobs k s" if "r = Some s"
    using chunk.read_hit(1) [OF wf coh _ assms(2) [unfolded that]] by simp
qed

lemma cache_ok_put:
  assumes "cache_ok blobs g" "good_chunk (cc_chunk_size g) blobs k s"
  shows "cache_ok blobs (cc_put k s g)"
  using assms within_cap_put chunk.inv_store chunk.coherent_store
  by (simp add: cache_ok_def)

section \<open>The underlying reader\<close>

text \<open>The contract of \<open>io.ReaderAt\<close> on a source with the bytes of the blob, for requests that
  lie inside it: the buffer keeps its length, and unless the call fails with an error other than
  \<open>EOF\<close> the requested bytes are there and counted.  The world may change in any way.\<close>

definition honest :: "'w reader_at \<Rightarrow> bytes \<Rightarrow> bool" where
  "honest rd blob \<longleftrightarrow> (\<forall>off n w. 0 \<le> off \<longrightarrow> nat off + n \<le> length blob \<longrightarrow>
     (case rd off n w of ((buf, k, err), w') \<Rightarrow>
        length buf = n \<and> k \<le> n \<and>
        (err = None \<or> err = Some EOF \<longrightarrow> k = n \<and> buf = take n (drop (nat off) blob))))"

lemma honestD:
  assumes "honest rd blob" "0 \<le> off" "nat off + n \<le> length blob" "rd off n w = ((buf, k, err), w')"
  shows "length buf = n" "k \<le> n" "err = None \<or> err = Some EOF \<Longrightarrow> k = n \<and> buf = take n (drop (nat off) blob)"
proof -
  have "length buf = n \<and> k \<le> n \<and> (err = None \<or> err = Some EOF \<longrightarrow> k = n \<and> buf = take n (drop (nat off) blob))"
    using assms(1) [unfolded honest_def, rule_format, OF assms(2,3), of w] by (simp add: assms(4))
  then show "length buf = n" "k \<le> n"
    "err = None \<or> err = Some EOF \<Longrightarrow> k = n \<and> buf = take n (drop (nat off) blob)"
    by simp_all
qed

text \<open>A reader over bytes in memory, as \<open>bytes.Reader\<close> behaves, that counts its calls.\<close>

definition bytes_reader :: "bytes \<Rightarrow> nat reader_at" where
  "bytes_reader blob off n w =
     (let got = take n (drop (nat off) blob)
      in ((got @ replicate (n - length got) (CHR 0x00), length got,
           if length got < n then Some EOF else None), Suc w))"

lemma honest_bytes_reader: "honest (bytes_reader blob) blob"
  by (auto simp: honest_def bytes_reader_def Let_def)

definition view_ok :: "(hash \<Rightarrow> bytes) \<Rightarrow> 'w layer_view \<Rightarrow> bool" where
  "view_ok blobs v \<longleftrightarrow> honest (lv_under v) (blobs (lv_layer v)) \<and>
     lv_size v = int (length (blobs (lv_layer v)))"

section \<open>\<open>fetchChunk\<close>\<close>

definition chunk_stop :: "int \<Rightarrow> bytes \<Rightarrow> int \<Rightarrow> int" where
  "chunk_stop cs blob idx = min (idx * cs + cs) (int (length blob))"

lemma chunk_at_read:
  assumes "0 \<le> idx" "0 < cs" "idx * cs < int (length blob)"
  shows "take (nat (chunk_stop cs blob idx - idx * cs)) (drop (nat (idx * cs)) blob) = chunk_at cs blob idx"
    "int (length (chunk_at cs blob idx)) = chunk_stop cs blob idx - idx * cs"
proof -
  obtain x where x: "idx * cs = int x"
    using assms by (metis nonneg_int_cases mult_nonneg_nonneg less_imp_le)
  with assms have x_le: "x < length blob" by simp
  show "int (length (chunk_at cs blob idx)) = chunk_stop cs blob idx - idx * cs"
    using assms(2) x_le by (simp add: chunk_at_def chunk_stop_def x)
  then have "nat (chunk_stop cs blob idx - idx * cs) = min (nat cs) (length blob - x)"
    using assms(2) x_le by (simp add: chunk_at_def x)
  then show "take (nat (chunk_stop cs blob idx - idx * cs)) (drop (nat (idx * cs)) blob) = chunk_at cs blob idx"
    by (simp add: chunk_at_def x take_all_iff min_def)
qed

lemma fetch_chunk_ok:
  assumes ok: "cache_ok blobs g" and v: "view_ok blobs v"
    and blob: "blob = blobs (lv_layer v)" and cs: "cs = cc_chunk_size g"
    and idx: "0 \<le> idx" "idx * cs < int (length blob)"
  obtains (fetched) w' g' where
      "fetch_chunk v idx (idx * cs) (chunk_stop cs blob idx) g w =
         (Inr \<lparr>backing = chunk_at cs blob idx, slen = length (chunk_at cs blob idx)\<rparr>, g', w')"
      "cache_ok blobs g'" "cc_chunk_size g' = cs" "cc_cap g' = cc_cap g"
  | (failed) w' g' e where
      "fetch_chunk v idx (idx * cs) (chunk_stop cs blob idx) g w = (Inl (Fail (IOError e)), g', w')"
      "cache_ok blobs g'" "cc_chunk_size g' = cs" "cc_cap g' = cc_cap g"
proof -
  let ?key = "\<lparr>ck_layer = lv_layer v, ck_idx = idx\<rparr>"
  obtain r g1 where get: "cc_get ?key g = (r, g1)" by force
  note g1 = cache_ok_get [OF ok get]
  have cs0: "0 < cs" using ok by (simp add: cs cache_ok_def)
  have start: "0 \<le> idx * cs" "idx * cs \<le> chunk_stop cs blob idx"
    using idx cs0 by (auto simp: chunk_stop_def)
  show thesis
  proof (cases r)
    case (Some s)
    then have "s = \<lparr>backing = chunk_at cs blob idx, slen = length (chunk_at cs blob idx)\<rparr>"
      using g1(6) [of s] by (cases s) (simp add: good_chunk_def cs blob)
    with Some get g1 show thesis
      by (intro fetched [of g1 w]) (simp_all add: fetch_chunk_def cs)
  next
    case None
    let ?n = "nat (chunk_stop cs blob idx - idx * cs)"
    obtain buf k err w1 where rd: "lv_under v (idx * cs) ?n w = ((buf, k, err), w1)"
      by (metis surj_pair)
    have fit: "nat (idx * cs) + ?n \<le> length blob"
      using start idx(2) unfolding chunk_stop_def by linarith
    have "honest (lv_under v) blob" using v by (simp add: view_ok_def blob)
    note h = honestD [OF this start(1) fit rd]
    show thesis
    proof (cases "err = None \<or> err = Some EOF")
      case True
      with h have buf: "k = ?n" "buf = chunk_at cs blob idx"
        using chunk_at_read(1) [OF idx(1) cs0 idx(2)] by simp_all
      then have "k = length (chunk_at cs blob idx)" using h(1) by simp
      with buf have "good_chunk (cc_chunk_size g1) blobs ?key \<lparr>backing = buf, slen = k\<rparr>"
        using g1(3) by (simp add: good_chunk_def cs blob)
      then have "cache_ok blobs (cc_put ?key \<lparr>backing = buf, slen = k\<rparr> g1)"
        using g1(1) by (intro cache_ok_put)
      with True None get rd start buf \<open>k = length _\<close> g1(3,4) h(1) show thesis
        by (intro fetched [of "cc_put ?key \<lparr>backing = buf, slen = k\<rparr> g1" w1])
          (auto simp: fetch_chunk_def Let_def cs)
    next
      case False
      then obtain e where "err = Some (IOError e)"
        by (metis io_error.exhaust option.exhaust)
      with None get rd start g1 show thesis
        by (intro failed [of e g1 w1]) (simp_all add: fetch_chunk_def Let_def cs)
    qed
  qed
qed

section \<open>The loop of \<open>ReadAt\<close>\<close>

text \<open>The window of a chunk that a read at \<open>cur\<close> copies.\<close>

lemma reslice_chunk:
  assumes "0 < cs" "0 \<le> cur" "cur < stop" "stop \<le> int (length blob)"
    and idx: "idx = cur div cs" and ce: "ce = min stop (chunk_stop cs blob idx)"
    and c: "c = chunk_at cs blob idx"
  shows "0 \<le> idx" "idx * cs \<le> cur" "cur < ce" "idx * cs < int (length blob)"
    "reslice \<lparr>backing = c, slen = length c\<rparr> (cur - idx * cs) (ce - idx * cs) =
       Some (take (nat (ce - cur)) (drop (nat cur) blob))"
proof -
  show idx0: "0 \<le> idx" using assms by (simp add: pos_imp_zdiv_nonneg_iff)
  have "cur = idx * cs + cur mod cs" "0 \<le> cur mod cs" "cur mod cs < cs"
    using assms(1) by (simp_all add: idx)
  then have lo: "idx * cs \<le> cur" and hi: "cur < idx * cs + cs" by linarith+
  then show "idx * cs \<le> cur" "cur < ce" "idx * cs < int (length blob)"
    using assms(3,4) by (simp_all add: ce chunk_stop_def)
  obtain x y z where xyz: "idx * cs = int x" "cur = int (x + y)" "ce = int (x + y + z)"
  proof (rule that)
    show "idx * cs = int (nat (idx * cs))"
      using idx0 assms(1) by simp
    show "cur = int (nat (idx * cs) + nat (cur - idx * cs))"
      using idx0 assms(1) lo by simp
    show "ce = int (nat (idx * cs) + nat (cur - idx * cs) + nat (ce - cur))"
      using idx0 assms(1) lo \<open>cur < ce\<close> by simp
  qed
  have ce_le: "int x + int y + int z \<le> int x + cs" "x + y + z \<le> length blob"
    using ce assms(4) xyz by (simp_all add: chunk_stop_def)
  then have "y + z \<le> nat cs" by linarith
  moreover have "length c = min (nat cs) (length blob - x)"
    by (simp add: c chunk_at_def xyz)
  ultimately have len: "y + z \<le> length c" using ce_le by simp
  have "take z (drop y c) = take z (drop (x + y) blob)"
    using \<open>y + z \<le> nat cs\<close> by (simp add: c chunk_at_def xyz drop_take add.commute)
  with len show "reslice \<lparr>backing = c, slen = length c\<rparr> (cur - idx * cs) (ce - idx * cs) =
      Some (take (nat (ce - cur)) (drop (nat cur) blob))"
    by (simp add: reslice_def xyz nat_plus_as_int)
qed

lemma copy_at_fits:
  "k + length src \<le> length dst \<Longrightarrow> copy_at dst k src = (take k dst @ src @ drop (k + length src) dst, length src)"
  by (simp add: copy_at_def Let_def)

text \<open>A partly filled buffer: the first \<open>n\<close> bytes are the blob's from the offset on.\<close>

definition filled :: "bytes \<Rightarrow> int \<Rightarrow> bytes \<Rightarrow> nat \<Rightarrow> bytes" where
  "filled blob off p n = take n (drop (nat off) blob) @ drop n p"

lemma filled_0 [simp]: "filled blob off p 0 = p"
  by (simp add: filled_def)

lemma length_filled: "nat off + n \<le> length blob \<Longrightarrow> n \<le> length p \<Longrightarrow> length (filled blob off p n) = length p"
  by (simp add: filled_def)

lemma copy_filled:
  assumes "0 \<le> off" "nat off + n + k \<le> length blob" "n + k \<le> length p"
  shows "copy_at (filled blob off p n) n (take k (drop (nat off + n) blob)) = (filled blob off p (n + k), k)"
proof -
  have "length (take k (drop (nat off + n) blob)) = k" using assms by simp
  moreover have "take n (filled blob off p n) = take n (drop (nat off) blob)"
    "drop (n + k) (filled blob off p n) = drop (n + k) p"
    using assms by (simp_all add: filled_def add.commute [of k n])
  moreover have "filled blob off p (n + k) =
      take n (drop (nat off) blob) @ take k (drop (nat off + n) blob) @ drop (n + k) p"
    by (simp add: filled_def take_add) (simp add: add.commute)
  ultimately show ?thesis
    using assms length_filled [of off n blob p]
    by (subst copy_at_fits) simp_all
qed

text \<open>One iteration, once the window of the chunk is known.\<close>

lemma read_loop_fail:
  assumes "cur < stop" "cs = cc_chunk_size g" "cs \<noteq> 0" "idx = cur div cs"
    and "wrap64 (idx * cs + cs) = idx * cs + cs" "ce = min (idx * cs + cs) (lv_size v)"
    and "fetch_chunk v idx (idx * cs) ce g w = (Inl f, g1, w1)"
  shows "read_loop v off stop p cur written g w = ((p, written, Some f), g1, w1)"
proof -
  have "(if lv_size v < idx * cs + cs then lv_size v else idx * cs + cs) = ce"
    by (simp add: assms(6))
  with assms(1,3,5,7) show ?thesis
    unfolding read_loop.simps [of v off stop p cur]
    by (simp add: assms(2) [symmetric] assms(4) [symmetric] Let_def split del: if_split cong del: if_weak_cong)
qed

lemma read_loop_copy:
  assumes "cur < stop" "cs = cc_chunk_size g" "cs \<noteq> 0" "idx = cur div cs"
    and "wrap64 (idx * cs + cs) = idx * cs + cs" "ce = min (idx * cs + cs) (lv_size v)"
    and "fetch_chunk v idx (idx * cs) ce g w = (Inr c, g1, w1)"
    and "reslice c (cur - idx * cs) (min stop ce - idx * cs) = Some src"
    and "cur = off + int m" "m \<le> length p" "copy_at p m src = (p1, n)" "n \<noteq> 0"
  shows "read_loop v off stop p cur written g w = read_loop v off stop p1 (cur + int n) (written + n) g1 w1"
proof -
  have "(if lv_size v < idx * cs + cs then lv_size v else idx * cs + cs) = ce"
    by (simp add: assms(6))
  moreover have "(if stop < ce then stop else ce) = min stop ce" by simp
  moreover have "\<not> (cur - off < 0 \<or> int (length p) < cur - off)" "nat (cur - off) = m"
    using assms(9,10) by simp_all
  ultimately show ?thesis
    using assms(1,3,5,7,8,11,12) unfolding read_loop.simps [of v off stop p cur]
    by (simp add: assms(2) [symmetric] assms(4) [symmetric] Let_def split del: if_split cong del: if_weak_cong)
qed

text \<open>Under the invariant an iteration either reports the reader's error or fills the buffer up
  to the end of the chunk or of the request.\<close>

lemma read_loop_iter:
  assumes v: "view_ok blobs v" "blob = blobs (lv_layer v)" and ok: "cache_ok blobs g"
    and cs: "cs = cc_chunk_size g" and cur: "cur = off + int written" "cur < stop"
    and bounds: "0 \<le> off" "stop \<le> int (length blob)" "stop \<le> off + int (length p)"
      "int (length blob) + cs < 2 ^ 63"
    and idx: "idx = cur div cs" and ce: "ce = min stop (chunk_stop cs blob idx)"
  obtains (failed) w' g' e where
      "fetch_chunk v idx (idx * cs) (chunk_stop cs blob idx) g w = (Inl (Fail (IOError e)), g', w')"
      "read_loop v off stop (filled blob off p written) cur written g w =
         ((filled blob off p written, written, Some (Fail (IOError e))), g', w')"
      "cache_ok blobs g'" "cc_chunk_size g' = cs" "cc_cap g' = cc_cap g"
  | (copied) w' g' k c where
      "fetch_chunk v idx (idx * cs) (chunk_stop cs blob idx) g w = (Inr c, g', w')"
      "0 < k" "cur + int k = ce"
      "read_loop v off stop (filled blob off p written) cur written g w =
         read_loop v off stop (filled blob off p (written + k)) (cur + int k) (written + k) g' w'"
      "cache_ok blobs g'" "cc_chunk_size g' = cs" "cc_cap g' = cc_cap g"
proof -
  let ?p = "filled blob off p written"
  have cs0: "0 < cs" "cs \<noteq> 0" using ok cs by (auto simp: cache_ok_def)
  have "0 \<le> cur" using bounds(1) cur by simp
  note rs = reslice_chunk [OF cs0(1) this cur(2) bounds(2) idx ce refl]
  define k where "k = nat (ce - cur)"
  have k: "0 < k" "cur + int k = ce" using rs(3) by (simp_all add: k_def)
  have fits: "nat off + written + k \<le> length blob" "written + k \<le> length p"
    using k bounds cur by (auto simp: ce)
  have wrap: "wrap64 (idx * cs + cs) = idx * cs + cs"
    using rs(1,4) cs0 bounds(4) by (intro wrap64_id) (auto intro: order.trans [of _ 0])
  have ends: "chunk_stop cs blob idx = min (idx * cs + cs) (lv_size v)"
    "min stop (chunk_stop cs blob idx) = ce"
    using v by (simp_all add: view_ok_def chunk_stop_def ce)
  have copied': "copy_at ?p written (take k (drop (nat cur) blob)) = (filled blob off p (written + k), k)"
    using copy_filled [OF bounds(1) fits] bounds(1) cur by (simp add: nat_add_distrib)
  have len: "written \<le> length ?p" using fits length_filled [of off written blob p] by simp
  note iter = cur(2) cs cs0(2) idx wrap ends(1)
  show thesis
  proof (rule fetch_chunk_ok [OF ok v cs rs(1,4), of w])
    fix w' g' e
    assume f: "fetch_chunk v idx (idx * cs) (chunk_stop cs blob idx) g w = (Inl (Fail (IOError e)), g', w')"
      and g': "cache_ok blobs g'" "cc_chunk_size g' = cs" "cc_cap g' = cc_cap g"
    show thesis
      by (rule failed [OF f _ g']) (rule read_loop_fail [OF iter f])
  next
    fix w' g'
    assume f: "fetch_chunk v idx (idx * cs) (chunk_stop cs blob idx) g w =
        (Inr \<lparr>backing = chunk_at cs blob idx, slen = length (chunk_at cs blob idx)\<rparr>, g', w')"
      and g': "cache_ok blobs g'" "cc_chunk_size g' = cs" "cc_cap g' = cc_cap g"
    have "read_loop v off stop ?p cur written g w =
        read_loop v off stop (filled blob off p (written + k)) (cur + int k) (written + k) g' w'"
      using read_loop_copy [OF iter f _ cur(1) len] rs(5) copied' k(1)
      by (simp add: ends(2) k_def [symmetric])
    then show thesis by (rule copied [OF f k _ g'])
  qed
qed

definition read_post ::
  "(hash \<Rightarrow> bytes) \<Rightarrow> chunk_cache \<Rightarrow> bytes \<Rightarrow> int \<Rightarrow> int \<Rightarrow> bytes \<Rightarrow>
   (bytes \<times> nat \<times> fault option) \<times> chunk_cache \<times> 'w \<Rightarrow> bool" where
  "read_post blobs g blob off stop p r \<longleftrightarrow> (case r of ((p1, n, f), g1, w1) \<Rightarrow>
     cache_ok blobs g1 \<and> cc_chunk_size g1 = cc_chunk_size g \<and> cc_cap g1 = cc_cap g \<and>
     p1 = filled blob off p n \<and> off + int n \<le> stop \<and>
     (case f of None \<Rightarrow> off + int n = stop | Some e \<Rightarrow> (\<exists>s. e = Fail (IOError s))))"


lemma read_loop_ok:
  assumes v: "view_ok blobs v" "blob = blobs (lv_layer v)"
    and bounds: "0 \<le> off" "stop \<le> int (length blob)" "stop \<le> off + int (length p)"
      "int (length blob) + cc_chunk_size g < 2 ^ 63"
    and "cache_ok blobs g" "off + int written \<le> stop"
  shows "read_post blobs g blob off stop p
    (read_loop v off stop (filled blob off p written) (off + int written) written g w)"
  using assms(6-)
proof (induction "nat (stop - (off + int written))" arbitrary: written g w rule: less_induct)
  case less
  show ?case
  proof (cases "off + int written < stop")
    case False
    with less.prems show ?thesis by (simp add: read_loop.simps read_post_def)
  next
    case True
    show ?thesis
    proof (rule read_loop_iter [OF v less.prems(2) refl refl True bounds(1-3) less.prems(1) refl refl, of w])
      fix w' g' k c
      assume iter: "0 < k" "off + int written + int k =
          min stop (chunk_stop (cc_chunk_size g) blob ((off + int written) div cc_chunk_size g))"
        and loop: "read_loop v off stop (filled blob off p written) (off + int written) written g w =
          read_loop v off stop (filled blob off p (written + k)) (off + int written + int k) (written + k) g' w'"
        and g': "cache_ok blobs g'" "cc_chunk_size g' = cc_chunk_size g" "cc_cap g' = cc_cap g"
      have "read_post blobs g' blob off stop p
          (read_loop v off stop (filled blob off p (written + k)) (off + int (written + k)) (written + k) g' w')"
        using iter g' True less.prems(1) by (intro less.hyps) auto
      then show ?thesis
        using g' loop by (simp add: read_post_def add.assoc)
    qed (use True in \<open>simp add: read_post_def\<close>)
  qed
qed

text \<open>A whole call of \<open>ReadAt\<close>, from the result of its loop.\<close>

lemma read_at_loop:
  assumes v: "view_ok blobs v" "blob = blobs (lv_layer v)" and ok: "cache_ok blobs g"
    and off: "0 \<le> off" "off < int (length blob)"
    and big: "int (length blob) + cc_chunk_size g < 2 ^ 63" "int (length blob) + int (length p) < 2 ^ 63"
    and stop: "stop = min (int (length blob)) (off + int (length p))"
    and loop: "read_loop v off stop p off 0 g w = ((p1, n, f), g1, w1)"
  shows "cache_ok blobs g1" "cc_chunk_size g1 = cc_chunk_size g" "cc_cap g1 = cc_cap g"
    "p1 = filled blob off p n" "length p1 = length p" "off + int n \<le> stop"
    "f = None \<and> n = min (length p) (length blob - nat off) \<or> (\<exists>s. f = Some (Fail (IOError s)))"
    "read_at v p off g w =
      ((p1, n, if f = None \<and> n < length p then Some (Fail EOF) else f), g1, w1)"
proof -
  have "read_post blobs g blob off stop p (read_loop v off stop p off 0 g w)"
    using read_loop_ok [OF v off(1) _ _ big(1) ok, of stop p 0 w] off stop by simp
  then have post: "cache_ok blobs g1" "cc_chunk_size g1 = cc_chunk_size g" "cc_cap g1 = cc_cap g"
    "p1 = filled blob off p n" "off + int n \<le> stop"
    "case f of None \<Rightarrow> off + int n = stop | Some e \<Rightarrow> (\<exists>s. e = Fail (IOError s))"
    by (simp_all add: read_post_def loop)
  then show "cache_ok blobs g1" "cc_chunk_size g1 = cc_chunk_size g" "cc_cap g1 = cc_cap g"
    "p1 = filled blob off p n" "off + int n \<le> stop" by simp_all
  show len: "length p1 = length p"
    unfolding post(4) using post(5) off stop by (intro length_filled) linarith+
  have "n = min (length p) (length blob - nat off)" if "off + int n = stop"
    using that off unfolding stop by linarith
  then show "f = None \<and> n = min (length p) (length blob - nat off) \<or> (\<exists>s. f = Some (Fail (IOError s)))"
    using post(6) by (auto split: option.splits)
  have sz: "lv_size v = int (length blob)" using v by (simp add: view_ok_def)
  have "wrap64 (off + int (length p)) = off + int (length p)"
    using off big(2) by simp
  then have "(if lv_size v < wrap64 (off + int (length p)) then lv_size v else wrap64 (off + int (length p))) = stop"
    by (simp add: sz stop)
  then show "read_at v p off g w =
      ((p1, n, if f = None \<and> n < length p then Some (Fail EOF) else f), g1, w1)"
    using off sz loop len by (cases f) (simp_all add: read_at_def Let_def cong del: if_weak_cong)
qed

end
