(* ===== verification/ChunkCache_Requests.thy ===== *)
theory ChunkCache_Requests
  imports ChunkCache_Read
begin

text \<open>
  Which requests a read makes: the underlying reader is traced, and an unbounded cache keeps
  every chunk, so the windows asked for are those of the chunks not cached yet.
\<close>

section \<open>Tracing\<close>

definition traced :: "'w reader_at \<Rightarrow> ('w \<times> (int \<times> nat) list) reader_at" where
  "traced rd off n w = (case rd off n (fst w) of (r, w') \<Rightarrow> (r, (w', snd w @ [(off, n)])))"

definition trace_view :: "'w layer_view \<Rightarrow> ('w \<times> (int \<times> nat) list) layer_view" where
  "trace_view v = \<lparr>lv_layer = lv_layer v, lv_under = traced (lv_under v), lv_size = lv_size v\<rparr>"

lemma trace_view_simps [simp]: "lv_layer (trace_view v) = lv_layer v"
  "lv_size (trace_view v) = lv_size v" "lv_under (trace_view v) = traced (lv_under v)"
  by (simp_all add: trace_view_def)

lemma view_ok_trace [simp]: "view_ok blobs v \<Longrightarrow> view_ok blobs (trace_view v)"
  unfolding view_ok_def honest_def by (fastforce simp: traced_def split: prod.splits)

section \<open>One fetch\<close>

abbreviation view_key :: "'w layer_view \<Rightarrow> int \<Rightarrow> chunk_key" where
  "view_key v idx \<equiv> \<lparr>ck_layer = lv_layer v, ck_idx = idx\<rparr>"

definition window :: "int \<Rightarrow> bytes \<Rightarrow> int \<Rightarrow> int \<times> nat" where
  "window cs blob idx = (idx * cs, nat (chunk_stop cs blob idx - idx * cs))"

lemma cc_lookup_put_unbounded:
  assumes "cc_cap g \<le> 0"
  shows "cc_lookup (cc_put k d g) = (if cc_lookup g k = None then (cc_lookup g)(k \<mapsto> d) else cc_lookup g)"
  using assms by (auto simp: cc_put_def push_entry_def cc_lookup_def Let_def fun_eq_iff split: option.splits)

lemma cc_get_lookup: "cc_get k g = (r, g') \<Longrightarrow> r = cc_lookup g k \<and> cc_lookup g' = cc_lookup g"
  by (auto simp: cc_get_def cc_lookup_def fun_eq_iff split: option.splits)

lemma cc_cap_get: "cc_get k g = (r, g') \<Longrightarrow> cc_cap g' = cc_cap g"
  by (auto simp: cc_get_def split: option.splits)

lemma fetch_chunk_trace:
  assumes "fetch_chunk (trace_view v) idx start stop g (w, log) = (Inr c, g', (w', log'))"
  shows "log' = (if cc_lookup g (view_key v idx) = None then log @ [(start, nat (stop - start))] else log)"
  using assms cc_get_lookup [of "view_key v idx" g]
  by (fastforce simp: fetch_chunk_def traced_def Let_def split: prod.splits option.splits if_splits)

lemma fetch_chunk_lookup:
  assumes "fetch_chunk v idx start stop g w = (Inr c, g', w')" "cc_cap g \<le> 0"
  shows "cc_lookup g' = (if cc_lookup g (view_key v idx) = None
    then (cc_lookup g)(view_key v idx \<mapsto> c) else cc_lookup g)"
proof -
  obtain r g1 where get: "cc_get (view_key v idx) g = (r, g1)" by force
  note g1 = cc_get_lookup [OF get] cc_cap_get [OF get]
  show ?thesis
    using assms get g1 cc_lookup_put_unbounded [of g1]
    by (auto simp: fetch_chunk_def Let_def split: prod.splits option.splits if_splits)
qed

section \<open>The requests of a read\<close>

definition missing_chunks :: "'w layer_view \<Rightarrow> chunk_cache \<Rightarrow> int \<Rightarrow> int \<Rightarrow> int list" where
  "missing_chunks v g a b = filter (\<lambda>i. cc_lookup g (view_key v i) = None) [a..b]"

lemma missing_chunks_step:
  assumes "cc_lookup g' = (if cc_lookup g (view_key v a) = None
      then (cc_lookup g)(view_key v a \<mapsto> c) else cc_lookup g)" "a \<le> b"
  shows "missing_chunks v g a b =
    (if cc_lookup g (view_key v a) = None then [a] else []) @ missing_chunks v g' (a + 1) b"
proof -
  have "filter (\<lambda>i. cc_lookup g' (view_key v i) = None) [a + 1..b] =
      filter (\<lambda>i. cc_lookup g (view_key v i) = None) [a + 1..b]"
    by (rule filter_cong) (auto simp: assms(1))
  then show ?thesis using assms(2) by (simp add: missing_chunks_def upto_rec1)
qed

lemma read_loop_requests:
  assumes v: "view_ok blobs v" "blob = blobs (lv_layer v)"
    and bounds: "0 \<le> off" "stop \<le> int (length blob)" "stop \<le> off + int (length p)"
      "int (length blob) + cs < 2 ^ 63"
    and "cs = cc_chunk_size g" "cc_cap g \<le> 0"
    and "cache_ok blobs g" "off + int written < stop"
    and "read_loop (trace_view v) off stop (filled blob off p written) (off + int written) written g (w, log) =
      ((p1, n, None), g1, (w1, log1))"
  shows "log1 = log @ map (window cs blob)
      (missing_chunks v g ((off + int written) div cs) ((stop - 1) div cs)) \<and>
    (\<forall>k. cc_lookup g k \<noteq> None \<longrightarrow> cc_lookup g1 k \<noteq> None) \<and>
    (\<forall>i \<in> {(off + int written) div cs..(stop - 1) div cs}. cc_lookup g1 (view_key v i) \<noteq> None)"
  using assms(7-)
proof (induction "nat (stop - (off + int written))" arbitrary: written g w log rule: less_induct)
  case less
  let ?cur = "off + int written"
  let ?idx = "?cur div cs"
  note ok = less.prems(3) and cur = less.prems(4) and loop = less.prems(5)
  note tv = view_ok_trace [OF v(1)]
  have cs0: "0 < cs" using ok less.prems(1) by (simp add: cache_ok_def)
  have blob: "blob = blobs (lv_layer (trace_view v))" using v(2) by simp
  have le: "?idx \<le> (stop - 1) div cs" using cs0 cur by (intro zdiv_mono1) simp_all
  show ?case
  proof (rule read_loop_iter [OF tv blob ok less.prems(1) refl cur bounds refl refl, of "(w, log)"])
    fix w' g' k c
    assume fetch: "fetch_chunk (trace_view v) ?idx (?idx * cs) (chunk_stop cs blob ?idx) g (w, log) = (Inr c, g', w')"
      and k: "0 < k" "?cur + int k = min stop (chunk_stop cs blob ?idx)"
      and step: "read_loop (trace_view v) off stop (filled blob off p written) ?cur written g (w, log) =
        read_loop (trace_view v) off stop (filled blob off p (written + k)) (?cur + int k) (written + k) g' w'"
      and g': "cache_ok blobs g'" "cc_chunk_size g' = cs" "cc_cap g' = cc_cap g"
    obtain w2 log2 where w': "w' = (w2, log2)" by force
    have log2: "log2 = log @ map (window cs blob) (if cc_lookup g (view_key v ?idx) = None then [?idx] else [])"
      using fetch_chunk_trace [OF fetch [unfolded w']] by (simp add: window_def)
    have look: "cc_lookup g' = (if cc_lookup g (view_key v ?idx) = None
        then (cc_lookup g)(view_key v ?idx \<mapsto> c) else cc_lookup g)"
      using fetch_chunk_lookup [OF fetch less.prems(2)] by simp
    note missing = missing_chunks_step [OF look le]
    have old: "cc_lookup g' x \<noteq> None" if "cc_lookup g x \<noteq> None" for x
      using that look by auto
    have new: "cc_lookup g' (view_key v ?idx) \<noteq> None"
      using look by auto
    let ?cur' = "off + int (written + k)"
    show ?case
    proof (cases "?cur' < stop")
      case True
      then have end_chunk: "?cur' = chunk_stop cs blob ?idx" "?cur' < int (length blob)"
        using k(2) bounds(2) by auto
      then have "?cur' = (?idx + 1) * cs"
        by (simp add: chunk_stop_def min_def distrib_right split: if_splits)
      then have idx': "?cur' div cs = ?idx + 1" using cs0 by simp
      have IH: "log1 = log2 @ map (window cs blob) (missing_chunks v g' (?cur' div cs) ((stop - 1) div cs)) \<and>
          (\<forall>k. cc_lookup g' k \<noteq> None \<longrightarrow> cc_lookup g1 k \<noteq> None) \<and>
          (\<forall>i \<in> {?cur' div cs..(stop - 1) div cs}. cc_lookup g1 (view_key v i) \<noteq> None)"
        using k True loop step g' less.prems(2) w'
        by (intro less.hyps [of "written + k"]) (simp_all add: add.assoc)
      have "cc_lookup g1 (view_key v i) \<noteq> None" if "i \<in> {?idx..(stop - 1) div cs}" for i
        using IH new idx' that by (cases "i = ?idx") auto
      then show ?thesis
        using IH [unfolded idx' log2] old missing by simp
    next
      case False
      then have "?cur' = stop" using k(2) by simp
      then have fin: "log1 = log2" "g1 = g'"
        using loop step w' by (simp_all add: add.assoc read_loop.simps)
      have "stop \<le> chunk_stop cs blob ?idx" using False k(2) by simp
      then have "stop - 1 < (?idx + 1) * cs"
        by (simp add: chunk_stop_def distrib_right)
      moreover have "(stop - 1) div cs * cs \<le> stop - 1"
        using cs0 by (metis add_increasing2 div_mult_mod_eq order_refl pos_mod_sign)
      ultimately have "(stop - 1) div cs * cs < (?idx + 1) * cs" by linarith
      then have "(stop - 1) div cs = ?idx"
        using le cs0 by (simp add: mult_less_cancel_right)
      then show ?thesis
        using missing new old log2 fin by (simp add: missing_chunks_def)
    qed
  qed (use loop in simp)
qed

section \<open>Reads of cached chunks\<close>

lemma cached_fetch:
  assumes "cc_lookup g (view_key v idx) \<noteq> None"
  obtains c g' where "fetch_chunk v idx start stop g w = (Inr c, g', w)" "cc_lookup g' = cc_lookup g"
proof -
  obtain r g' where get: "cc_get (view_key v idx) g = (r, g')" by force
  obtain c where "r = Some c" using cc_get_lookup [OF get] assms by auto
  then show thesis using that [of c g'] get cc_get_lookup [OF get] by (simp add: fetch_chunk_def)
qed

lemma read_loop_cached:
  assumes v: "view_ok blobs v" "blob = blobs (lv_layer v)"
    and bounds: "0 \<le> off" "stop \<le> int (length blob)" "stop \<le> off + int (length p)"
      "int (length blob) + cs < 2 ^ 63"
    and "cs = cc_chunk_size g" "cache_ok blobs g"
    and "\<And>i. off div cs \<le> i \<Longrightarrow> i \<le> (stop - 1) div cs \<Longrightarrow> cc_lookup g (view_key v i) \<noteq> None"
  shows "\<exists>q n g1. read_loop v off stop (filled blob off p written) (off + int written) written g w =
    ((q, n, None), g1, w)"
  using assms(7-)
proof (induction "nat (stop - (off + int written))" arbitrary: written g rule: less_induct)
  case less
  let ?cur = "off + int written"
  show ?case
  proof (cases "?cur < stop")
    case True
    have cs0: "0 < cs" using less.prems by (simp add: cache_ok_def)
    then have "off div cs \<le> ?cur div cs" "?cur div cs \<le> (stop - 1) div cs"
      using True by (simp_all add: zdiv_mono1)
    then have hit: "cc_lookup g (view_key v (?cur div cs)) \<noteq> None"
      using less.prems(3) by blast
    show ?thesis
    proof (rule read_loop_iter [OF v less.prems(2,1) refl True bounds refl refl, of w])
      fix w' g' k c
      assume f: "fetch_chunk v (?cur div cs) (?cur div cs * cs) (chunk_stop cs blob (?cur div cs)) g w = (Inr c, g', w')"
        and k: "0 < k" "?cur + int k = min stop (chunk_stop cs blob (?cur div cs))"
        and step: "read_loop v off stop (filled blob off p written) ?cur written g w =
          read_loop v off stop (filled blob off p (written + k)) (?cur + int k) (written + k) g' w'"
        and g': "cache_ok blobs g'" "cc_chunk_size g' = cs"
      have same: "w' = w" "cc_lookup g' = cc_lookup g"
        using cached_fetch [OF hit, of "?cur div cs * cs" "chunk_stop cs blob (?cur div cs)" w] f by auto
      have "\<exists>q n g1. read_loop v off stop (filled blob off p (written + k)) (off + int (written + k)) (written + k) g' w =
          ((q, n, None), g1, w)"
        using k g' True less.prems(3) same by (intro less.hyps) auto
      then show ?thesis using step same by (simp add: add.assoc)
    next
      fix w' g' e
      assume "fetch_chunk v (?cur div cs) (?cur div cs * cs) (chunk_stop cs blob (?cur div cs)) g w = (Inl (Fail (IOError e)), g', w')"
      then show ?thesis
        using cached_fetch [OF hit, of "?cur div cs * cs" "chunk_stop cs blob (?cur div cs)" w] by auto
    qed
  qed (simp add: read_loop.simps)
qed

end
