(* ===== verification/ChunkCache_Steps.thy ===== *)
theory ChunkCache_Steps
  imports ChunkCache_Requests "HOL-Library.Multiset"
begin

text \<open>
  Concurrent fetches.  The lock is held in \<open>get\<close> and in \<open>put\<close> only, so another goroutine can
  run between the miss of a fetch and its fill.  A state is the cache, the keys whose fetch is
  under way and the world; each step is one locked section or one failed request.
\<close>

section \<open>Operations in a row\<close>

datatype cache_op = CGet chunk_key | CPut chunk_key go_slice

fun run_op :: "cache_op \<Rightarrow> chunk_cache \<Rightarrow> chunk_cache" where
  "run_op (CGet k) g = snd (cc_get k g)"
| "run_op (CPut k d) g = cc_put k d g"

fun lru_op :: "int \<Rightarrow> cache_op \<Rightarrow> (chunk_key \<times> go_slice) list \<Rightarrow> (chunk_key \<times> go_slice) list" where
  "lru_op cap (CGet k) xs = lru_touch k xs"
| "lru_op cap (CPut k d) xs = lru_insert slen cap k d xs"

lemma run_op_refines:
  assumes "lru_wf g"
  shows "lru_wf (run_op op g)" "lru_abs (run_op op g) = lru_op (cc_cap g) op (lru_abs g)"
    "cc_cap (run_op op g) = cc_cap g" "within_cap g \<Longrightarrow> within_cap (run_op op g)"
  using cc_get_refines [OF assms] cc_put_refines [OF assms] within_cap_put [OF assms]
  by (cases op; simp add: within_cap_def)+

lemma run_ops_refine:
  assumes "lru_wf g" "within_cap g"
  shows "lru_wf (fold run_op ops g) \<and> within_cap (fold run_op ops g) \<and>
    cc_cap (fold run_op ops g) = cc_cap g \<and>
    lru_abs (fold run_op ops g) = fold (lru_op (cc_cap g)) ops (lru_abs g)"
  using assms
proof (induction ops arbitrary: g)
  case (Cons op ops)
  then show ?case using run_op_refines [of g op] by simp
qed simp

section \<open>Fetches step by step\<close>

datatype fetch_event =
    Hit chunk_key go_slice
  | Miss chunk_key
  | Fill chunk_key go_slice
  | Abort chunk_key

type_synonym 'w fetch_state = "chunk_cache \<times> chunk_key multiset \<times> 'w"

inductive fetch_step ::
  "(hash \<Rightarrow> 'w layer_view) \<Rightarrow> 'w fetch_state \<Rightarrow> fetch_event \<Rightarrow> 'w fetch_state \<Rightarrow> bool"
  for views where
  hit: "cc_get k g = (Some d, g') \<Longrightarrow> fetch_step views (g, fl, w) (Hit k d) (g', fl, w)"
| miss: "cc_get k g = (None, g') \<Longrightarrow> 0 \<le> ck_idx k \<Longrightarrow>
    ck_idx k * cc_chunk_size g < lv_size (views (ck_layer k)) \<Longrightarrow>
    fetch_step views (g, fl, w) (Miss k) (g', add_mset k fl, w)"
| fill: "start = ck_idx k * cc_chunk_size g \<Longrightarrow>
    stop = min (start + cc_chunk_size g) (lv_size (views (ck_layer k))) \<Longrightarrow>
    lv_under (views (ck_layer k)) start (nat (stop - start)) w = ((buf, n, err), w') \<Longrightarrow>
    err = None \<or> err = Some EOF \<Longrightarrow> d = \<lparr>backing = buf, slen = n\<rparr> \<Longrightarrow>
    fetch_step views (g, add_mset k fl, w) (Fill k d) (cc_put k d g, fl, w')"
| abort: "start = ck_idx k * cc_chunk_size g \<Longrightarrow>
    stop = min (start + cc_chunk_size g) (lv_size (views (ck_layer k))) \<Longrightarrow>
    lv_under (views (ck_layer k)) start (nat (stop - start)) w = ((buf, n, Some (IOError e)), w') \<Longrightarrow>
    fetch_step views (g, add_mset k fl, w) (Abort k) (g, fl, w')"

inductive fetch_trace ::
  "(hash \<Rightarrow> 'w layer_view) \<Rightarrow> 'w fetch_state \<Rightarrow> fetch_event list \<Rightarrow> 'w fetch_state \<Rightarrow> bool"
  for views where
  nil: "fetch_trace views s [] s"
| snoc: "fetch_trace views s es t \<Longrightarrow> fetch_step views t e u \<Longrightarrow> fetch_trace views s (es @ [e]) u"

inductive_cases fetch_stepE: "fetch_step views s e t"
inductive_simps fetch_step_hit: "fetch_step views (g, fl, w) (Hit k d) t"
inductive_simps fetch_step_miss: "fetch_step views (g, fl, w) (Miss k) t"

section \<open>Invariant\<close>

definition views_ok :: "(hash \<Rightarrow> bytes) \<Rightarrow> (hash \<Rightarrow> 'w layer_view) \<Rightarrow> bool" where
  "views_ok blobs views \<longleftrightarrow> (\<forall>l. lv_layer (views l) = l \<and> view_ok blobs (views l))"

fun event_ok :: "int \<Rightarrow> (hash \<Rightarrow> bytes) \<Rightarrow> fetch_event \<Rightarrow> bool" where
  "event_ok cs blobs (Hit k d) \<longleftrightarrow> slice_bytes d = chunk_at cs (blobs (ck_layer k)) (ck_idx k)"
| "event_ok cs blobs (Fill k d) \<longleftrightarrow> slice_bytes d = chunk_at cs (blobs (ck_layer k)) (ck_idx k)"
| "event_ok cs blobs _ \<longleftrightarrow> True"

definition fetch_inv :: "int \<Rightarrow> int \<Rightarrow> (hash \<Rightarrow> bytes) \<Rightarrow> 'w fetch_state \<Rightarrow> bool" where
  "fetch_inv cap cs blobs s \<longleftrightarrow> (case s of (g, fl, w) \<Rightarrow>
     cache_ok blobs g \<and> cc_cap g = cap \<and> cc_chunk_size g = cs \<and>
     (\<forall>k \<in># fl. 0 \<le> ck_idx k \<and> ck_idx k * cs < int (length (blobs (ck_layer k)))))"

lemma good_slice_bytes:
  "good_chunk cs blobs k d \<Longrightarrow> slice_bytes d = chunk_at cs (blobs (ck_layer k)) (ck_idx k)"
  by (simp add: good_chunk_def slice_bytes_def)

lemma filled_good:
  assumes "view_ok blobs v" "lv_layer v = ck_layer k" "0 < cs" "0 \<le> ck_idx k"
    and "ck_idx k * cs < int (length (blobs (ck_layer k)))" "start = ck_idx k * cs"
    and "stop = min (start + cs) (lv_size v)"
    and "lv_under v start (nat (stop - start)) w = ((buf, n, err), w')" "err = None \<or> err = Some EOF"
  shows "good_chunk cs blobs k \<lparr>backing = buf, slen = n\<rparr>"
proof -
  let ?blob = "blobs (ck_layer k)"
  have stop: "stop = chunk_stop cs ?blob (ck_idx k)"
    using assms(1,2,6,7) by (simp add: view_ok_def chunk_stop_def)
  have s0: "0 \<le> start" using assms(3,4,6) by simp
  have fit: "nat start + nat (stop - start) \<le> length ?blob"
    using s0 assms(3,5,6) unfolding stop chunk_stop_def by linarith
  have honest: "honest (lv_under v) ?blob"
    using assms(1,2) by (simp add: view_ok_def)
  note h = honestD [OF honest s0 fit assms(8)]
  have "length buf = nat (stop - start)" "n = nat (stop - start)"
    "buf = take (nat (stop - start)) (drop (nat start) ?blob)"
    using h(1) h(3) [OF assms(9)] by simp_all
  then show ?thesis
    using chunk_at_read [OF assms(4,3,5)] by (simp add: good_chunk_def stop assms(6))
qed

lemma fetch_step_inv:
  assumes "fetch_step views s e t" "views_ok blobs views" "fetch_inv cap cs blobs s"
  shows "fetch_inv cap cs blobs t" "event_ok cs blobs e"
proof -
  have v: "view_ok blobs (views l)" "lv_layer (views l) = l"
    "lv_size (views l) = int (length (blobs l))" for l
    using assms(2) unfolding views_ok_def view_ok_def by metis+
  have "fetch_inv cap cs blobs t \<and> event_ok cs blobs e"
    using assms(1,3)
  proof (cases rule: fetch_step.cases)
    case (hit k g d g' fl w)
    then have ok: "cache_ok blobs g" "cc_chunk_size g = cs" using assms(3) by (simp_all add: fetch_inv_def)
    note g' = cache_ok_get [OF ok(1) hit(4)]
    show ?thesis
      using hit g' ok(2) assms(3) good_slice_bytes [of cs blobs k d] by (simp add: fetch_inv_def)
  next
    case (miss k g g' fl w)
    then have ok: "cache_ok blobs g" "cc_chunk_size g = cs" using assms(3) by (simp_all add: fetch_inv_def)
    note g' = cache_ok_get [OF ok(1) miss(4)]
    show ?thesis
      using miss g' ok(2) assms(3) v(3) by (auto simp: fetch_inv_def)
  next
    case (fill start k g stop w buf n err w' d fl)
    then have ok: "cache_ok blobs g" "cc_chunk_size g = cs" "cc_cap g = cap"
      and k: "0 \<le> ck_idx k" "ck_idx k * cs < int (length (blobs (ck_layer k)))"
      using assms(3) by (simp_all add: fetch_inv_def)
    have "0 < cs" using ok by (auto simp: cache_ok_def)
    then have good: "good_chunk cs blobs k d"
      unfolding fill(8)
      by (rule filled_good [OF v(1) v(2) _ k fill(4,5) [unfolded ok(2)] fill(6,7)])
    then show ?thesis
      using fill ok assms(3) cache_ok_put [of blobs g k d] good_slice_bytes [OF good]
      by (simp add: fetch_inv_def)
  qed (simp add: fetch_inv_def)
  then show "fetch_inv cap cs blobs t" "event_ok cs blobs e" by simp_all
qed

lemma fetch_trace_inv:
  assumes "fetch_trace views s es t" "views_ok blobs views" "fetch_inv cap cs blobs s"
  shows "fetch_inv cap cs blobs t \<and> list_all (event_ok cs blobs) es"
  using assms
proof (induction rule: fetch_trace.induct)
  case (snoc s es t e u)
  then show ?case using fetch_step_inv [OF snoc.hyps(2), of blobs cap cs] by simp
qed simp

section \<open>A whole fetch is one or two steps\<close>

lemma fetch_trace_two:
  "fetch_step views s e t \<Longrightarrow> fetch_step views t e' u \<Longrightarrow> fetch_trace views s [e, e'] u"
  using fetch_trace.snoc [OF fetch_trace.snoc [OF fetch_trace.nil], of views s e t e' u] by simp

lemma fetch_trace_one: "fetch_step views s e t \<Longrightarrow> fetch_trace views s [e] t"
  using fetch_trace.snoc [OF fetch_trace.nil] by fastforce

end
