(* ===== verification/ChunkCache_Props.thy ===== *)
theory ChunkCache_Props
  imports ChunkCache_Steps
begin

text \<open>
  The properties of the chunk cache: it is an LRU list within its capacity, reads through it
  return the blob's bytes and ask only for the chunks they need, and concurrent fetches keep it
  so.  The last one shows what a short read of the underlying reader does.
\<close>

section \<open>The cache is a bounded LRU list\<close>

text \<open>C9. Any sequence of \<open>get\<close> and \<open>put\<close> calls on a new cache leaves the recency list of the
  specification, a lookup finds what that list holds, the byte count is the total size of the
  cached chunks, and it stays within the capacity unless the capacity is not positive (which
  means unbounded).\<close>

theorem chunk_cache_is_lru:
  fixes cap cs :: int
  defines "g0 \<equiv> new_chunk_cache cap cs"
  shows "lru_abs (fold run_op ops g0) = fold (lru_op cap) ops [] \<and>
    fst (cc_get k (fold run_op ops g0)) = map_of (fold (lru_op cap) ops []) k \<and>
    cc_used (fold run_op ops g0) = total slen (fold (lru_op cap) ops []) \<and>
    (cap \<le> 0 \<or> cc_used (fold run_op ops g0) \<le> cap)"
proof -
  have cap: "cc_cap g0 = cap" by (simp add: g0_def new_chunk_cache_def Let_def)
  have r: "lru_wf (fold run_op ops g0)" "within_cap (fold run_op ops g0)"
    "cc_cap (fold run_op ops g0) = cap" "lru_abs (fold run_op ops g0) = fold (lru_op cap) ops []"
    using run_ops_refine [of g0 ops] cap by (simp_all add: g0_def)
  with cc_get_refines(1) [OF r(1), of k] show ?thesis
    by (auto simp: lru_wf_def within_cap_def)
qed

text \<open>A chunk larger than a positive capacity is not kept, and storing it empties the cache:
  the eviction loop removes every older chunk before the new one.\<close>

theorem oversized_chunk_flushes:
  assumes "0 < cap" "cap < int (slen d)" "fst (cc_get k (fold run_op ops (new_chunk_cache cap cs))) = None"
  shows "lru_abs (cc_put k d (fold run_op ops (new_chunk_cache cap cs))) = [] \<and>
    cc_used (cc_put k d (fold run_op ops (new_chunk_cache cap cs))) = 0"
proof -
  let ?g = "fold run_op ops (new_chunk_cache cap cs)"
  have cap: "cc_cap (new_chunk_cache cap cs) = cap" by (simp add: new_chunk_cache_def Let_def)
  have wf: "lru_wf ?g" "cc_cap ?g = cap"
    using run_ops_refine [of "new_chunk_cache cap cs" ops] cap by simp_all
  then have "k \<notin> fst ` set (lru_abs ?g)"
    using assms(3) cc_get_refines(1) [OF wf(1), of k] by (simp add: map_of_eq_None_iff)
  then have "lru_abs (cc_put k d ?g) = []"
    using cc_put_refines(2) [OF wf(1), of k d] wf(2) assms(1,2) by (simp add: lru_insert_def)
  moreover have "lru_wf (cc_put k d ?g)" using cc_put_refines(1) [OF wf(1)] .
  ultimately show ?thesis by (simp add: lru_wf_def)
qed

section \<open>Reads return the blob\<close>

text \<open>C6. A read through the cache, from any cache state that holds windows of the blobs and an
  underlying reader that keeps the contract of \<open>io.ReaderAt\<close>, never panics and either reports
  an error of the underlying reader or fills the buffer with the blob's bytes at that offset as
  far as they go, with \<open>EOF\<close> exactly when they do not fill it.  In every case the bytes counted
  are the blob's, the rest of the buffer is untouched and the cache stays coherent.\<close>

theorem read_at_correct:
  assumes "view_ok blobs v" "blob = blobs (lv_layer v)" "cache_ok blobs g"
    and "0 \<le> off" "off < int (length blob)"
    and "int (length blob) + cc_chunk_size g < 2 ^ 63" "int (length blob) + int (length p) < 2 ^ 63"
    and "read_at v p off g w = ((p1, n, err), g1, w1)"
  shows "cache_ok blobs g1 \<and>
    p1 = take n (drop (nat off) blob) @ drop n p \<and> length p1 = length p \<and>
    (n = min (length p) (length blob - nat off) \<and>
       err = (if nat off + length p \<le> length blob then None else Some (Fail EOF)) \<or>
     (\<exists>s. err = Some (Fail (IOError s))))"
proof -
  obtain q m f g2 w2 where loop: "read_loop v off (min (int (length blob)) (off + int (length p))) p off 0 g w =
      ((q, m, f), g2, w2)" by (metis surj_pair)
  note r = read_at_loop [OF assms(1-7) refl loop]
  have eqs: "p1 = q" "n = m" "g1 = g2" "err = (if f = None \<and> m < length p then Some (Fail EOF) else f)"
    using r(8) assms(8) by simp_all
  have "(min (length p) (length blob - nat off) < length p) = (\<not> nat off + length p \<le> length blob)"
    using assms(4,5) by auto
  with r(1,4,5,7) show ?thesis
    unfolding eqs filled_def by auto
qed

section \<open>Requests\<close>

text \<open>C15. On an unbounded cache a successful read asks the underlying reader for the windows of
  the chunks that its range touches and that are not cached, in order, each once, and for
  nothing else.\<close>

theorem read_at_requests:
  assumes "view_ok blobs v" "blob = blobs (lv_layer v)" "cache_ok blobs g" "cc_cap g \<le> 0"
    and "0 \<le> off" "p \<noteq> []" "off + int (length p) \<le> int (length blob)"
    and "int (length blob) + cc_chunk_size g < 2 ^ 63" "int (length blob) + int (length p) < 2 ^ 63"
    and "read_at (trace_view v) p off g (w, log) = ((p1, n, None), g1, (w1, log1))"
  shows "log1 = log @ map (window (cc_chunk_size g) blob)
    (missing_chunks v g (off div cc_chunk_size g) ((off + int (length p) - 1) div cc_chunk_size g))"
proof -
  let ?stop = "off + int (length p)"
  obtain q m f g2 w2 log2 where loop: "read_loop (trace_view v) off ?stop p off 0 g (w, log) =
      ((q, m, f), g2, (w2, log2))" by (metis surj_pair)
  have off: "off < int (length blob)" using assms(6,7) by (cases p) auto
  have stop: "?stop = min (int (length blob)) ?stop" using assms(7) by simp
  have blob: "blob = blobs (lv_layer (trace_view v))" using assms(2) by simp
  note r = read_at_loop [OF view_ok_trace [OF assms(1)] blob assms(3,5) off assms(8,9) stop loop]
  have fin: "f = None" "log1 = log2"
    using r(8) assms(10) by (auto split: if_splits)
  have "off + int 0 < ?stop" using assms(6) by simp
  from read_loop_requests [OF assms(1,2,5) _ _ assms(8) refl assms(4,3) this, of p w log q m g2 w2 log2]
  show ?thesis using loop fin assms(7) by simp
qed

text \<open>On an unbounded cache, once a range has been read, any read inside it succeeds with
  the blob's bytes without another request: the log and the world of the underlying reader are
  unchanged, whatever state that reader is in by then.\<close>

theorem reread_is_local:
  assumes "view_ok blobs v" "blob = blobs (lv_layer v)" "cache_ok blobs g" "cc_cap g \<le> 0"
    and "0 \<le> off" "p \<noteq> []" "off + int (length p) \<le> int (length blob)"
    and "int (length blob) + cc_chunk_size g < 2 ^ 63" "int (length blob) + int (length p) < 2 ^ 63"
    and "read_at (trace_view v) p off g (w, log) = ((p1, n, None), g1, (w1, log1))"
    and "off \<le> off'" "p' \<noteq> []" "off' + int (length p') \<le> off + int (length p)"
  shows "\<exists>g2. read_at (trace_view v) p' off' g1 (w', log') =
    ((take (length p') (drop (nat off') blob), length p', None), g2, (w', log')) \<and> cache_ok blobs g2"
proof -
  let ?stop = "off + int (length p)" and ?stop' = "off' + int (length p')"
  let ?v = "trace_view v" and ?cs = "cc_chunk_size g"
  have v: "view_ok blobs ?v" "blob = blobs (lv_layer ?v)" using assms(1,2) by simp_all
  obtain q m f g2 w2 log2 where loop: "read_loop ?v off ?stop p off 0 g (w, log) =
      ((q, m, f), g2, (w2, log2))" by (metis surj_pair)
  have off: "off < int (length blob)" "0 \<le> off'" "off' < int (length blob)"
    using assms(5,6,7,11-13) by (cases p; cases p'; auto)+
  have stop: "?stop = min (int (length blob)) ?stop" "?stop' = min (int (length blob)) ?stop'"
    using assms(7,13) by simp_all
  have big': "int (length blob) + int (length p') < 2 ^ 63"
    using assms(9,11,13) by linarith
  note r = read_at_loop [OF v assms(3,5) off(1) assms(8,9) stop(1) loop]
  have fin: "f = None" "g1 = g2"
    using r(8) assms(10) by (auto split: if_splits)
  have "off + int 0 < ?stop" using assms(6) by simp
  from read_loop_requests [OF assms(1,2,5) _ _ assms(8) refl assms(4,3) this, of p w log q m g2 w2 log2]
  have have_all: "cc_lookup g1 (view_key v i) \<noteq> None" if "off div ?cs \<le> i" "i \<le> (?stop - 1) div ?cs" for i
    using loop fin assms(7) that by simp
  have cs0: "0 < ?cs" using assms(3) by (simp add: cache_ok_def)
  have "off div ?cs \<le> off' div ?cs" "(?stop' - 1) div ?cs \<le> (?stop - 1) div ?cs"
    using cs0 assms(11,13) by (simp_all add: zdiv_mono1)
  then have hits: "cc_lookup g1 (view_key ?v i) \<noteq> None"
    if "off' div ?cs \<le> i" "i \<le> (?stop' - 1) div ?cs" for i
    using have_all [OF order_trans order_trans] that by auto
  have g1: "cache_ok blobs g1" "cc_chunk_size g1 = ?cs" using r(1,2) fin by simp_all
  have cached: "\<exists>q n g3. read_loop ?v off' ?stop' (filled blob off' p' m) (off' + int m) m g1 (w', log') =
      ((q, n, None), g3, (w', log'))" for m
    by (rule read_loop_cached [OF v off(2) _ _ _ g1(2) [symmetric] g1(1) hits]) (use assms(7,8,13) in simp_all)
  obtain q' m' g3 where loop': "read_loop ?v off' ?stop' p' off' 0 g1 (w', log') = ((q', m', None), g3, (w', log'))"
    using cached [of 0] by auto
  note r' = read_at_loop [OF v g1(1) off(2,3) _ big' stop(2) loop']
  have "m' = length p'" using r'(7) assms(8) g1(2) stop(2) off(2) by simp
  then show ?thesis
    using r'(1,4,8) assms(8) g1(2) by (simp add: filled_def)
qed

section \<open>Concurrent fetches\<close>

text \<open>C13. Whatever the interleaving of concurrent fetches on a new cache, with underlying
  readers that keep their contract: every chunk that a fetch returns, from the cache or from its
  reader, is the window of the blob it asked for, the cache is a well-formed LRU list whose byte
  count is that of its chunks, and it is within its capacity.\<close>

theorem concurrent_fetches_safe:
  assumes "views_ok blobs views" "g0 = new_chunk_cache cap cs"
    and "fetch_trace views (g0, {#}, w0) events (g, inflight, w)"
  shows "list_all (event_ok (cc_chunk_size g0) blobs) events \<and> lru_wf g \<and>
    cc_used g = total slen (lru_abs g) \<and> (0 < cap \<longrightarrow> cc_used g \<le> cap)"
proof -
  have "fetch_inv cap (cc_chunk_size g0) blobs (g0, {#}, w0)"
    using assms(2) by (simp add: fetch_inv_def) (simp add: new_chunk_cache_def Let_def)
  from fetch_trace_inv [OF assms(3,1) this] show ?thesis
    by (auto simp: fetch_inv_def cache_ok_def within_cap_def lru_wf_def)
qed

text \<open>A call of \<open>fetchChunk\<close> that returns a chunk is a hit step, or a miss step and a fill
  step of the concurrent system, ending in the same cache and world.\<close>

theorem fetch_chunk_is_steps:
  assumes "views (lv_layer v) = v" "0 \<le> idx" "idx * cc_chunk_size g < lv_size v" "0 < cc_chunk_size g"
    and "fetch_chunk v idx (idx * cc_chunk_size g) (min (idx * cc_chunk_size g + cc_chunk_size g) (lv_size v)) g w =
      (Inr c, g', w')"
  shows "fetch_trace views (g, fl, w) [Hit (view_key v idx) c] (g', fl, w') \<or>
    fetch_trace views (g, fl, w) [Miss (view_key v idx), Fill (view_key v idx) c] (g', fl, w')"
proof -
  let ?k = "view_key v idx"
  obtain r g1 where get: "cc_get ?k g = (r, g1)" by force
  show ?thesis
  proof (cases r)
    case (Some d)
    then have "fetch_step views (g, fl, w) (Hit ?k d) (g1, fl, w)"
      using get by (intro fetch_step.hit) simp
    from fetch_trace_one [OF this] show ?thesis
      using assms(5) get Some by (simp add: fetch_chunk_def)
  next
    case None
    let ?start = "idx * cc_chunk_size g"
    let ?stop = "min (?start + cc_chunk_size g) (lv_size v)"
    have sz: "cc_chunk_size g1 = cc_chunk_size g"
      using get chunk_size_cc_get [of ?k g] by simp
    obtain buf n err w1 where rd: "lv_under v ?start (nat (?stop - ?start)) w = ((buf, n, err), w1)"
      by (metis surj_pair)
    have miss: "fetch_step views (g, fl, w) (Miss ?k) (g1, add_mset ?k fl, w)"
      using get None assms(1-3) by (intro fetch_step.miss) simp_all
    have c: "err = None \<or> err = Some EOF" "c = \<lparr>backing = buf, slen = n\<rparr>"
      "g' = cc_put ?k c g1" "w' = w1"
      using assms(3-5) get None rd by (auto simp: fetch_chunk_def Let_def split: if_splits)
    have "fetch_step views (g1, add_mset ?k fl, w) (Fill ?k c) (g', fl, w')"
      unfolding c(3,4) using rd c(1,2) assms(1)
      by (intro fetch_step.fill [where start = ?start and stop = ?stop]) (simp_all add: sz)
    with miss show ?thesis by (simp add: fetch_trace_two)
  qed
qed

section \<open>Short reads\<close>

text \<open>C18. When the underlying reader returns fewer bytes than asked for, with \<open>EOF\<close>, the read
  still reports success: the chunk is cut to the count returned, but slicing it again up to the
  chunk's end extends it over the whole scratch buffer, whose remaining bytes the reader never
  counted.\<close>

theorem short_read_serves_scratch:
  assumes "0 < lv_size v" "lv_size v \<le> cs" "lv_size v + cs < 2 ^ 63" "int (length p) = lv_size v"
    and "lv_under v 0 (length p) w = ((buf, n, Some EOF), w1)" "length buf = length p" "n < length p"
  shows "\<exists>g1. read_at v p 0 (new_chunk_cache cap cs) w = ((buf, length p, None), g1, w1)"
proof -
  let ?g = "new_chunk_cache cap cs" and ?len = "length p"
  have g: "cc_chunk_size ?g = cs" "cc_get k ?g = (None, ?g)" for k
    using assms(1,2) by (simp_all add: new_chunk_cache_def cc_get_def Let_def)
  have cs: "cs \<noteq> 0" "0 = 0 div cs" using assms(1,2) by simp_all
  have stop: "min (0 * cs + cs) (lv_size v) = int ?len" using assms(2,4) by simp
  have nonempty: "p \<noteq> []" using assms(7) by auto
  have wrap: "wrap64 (0 * cs + cs) = 0 * cs + cs"
    using assms(1-3) by (intro wrap64_id) linarith+
  have fetch: "fetch_chunk v 0 (0 * cs) (int ?len) ?g w =
      (Inr \<lparr>backing = buf, slen = n\<rparr>, cc_put (view_key v 0) \<lparr>backing = buf, slen = n\<rparr> ?g, w1)"
    using assms(5-7) by (simp add: fetch_chunk_def g Let_def)
  have slice: "reslice \<lparr>backing = buf, slen = n\<rparr> (0 - 0 * cs) (min (int ?len) (int ?len) - 0 * cs) = Some buf"
    using assms(6) by (simp add: reslice_def)
  have copy: "copy_at p 0 buf = (buf, ?len)"
    using assms(6) by (simp add: copy_at_def)
  have "read_loop v 0 (int ?len) p 0 0 ?g w =
      read_loop v 0 (int ?len) buf (0 + int ?len) (0 + ?len) (cc_put (view_key v 0) \<lparr>backing = buf, slen = n\<rparr> ?g) w1"
    using assms(1,4) g(1) nonempty
    by (intro read_loop_copy [OF _ _ cs wrap stop [symmetric] fetch slice _ _ copy]) simp_all
  also have "\<dots> = ((buf, ?len, None), cc_put (view_key v 0) \<lparr>backing = buf, slen = n\<rparr> ?g, w1)"
    by (simp add: read_loop.simps)
  finally have loop: "read_loop v 0 (int ?len) p 0 0 ?g w =
      ((buf, ?len, None), cc_put (view_key v 0) \<lparr>backing = buf, slen = n\<rparr> ?g, w1)" .
  have "wrap64 (lv_size v) = lv_size v"
    using assms(1-3) by (intro wrap64_id) linarith+
  then show ?thesis
    using assms(1,4,6) loop by (simp add: read_at_def Let_def)
qed

section \<open>Witnesses\<close>

definition demo_hash :: hash where
  "demo_hash = \<lparr>hash_algorithm = ''sha256'', hash_hex = ''ab''\<rparr>"

definition demo_view :: "hash \<Rightarrow> nat layer_view" where
  "demo_view l = for_layer l (bytes_reader ''container bytes'') 15"

abbreviation demo_key :: "int \<Rightarrow> chunk_key" where
  "demo_key i \<equiv> \<lparr>ck_layer = demo_hash, ck_idx = i\<rparr>"

lemma demo_view_ok: "view_ok (\<lambda>_. ''container bytes'') (demo_view l)"
  using honest_bytes_reader by (simp add: view_ok_def demo_view_def for_layer_def)

lemma demo_new: "cc_cap (new_chunk_cache cap 4) = cap" "cc_chunk_size (new_chunk_cache cap 4) = 4"
  by (simp_all add: new_chunk_cache_def Let_def)

text \<open>A call whose evaluated result is a success has the shape the properties ask for.\<close>

lemma evaluated:
  assumes "fst r = (p1, n, None)"
  obtains g1 w1 log1 where "r = ((p1, n, None), g1, (w1, log1))"
  using assms by (cases r) auto

theorem oversized_chunk_flushes_witness:
  "lru_abs (cc_put (demo_key 1) \<lparr>backing = ''abc'', slen = 3\<rparr>
     (fold run_op [CPut (demo_key 0) \<lparr>backing = ''x'', slen = 1\<rparr>] (new_chunk_cache 2 4))) = []"
proof -
  have "fst (cc_get (demo_key 1) (fold run_op [CPut (demo_key 0) \<lparr>backing = ''x'', slen = 1\<rparr>]
      (new_chunk_cache 2 4))) = None" by code_simp
  from oversized_chunk_flushes [OF _ _ this, of "\<lparr>backing = ''abc'', slen = 3\<rparr>"] show ?thesis
    by simp
qed

theorem read_at_correct_witness:
  "fst (fst (read_at (demo_view demo_hash) ''--------'' 10 (new_chunk_cache 8 4) 0)) = ''bytes---''"
proof -
  obtain p1 n err g1 w1 where r: "read_at (demo_view demo_hash) ''--------'' 10 (new_chunk_cache 8 4) 0 =
      ((p1, n, err), g1, w1)" by (metis surj_pair)
  have "snd (snd (fst (read_at (demo_view demo_hash) ''--------'' 10 (new_chunk_cache 8 4) 0))) = Some (Fail EOF)"
    by code_simp
  then have "err = Some (Fail EOF)" by (simp add: r)
  with read_at_correct [OF demo_view_ok refl _ _ _ _ _ r] show ?thesis
    by (simp add: r demo_new)
qed

theorem read_at_requests_witness:
  "snd (snd (snd (read_at (trace_view (demo_view demo_hash)) ''-----'' 5 (new_chunk_cache 0 4) (0, [])))) =
     [(4, 4), (8, 4)]"
proof -
  have "fst (read_at (trace_view (demo_view demo_hash)) ''-----'' 5 (new_chunk_cache 0 4) (0, [])) =
      (''iner '', 5, None)" by code_simp
  then obtain g1 w1 log1 where r: "read_at (trace_view (demo_view demo_hash)) ''-----'' 5
      (new_chunk_cache 0 4) (0, []) = ((''iner '', 5, None), g1, (w1, log1))" by (rule evaluated)
  have "map (window 4 ''container bytes'') (missing_chunks (demo_view demo_hash) (new_chunk_cache 0 4) (5 div 4) (9 div 4)) =
      [(4, 4), (8, 4)]" by code_simp
  then show ?thesis
    using read_at_requests [OF demo_view_ok refl _ _ _ _ _ _ _ r] by (simp add: r demo_new)
qed

theorem reread_is_local_witness:
  "\<exists>g1 g2. fst (snd (read_at (trace_view (demo_view demo_hash)) ''-----'' 5 (new_chunk_cache 0 4) (0, []))) = g1 \<and>
     read_at (trace_view (demo_view demo_hash)) ''--'' 6 g1 (7, []) = ((''ne'', 2, None), g2, (7, []))"
proof -
  have "fst (read_at (trace_view (demo_view demo_hash)) ''-----'' 5 (new_chunk_cache 0 4) (0, [])) =
      (''iner '', 5, None)" by code_simp
  then obtain g1 w1 log1 where r: "read_at (trace_view (demo_view demo_hash)) ''-----'' 5
      (new_chunk_cache 0 4) (0, []) = ((''iner '', 5, None), g1, (w1, log1))" by (rule evaluated)
  then show ?thesis
    using reread_is_local [OF demo_view_ok refl _ _ _ _ _ _ _ r, of 6 "''--''" 7 "[]"] by (auto simp: demo_new numeral_2_eq_2)
qed

theorem concurrent_fetches_safe_witness:
  "\<exists>g. fetch_trace demo_view (new_chunk_cache 8 4, {#}, 0)
     [Miss (demo_key 1), Fill (demo_key 1) \<lparr>backing = ''aine'', slen = 4\<rparr>] (g, {#}, 1) \<and> cc_used g \<le> 8"
proof -
  let ?g = "new_chunk_cache 8 4" and ?d = "\<lparr>backing = ''aine'', slen = 4\<rparr>"
  have get: "cc_get (demo_key 1) ?g = (None, ?g)"
    by (simp add: cc_get_def new_chunk_cache_def Let_def)
  have "fetch_step demo_view (?g, {#}, 0) (Miss (demo_key 1)) (?g, {#demo_key 1#}, 0)"
    using get by (intro fetch_step.miss) (simp_all add: demo_new demo_view_def for_layer_def)
  moreover have "fetch_step demo_view (?g, {#demo_key 1#}, 0) (Fill (demo_key 1) ?d) (cc_put (demo_key 1) ?d ?g, {#}, 1)"
    by (rule fetch_step.fill [where start = 4 and stop = 8 and n = 4 and buf = "''aine''" and err = None])
      (simp_all add: demo_new demo_view_def for_layer_def bytes_reader_def Let_def)
  ultimately have "fetch_trace demo_view (?g, {#}, 0) [Miss (demo_key 1), Fill (demo_key 1) ?d]
      (cc_put (demo_key 1) ?d ?g, {#}, 1)" by (rule fetch_trace_two)
  moreover have "views_ok (\<lambda>_. ''container bytes'') demo_view"
    using demo_view_ok by (simp add: views_ok_def) (simp add: demo_view_def for_layer_def)
  ultimately show ?thesis
    using concurrent_fetches_safe [OF _ refl, of "\<lambda>_. ''container bytes''"] by fastforce
qed

theorem fetch_chunk_is_steps_witness:
  "\<exists>g' w'. fetch_trace demo_view (new_chunk_cache 8 4, {#}, 0)
       [Miss (demo_key 1), Fill (demo_key 1) \<lparr>backing = ''aine'', slen = 4\<rparr>] (g', {#}, w') \<or>
     fetch_trace demo_view (new_chunk_cache 8 4, {#}, 0)
       [Hit (demo_key 1) \<lparr>backing = ''aine'', slen = 4\<rparr>] (g', {#}, w')"
proof -
  let ?v = "demo_view demo_hash" and ?g = "new_chunk_cache 8 4" and ?d = "\<lparr>backing = ''aine'', slen = 4\<rparr>"
  have v: "lv_layer ?v = demo_hash" "lv_size ?v = 15" by (simp_all add: demo_view_def for_layer_def)
  have "fst (fetch_chunk ?v 1 4 8 ?g 0) = Inr ?d" by code_simp
  then obtain g' w' where "fetch_chunk ?v 1 4 8 ?g 0 = (Inr ?d, g', w')"
    by (metis prod.collapse)
  then show ?thesis
    using fetch_chunk_is_steps [of demo_view ?v 1 ?g 0 ?d g' w' "{#}"] by (auto simp: v demo_new)
qed

text \<open>A reader over a blob that was cut off after three bytes.\<close>

theorem short_read_serves_scratch_witness:
  "\<exists>g1. read_at (for_layer demo_hash (bytes_reader ''abc'') 5) ''-----'' 0 (new_chunk_cache 0 8) 0 =
     ((''abc'' @ [CHR 0x00, CHR 0x00], 5, None), g1, 1)"
  using short_read_serves_scratch [of "for_layer demo_hash (bytes_reader ''abc'') 5" 8 "''-----''" 0
      "''abc'' @ [CHR 0x00, CHR 0x00]" 3 1 0]
  by (simp add: for_layer_def bytes_reader_def Let_def numeral_eq_Suc)

end
