(* ===== verification/Os_Disk.thy ===== *)
theory Os_Disk
  imports Go_Path
begin

text \<open>
  The part of Go's \<open>os\<close> and \<open>filepath\<close> packages that the disk cache calls, on a Unix file
  system: regular files with content and modification time, and directories.  Any call may
  fail: \<open>dk_fault\<close> says which error the call with a given number returns, \<open>dk_time\<close> what the
  clock shows at it, \<open>dk_rand\<close> which random name it draws and \<open>dk_short\<close> how many bytes a failing
  write got out; a theorem that holds for every disk holds for every pattern of failures.
\<close>

section \<open>Data\<close>

record os_file =
  f_bytes :: bytes
  f_mtime :: int

record disk =
  dk_files :: "(path \<times> os_file) list"
  dk_dirs :: "path list"
  dk_calls :: nat
  dk_fault :: "nat \<Rightarrow> string option"
  dk_time :: "nat \<Rightarrow> int"
  dk_rand :: "nat \<Rightarrow> string"
  dk_short :: "nat \<Rightarrow> nat"
  dk_dir_size :: int

datatype os_error = NotExist | OSError string

record file_info =
  fi_dir :: bool
  fi_size :: int
  fi_mtime :: int

datatype handle = FileHandle bytes | DirHandle

definition dk_file :: "disk \<Rightarrow> path \<rightharpoonup> os_file" where
  "dk_file d = map_of (dk_files d)"

definition file_size :: "os_file \<Rightarrow> int" where
  "file_size f = int (length (f_bytes f))"

definition put_file :: "path \<Rightarrow> os_file \<Rightarrow> (path \<times> os_file) list \<Rightarrow> (path \<times> os_file) list" where
  "put_file p f fs = (p, f) # filter (\<lambda>x. fst x \<noteq> p) fs"

definition del_file :: "path \<Rightarrow> (path \<times> os_file) list \<Rightarrow> (path \<times> os_file) list" where
  "del_file p fs = filter (\<lambda>x. fst x \<noteq> p) fs"

section \<open>Calls\<close>

definition os_call :: "disk \<Rightarrow> string option \<times> disk" where
  "os_call d = (dk_fault d (dk_calls d), d\<lparr>dk_calls := Suc (dk_calls d)\<rparr>)"

definition os_now :: "disk \<Rightarrow> int" where
  "os_now d = dk_time d (dk_calls d)"

definition os_stat :: "path \<Rightarrow> disk \<Rightarrow> (os_error + file_info) \<times> disk" where
  "os_stat p d = (case os_call d of
     (Some e, d') \<Rightarrow> (Inl (OSError e), d')
   | (None, d') \<Rightarrow> (case dk_file d p of
       Some f \<Rightarrow> (Inr \<lparr>fi_dir = False, fi_size = file_size f, fi_mtime = f_mtime f\<rparr>, d')
     | None \<Rightarrow> (if p \<in> set (dk_dirs d)
         then (Inr \<lparr>fi_dir = True, fi_size = dk_dir_size d, fi_mtime = 0\<rparr>, d') else (Inl NotExist, d'))))"

text \<open>A directory and the directories above it.\<close>

definition dir_chain :: "path \<Rightarrow> path list" where
  "dir_chain p = filter (\<lambda>q. q \<noteq> [] \<and> (length q = length p \<or> p ! length q = slash)) (prefixes p)"

definition os_mkdir_all :: "path \<Rightarrow> disk \<Rightarrow> (os_error + unit) \<times> disk" where
  "os_mkdir_all p d = (case os_call d of
     (Some e, d') \<Rightarrow> (Inl (OSError e), d')
   | (None, d') \<Rightarrow>
       (if list_ex (\<lambda>q. dk_file d q \<noteq> None) (dir_chain p) then (Inl (OSError ''not a directory''), d')
        else (Inr (), d'\<lparr>dk_dirs := dir_chain p @ dk_dirs d\<rparr>)))"

text \<open>\<open>os.CreateTemp(dir, ".tmp-*")\<close>.  The library draws another name when the file exists;
  \<open>dk_rand\<close> is the last name it drew.\<close>

definition temp_prefix :: string where "temp_prefix = ''.tmp-''"

definition os_create_temp :: "path \<Rightarrow> disk \<Rightarrow> (os_error + path) \<times> disk" where
  "os_create_temp dir d =
     (let tmp = path_join [dir, temp_prefix @ dk_rand d (dk_calls d)]
      in case os_call d of
           (Some e, d') \<Rightarrow> (Inl (OSError e), d')
         | (None, d') \<Rightarrow>
             (if dir \<notin> set (dk_dirs d) then (Inl NotExist, d')
              else if dk_file d tmp \<noteq> None \<or> tmp \<in> set (dk_dirs d) then (Inl (OSError ''file exists''), d')
              else (Inr tmp, d'\<lparr>dk_files := put_file tmp \<lparr>f_bytes = [], f_mtime = os_now d\<rparr> (dk_files d)\<rparr>)))"

text \<open>The writes of a callback to an open file; a failing one leaves a part of the bytes.\<close>

definition os_write :: "path \<Rightarrow> bytes \<Rightarrow> disk \<Rightarrow> os_error option \<times> disk" where
  "os_write p out d = (case os_call d of
     (Some e, d') \<Rightarrow> (Some (OSError e),
        d'\<lparr>dk_files := put_file p \<lparr>f_bytes = take (dk_short d (dk_calls d)) out, f_mtime = os_now d\<rparr> (dk_files d)\<rparr>)
   | (None, d') \<Rightarrow> (None, d'\<lparr>dk_files := put_file p \<lparr>f_bytes = out, f_mtime = os_now d\<rparr> (dk_files d)\<rparr>))"

definition os_close :: "disk \<Rightarrow> (os_error + unit) \<times> disk" where
  "os_close d = (case os_call d of (Some e, d') \<Rightarrow> (Inl (OSError e), d') | (None, d') \<Rightarrow> (Inr (), d'))"

definition os_rename :: "path \<Rightarrow> path \<Rightarrow> disk \<Rightarrow> (os_error + unit) \<times> disk" where
  "os_rename a b d = (case os_call d of
     (Some e, d') \<Rightarrow> (Inl (OSError e), d')
   | (None, d') \<Rightarrow> (case dk_file d a of
       None \<Rightarrow> (Inl NotExist, d')
     | Some f \<Rightarrow>
         (if b \<in> set (dk_dirs d) then (Inl (OSError ''file exists''), d')
          else if path_dir b \<notin> set (dk_dirs d) then (Inl NotExist, d')
          else (Inr (), d'\<lparr>dk_files := put_file b f (del_file a (dk_files d))\<rparr>))))"

definition os_remove :: "path \<Rightarrow> disk \<Rightarrow> (os_error + unit) \<times> disk" where
  "os_remove p d = (case os_call d of
     (Some e, d') \<Rightarrow> (Inl (OSError e), d')
   | (None, d') \<Rightarrow>
       (if dk_file d p \<noteq> None then (Inr (), d'\<lparr>dk_files := del_file p (dk_files d)\<rparr>)
        else if p \<notin> set (dk_dirs d) then (Inl NotExist, d')
        else if list_ex (\<lambda>q. path_dir q = p \<and> q \<noteq> p) (akeys (dk_files d) @ dk_dirs d)
        then (Inl (OSError ''directory not empty''), d')
        else (Inr (), d'\<lparr>dk_dirs := filter (\<lambda>q. q \<noteq> p) (dk_dirs d)\<rparr>)))"

definition os_open :: "path \<Rightarrow> disk \<Rightarrow> (os_error + handle) \<times> disk" where
  "os_open p d = (case os_call d of
     (Some e, d') \<Rightarrow> (Inl (OSError e), d')
   | (None, d') \<Rightarrow> (case dk_file d p of
       Some f \<Rightarrow> (Inr (FileHandle (f_bytes f)), d')
     | None \<Rightarrow> (if p \<in> set (dk_dirs d) then (Inr DirHandle, d') else (Inl NotExist, d'))))"

text \<open>\<open>io.ReadAll\<close> of an open file: it can fail on a regular file too, and does on a directory.\<close>

definition os_read :: "handle \<Rightarrow> disk \<Rightarrow> (os_error + bytes) \<times> disk" where
  "os_read h d = (case os_call d of
     (Some e, d') \<Rightarrow> (Inl (OSError e), d')
   | (None, d') \<Rightarrow> (case h of FileHandle b \<Rightarrow> (Inr b, d') | DirHandle \<Rightarrow> (Inl (OSError ''is a directory''), d')))"

definition os_chtimes :: "path \<Rightarrow> int \<Rightarrow> disk \<Rightarrow> (os_error + unit) \<times> disk" where
  "os_chtimes p t d = (case os_call d of
     (Some e, d') \<Rightarrow> (Inl (OSError e), d')
   | (None, d') \<Rightarrow> (case dk_file d p of
       Some f \<Rightarrow> (Inr (), d'\<lparr>dk_files := put_file p (f\<lparr>f_mtime := t\<rparr>) (dk_files d)\<rparr>)
     | None \<Rightarrow> (if p \<in> set (dk_dirs d) then (Inr (), d') else (Inl NotExist, d'))))"

text \<open>\<open>filepath.Walk\<close>, the calls its callback gets for the files below a directory: the
  information on a file or the error of asking for it.  The order is that of \<open>dk_files\<close>; no
  caller depends on it.  The first element is the call for the directory itself when that
  fails.\<close>

definition walk_root :: "path \<Rightarrow> path" where
  "walk_root dir = (let d = path_clean dir in if d = ''/'' then d else d @ ''/'')"

definition below :: "path \<Rightarrow> path \<Rightarrow> bool" where
  "below dir p \<longleftrightarrow> has_prefix p (walk_root dir)"

fun walk_files :: "path \<Rightarrow> (path \<times> os_file) list \<Rightarrow> disk \<Rightarrow> (path \<times> (os_error + os_file)) list \<times> disk" where
  "walk_files dir [] d = ([], d)"
| "walk_files dir ((p, f) # fs) d =
     (if below dir p then
        (case os_call d of (r, d') \<Rightarrow>
           (case walk_files dir fs d' of (rs, d'') \<Rightarrow>
              ((p, case r of Some e \<Rightarrow> Inl (OSError e) | None \<Rightarrow> Inr f) # rs, d'')))
      else walk_files dir fs d)"

definition os_walk :: "path \<Rightarrow> disk \<Rightarrow> (path \<times> (os_error + os_file)) list \<times> disk" where
  "os_walk dir d = (case os_call d of
     (Some e, d') \<Rightarrow> ([(dir, Inl (OSError e))], d')
   | (None, d') \<Rightarrow> walk_files dir (dk_files d) d')"

section \<open>What the calls do to the files\<close>

named_theorems disk_simps "effects of the file system calls"

lemma map_of_put_file [disk_simps]: "map_of (put_file p f fs) = (map_of fs)(p \<mapsto> f)"
  by (auto simp: put_file_def map_of_filter_fst [of "\<lambda>k. k \<noteq> p"] fun_eq_iff)

lemma map_of_del_file [disk_simps]: "map_of (del_file p fs) = (map_of fs)(p := None)"
  by (auto simp: del_file_def map_of_filter_fst [of "\<lambda>k. k \<noteq> p"] fun_eq_iff)

lemma distinct_put_file [simp]: "distinct (akeys fs) \<Longrightarrow> distinct (akeys (put_file p f fs))"
  using distinct_akeys_filter [of fs "\<lambda>x. fst x \<noteq> p"] by (auto simp: put_file_def akeys_def)

lemma distinct_del_file [simp]: "distinct (akeys fs) \<Longrightarrow> distinct (akeys (del_file p fs))"
  by (simp add: del_file_def distinct_akeys_filter)

text \<open>Fields no call touches.\<close>

definition same_env :: "disk \<Rightarrow> disk \<Rightarrow> bool" where
  "same_env d d' \<longleftrightarrow> dk_fault d' = dk_fault d \<and> dk_time d' = dk_time d \<and> dk_rand d' = dk_rand d \<and>
     dk_dir_size d' = dk_dir_size d \<and> dk_calls d \<le> dk_calls d'"

lemma same_env_refl [simp]: "same_env d d"
  by (simp add: same_env_def)

lemma same_env_trans: "same_env d d' \<Longrightarrow> same_env d' d'' \<Longrightarrow> same_env d d''"
  by (simp add: same_env_def)

definition disk_env :: "disk \<Rightarrow> (nat \<Rightarrow> string option) \<times> (nat \<Rightarrow> string)" where
  "disk_env d = (dk_fault d, dk_rand d)"

lemma os_stat_effect:
  "os_stat p d = (r, d') \<Longrightarrow> dk_files d' = dk_files d \<and> dk_dirs d' = dk_dirs d \<and> same_env d d'"
  by (auto simp: os_stat_def os_call_def same_env_def split: option.splits if_splits)

lemma os_stat_file:
  "dk_fault d (dk_calls d) = None \<Longrightarrow> dk_file d p = Some f \<Longrightarrow>
    \<exists>d'. os_stat p d = (Inr \<lparr>fi_dir = False, fi_size = file_size f, fi_mtime = f_mtime f\<rparr>, d')"
  by (simp add: os_stat_def os_call_def)

lemma os_mkdir_all_effect:
  "os_mkdir_all p d = (r, d') \<Longrightarrow> dk_files d' = dk_files d \<and> set (dk_dirs d) \<subseteq> set (dk_dirs d') \<and>
    (\<forall>q \<in> set (dk_dirs d') - set (dk_dirs d). dk_file d q = None) \<and> same_env d d'"
  by (auto simp: os_mkdir_all_def os_call_def same_env_def list_ex_iff split: option.splits if_splits)

lemma os_create_temp_effect:
  assumes "os_create_temp dir d = (r, d')"
  shows "dk_dirs d' = dk_dirs d" "same_env d d'" "r = Inl e \<Longrightarrow> dk_files d' = dk_files d"
    "r = Inr tmp \<Longrightarrow> dk_files d' = put_file tmp \<lparr>f_bytes = [], f_mtime = os_now d\<rparr> (dk_files d) \<and>
       dk_file d tmp = None \<and> tmp \<notin> set (dk_dirs d) \<and> dir \<in> set (dk_dirs d) \<and>
       tmp = path_join [dir, temp_prefix @ dk_rand d (dk_calls d)]"
  using assms
  by (auto simp: os_create_temp_def os_call_def same_env_def Let_def split: option.splits if_splits)

lemma os_write_effect:
  assumes "os_write p out d = (r, d')"
  shows "dk_dirs d' = dk_dirs d" "same_env d d'"
    "\<exists>bs. dk_files d' = put_file p \<lparr>f_bytes = bs, f_mtime = os_now d\<rparr> (dk_files d) \<and> (r = None \<longrightarrow> bs = out)"
  using assms by (auto simp: os_write_def os_call_def same_env_def split: option.splits)

lemma os_read_effect:
  assumes "os_read h d = (r, d')"
  shows "dk_files d' = dk_files d" "dk_dirs d' = dk_dirs d" "same_env d d'" "r = Inr b \<Longrightarrow> h = FileHandle b"
  using assms by (auto simp: os_read_def os_call_def same_env_def split: option.splits handle.splits)

lemma os_read_ok: "dk_fault d (dk_calls d) = None \<Longrightarrow> \<exists>d'. os_read (FileHandle b) d = (Inr b, d')"
  by (simp add: os_read_def os_call_def)

lemma os_close_effect:
  "os_close d = (r, d') \<Longrightarrow> dk_files d' = dk_files d \<and> dk_dirs d' = dk_dirs d \<and> same_env d d'"
  by (auto simp: os_close_def os_call_def same_env_def split: option.splits)

lemma os_rename_effect:
  assumes "os_rename a b d = (r, d')"
  shows "dk_dirs d' = dk_dirs d" "same_env d d'" "r = Inl e \<Longrightarrow> dk_files d' = dk_files d"
    "r = Inr u \<Longrightarrow> \<exists>f. dk_file d a = Some f \<and> dk_files d' = put_file b f (del_file a (dk_files d)) \<and>
       b \<notin> set (dk_dirs d) \<and> path_dir b \<in> set (dk_dirs d)"
  using assms by (auto simp: os_rename_def os_call_def same_env_def split: option.splits if_splits)

lemma os_remove_effect:
  assumes "os_remove p d = (r, d')"
  shows "same_env d d'" "set (dk_dirs d') \<subseteq> set (dk_dirs d)" "r = Inl e \<Longrightarrow> dk_files d' = dk_files d"
    "dk_files d' = dk_files d \<or> dk_files d' = del_file p (dk_files d)"
    "dk_file d p \<noteq> None \<Longrightarrow> r = Inr u \<Longrightarrow> dk_files d' = del_file p (dk_files d) \<and> dk_dirs d' = dk_dirs d"
    "dk_file d p = None \<Longrightarrow> dk_files d' = dk_files d"
  using assms by (auto simp: os_remove_def os_call_def same_env_def split: option.splits if_splits)

lemma os_remove_ok:
  "dk_fault d (dk_calls d) = None \<Longrightarrow> dk_file d p \<noteq> None \<Longrightarrow> fst (os_remove p d) = Inr ()"
  by (auto simp: os_remove_def os_call_def)

lemma os_call_effect:
  "os_call d = (r, d') \<Longrightarrow> dk_files d' = dk_files d \<and> dk_dirs d' = dk_dirs d \<and> same_env d d'"
  by (auto simp: os_call_def same_env_def)

lemma walk_files_effect:
  "walk_files dir fs d = (rs, d') \<Longrightarrow> dk_files d' = dk_files d \<and> dk_dirs d' = dk_dirs d \<and> same_env d d'"
proof (induction dir fs d arbitrary: rs d' rule: walk_files.induct)
  case (2 dir p f fs d)
  obtain r d1 where call: "os_call d = (r, d1)" by force
  obtain rs1 d2 where rest: "walk_files dir fs d1 = (rs1, d2)" by force
  show ?case
  proof (cases "below dir p")
    case True
    then have "d' = d2" using "2.prems" call rest by simp
    then show ?thesis
      using "2.IH"(1) [OF True call [symmetric] rest] os_call_effect [OF call]
      by (auto intro: same_env_trans)
  next
    case False
    with "2.prems" have "walk_files dir fs d = (rs, d')" by simp
    then show ?thesis by (rule "2.IH"(2) [OF False])
  qed
qed simp

lemma walk_files_list:
  assumes "walk_files dir fs d = (rs, d')" "\<And>n. dk_fault d n = None"
  shows "rs = map (\<lambda>(p, f). (p, Inr f)) (filter (\<lambda>(p, f). below dir p) fs)"
  using assms
proof (induction dir fs d arbitrary: rs d' rule: walk_files.induct)
  case (2 dir p f fs d)
  obtain rs1 d2 where rest: "walk_files dir fs (d\<lparr>dk_calls := Suc (dk_calls d)\<rparr>) = (rs1, d2)" by force
  have call: "os_call d = (None, d\<lparr>dk_calls := Suc (dk_calls d)\<rparr>)"
    using "2.prems"(2) by (simp add: os_call_def)
  show ?case
  proof (cases "below dir p")
    case True
    then have "rs = (p, Inr f) # rs1" using "2.prems"(1) call rest by simp
    with True show ?thesis
      using "2.IH"(1) [OF True call [symmetric] rest] "2.prems"(2) by simp
  next
    case False
    with "2.prems"(1) have "walk_files dir fs d = (rs, d')" by simp
    with False show ?thesis using "2.IH"(2) [OF False] "2.prems"(2) by simp
  qed
qed simp

lemma walk_files_sound:
  "walk_files dir fs d = (rs, d') \<Longrightarrow> (p, Inr f) \<in> set rs \<Longrightarrow> (p, f) \<in> set fs \<and> below dir p"
  by (induction dir fs d arbitrary: rs d' rule: walk_files.induct)
    (fastforce split: prod.splits if_splits option.splits)+

section \<open>Well-formed disks\<close>

text \<open>A path is not both a file and a directory, and the parent of a file is a directory.\<close>

definition disk_wf :: "disk \<Rightarrow> bool" where
  "disk_wf d \<longleftrightarrow> distinct (akeys (dk_files d)) \<and>
     (\<forall>p \<in> set (akeys (dk_files d)). p \<notin> set (dk_dirs d) \<and> path_dir p \<in> set (dk_dirs d))"

lemma disk_wf_distinct: "disk_wf d \<Longrightarrow> distinct (akeys (dk_files d))"
  by (simp add: disk_wf_def)

lemma disk_wf_parent:
  "disk_wf d \<Longrightarrow> dk_file d p = Some f \<Longrightarrow> p \<notin> set (dk_dirs d) \<and> path_dir p \<in> set (dk_dirs d)"
  by (auto simp: disk_wf_def set_akeys dk_file_def)

lemma disk_wf_dir: "disk_wf d \<Longrightarrow> q \<in> set (dk_dirs d) \<Longrightarrow> dk_file d q = None"
  using disk_wf_parent [of d q] by (cases "dk_file d q") auto

lemma akeys_put_file [simp]: "set (akeys (put_file p f fs)) = insert p (set (akeys fs))"
  by (auto simp: put_file_def akeys_def image_iff)

lemma akeys_del_file [simp]: "set (akeys (del_file p fs)) = set (akeys fs) - {p}"
  by (auto simp: del_file_def akeys_def)

lemma os_remove_wf:
  assumes "os_remove p d = (r, d')" "disk_wf d"
  shows "disk_wf d'"
  using assms
  by (auto simp: os_remove_def os_call_def disk_wf_def list_ex_iff split: option.splits if_splits)

end
