(* ===== verification/Disk_Cache.thy ===== *)
theory Disk_Cache
  imports Os_Disk Go_Sort
begin

text \<open>
  \<open>internal/cache/cache.go\<close>: the disk cache, a store of files below one directory with a byte
  count that triggers the eviction of the files with the oldest modification times.  A write is
  split where another goroutine can come in between: the size of the old file is read before
  anything else, the count is updated at the end.  The callback that produces the content is
  given by what it writes and the error it returns by itself; it returns the error of a write
  that fails.
\<close>

section \<open>Data and simple operations\<close>

record cache =
  ca_dir :: path
  ca_cap :: int
  ca_size :: int

definition cache_path :: "cache \<Rightarrow> string \<Rightarrow> path" where
  "cache_path c key = path_join [ca_dir c, key]"

text \<open>The callback of \<open>rescan\<close> adds up sizes until the first error.\<close>

fun walk_total :: "(path \<times> (os_error + os_file)) list \<Rightarrow> int \<Rightarrow> os_error + int" where
  "walk_total [] t = Inr t"
| "walk_total ((p, Inl e) # rs) t = Inl e"
| "walk_total ((p, Inr f) # rs) t = walk_total rs (t + file_size f)"

definition rescan :: "cache \<Rightarrow> disk \<Rightarrow> (os_error option \<times> cache) \<times> disk" where
  "rescan c d = (case os_walk (ca_dir c) d of (rs, d') \<Rightarrow>
     (case walk_total rs 0 of Inl e \<Rightarrow> ((Some e, c), d') | Inr t \<Rightarrow> ((None, c\<lparr>ca_size := t\<rparr>), d')))"

definition new_cache :: "path \<Rightarrow> int \<Rightarrow> disk \<Rightarrow> (os_error + cache) \<times> disk" where
  "new_cache dir max_bytes d = (case os_mkdir_all dir d of
     (Inl e, d1) \<Rightarrow> (Inl e, d1)
   | (Inr _, d1) \<Rightarrow>
       (let c = \<lparr>ca_dir = dir, ca_cap = max_bytes, ca_size = 0\<rparr>
        in if 0 < max_bytes
           then (case rescan c d1 of ((Some e, _), d2) \<Rightarrow> (Inl e, d2) | ((None, c'), d2) \<Rightarrow> (Inr c', d2))
           else (Inr c, d1)))"

definition cache_open :: "cache \<Rightarrow> string \<Rightarrow> disk \<Rightarrow> (os_error + handle) \<times> disk" where
  "cache_open c key d =
     (let p = cache_path c key
      in case os_open p d of
           (Inl e, d1) \<Rightarrow> (Inl e, d1)
         | (Inr h, d1) \<Rightarrow> (let now = os_now d1 in (Inr h, snd (os_chtimes p now d1))))"

definition cache_has :: "cache \<Rightarrow> string \<Rightarrow> disk \<Rightarrow> bool \<times> disk" where
  "cache_has c key d = (case os_stat (cache_path c key) d of (Inl _, d') \<Rightarrow> (False, d') | (Inr _, d') \<Rightarrow> (True, d'))"

definition cache_size :: "cache \<Rightarrow> int" where
  "cache_size c = ca_size c"

section \<open>Eviction\<close>

record evict_entry =
  ev_path :: path
  ev_size :: int
  ev_mtime :: int

definition evict_entries :: "(path \<times> (os_error + os_file)) list \<Rightarrow> evict_entry list" where
  "evict_entries rs = List.map_filter (\<lambda>(p, r). case r of
     Inl _ \<Rightarrow> None
   | Inr f \<Rightarrow> Some \<lparr>ev_path = p, ev_size = file_size f, ev_mtime = f_mtime f\<rparr>) rs"

fun evict_files :: "evict_entry list \<Rightarrow> cache \<Rightarrow> disk \<Rightarrow> cache \<times> disk" where
  "evict_files [] c d = (c, d)"
| "evict_files (e # es) c d =
     (if ca_size c \<le> ca_cap c then (c, d)
      else case os_remove (ev_path e) d of
             (Inl _, d1) \<Rightarrow> evict_files es c d1
           | (Inr _, d1) \<Rightarrow>
               evict_files es (c\<lparr>ca_size := ca_size c - ev_size e\<rparr>) (snd (os_remove (path_dir (ev_path e)) d1)))"

definition evict :: "(evict_entry list \<Rightarrow> evict_entry list) \<Rightarrow> cache \<Rightarrow> disk \<Rightarrow> cache \<times> disk" where
  "evict srt c d = (case os_walk (ca_dir c) d of (rs, d') \<Rightarrow> evict_files (srt (evict_entries rs)) c d')"

section \<open>Writing\<close>

text \<open>The size of the file that the write replaces, as \<open>os.Stat\<close> reports it.\<close>

definition old_size :: "path \<Rightarrow> disk \<Rightarrow> int \<times> disk" where
  "old_size p d = (case os_stat p d of (Inl _, d') \<Rightarrow> (0, d') | (Inr info, d') \<Rightarrow> (fi_size info, d'))"

text \<open>From the creation of the temporary file to the rename: the name of the temporary file, if
  one was created, and the error.\<close>

definition store_file ::
  "path \<Rightarrow> bytes \<Rightarrow> os_error option \<Rightarrow> disk \<Rightarrow> (path option \<times> os_error option) \<times> disk" where
  "store_file p out ferr d =
     (case os_mkdir_all (path_dir p) d of
        (Inl e, d1) \<Rightarrow> ((None, Some e), d1)
      | (Inr _, d1) \<Rightarrow>
          (case os_create_temp (path_dir p) d1 of
             (Inl e, d2) \<Rightarrow> ((None, Some e), d2)
           | (Inr tmp, d2) \<Rightarrow>
               (case os_write tmp out d2 of (werr, d3) \<Rightarrow>
                  (case (case werr of None \<Rightarrow> ferr | Some e \<Rightarrow> Some e) of
                     Some e \<Rightarrow> ((Some tmp, Some e), snd (os_close d3))
                   | None \<Rightarrow>
                       (case os_close d3 of
                          (Inl e, d4) \<Rightarrow> ((Some tmp, Some e), d4)
                        | (Inr _, d4) \<Rightarrow>
                            (case os_rename tmp p d4 of
                               (Inl e, d5) \<Rightarrow> ((Some tmp, Some e), d5)
                             | (Inr _, d5) \<Rightarrow> ((Some tmp, None), d5)))))))"

text \<open>What follows a successful rename: the byte count and the eviction.\<close>

definition account_file ::
  "(evict_entry list \<Rightarrow> evict_entry list) \<Rightarrow> cache \<Rightarrow> path \<Rightarrow> int \<Rightarrow> disk \<Rightarrow> (os_error option \<times> cache) \<times> disk" where
  "account_file srt c p old d =
     (if ca_cap c \<le> 0 then ((None, c), d)
      else case os_stat p d of
             (Inl e, d1) \<Rightarrow> ((Some e, c), d1)
           | (Inr info, d1) \<Rightarrow>
               (let c1 = c\<lparr>ca_size := ca_size c + (fi_size info - old)\<rparr>
                in if ca_cap c1 < ca_size c1
                   then (case evict srt c1 d1 of (c2, d2) \<Rightarrow> ((None, c2), d2))
                   else ((None, c1), d1)))"

text \<open>The deferred removal of the temporary file.\<close>

definition remove_temp :: "path option \<Rightarrow> disk \<Rightarrow> disk" where
  "remove_temp tmp d = (case tmp of None \<Rightarrow> d | Some t \<Rightarrow> snd (os_remove t d))"

definition finish_write ::
  "(evict_entry list \<Rightarrow> evict_entry list) \<Rightarrow> cache \<Rightarrow> string \<Rightarrow> int \<Rightarrow> bytes \<Rightarrow> os_error option \<Rightarrow> disk \<Rightarrow>
   (os_error option \<times> cache) \<times> disk" where
  "finish_write srt c key old out ferr d =
     (case store_file (cache_path c key) out ferr d of
        ((tmp, Some e), d1) \<Rightarrow> ((Some e, c), remove_temp tmp d1)
      | ((tmp, None), d1) \<Rightarrow>
          (case account_file srt c (cache_path c key) old d1 of (r, d2) \<Rightarrow> (r, remove_temp tmp d2)))"

definition cache_write ::
  "(evict_entry list \<Rightarrow> evict_entry list) \<Rightarrow> cache \<Rightarrow> string \<Rightarrow> bytes \<Rightarrow> os_error option \<Rightarrow> disk \<Rightarrow>
   (os_error option \<times> cache) \<times> disk" where
  "cache_write srt c key out ferr d =
     (case old_size (cache_path c key) d of (old, d1) \<Rightarrow> finish_write srt c key old out ferr d1)"

end
