(* ===== verification/Disk_Effects.thy ===== *)
theory Disk_Effects
  imports Disk_Cache Lru_Spec
begin

text \<open>
  What the disk cache does to the files: the effect of a store on every branch, the byte count
  against the files on disk, and eviction as the recency list keeps what fits.
\<close>

section \<open>Storing a file\<close>

text \<open>The names a temporary file next to a path can get.\<close>

definition temp_names :: "disk \<Rightarrow> path \<Rightarrow> path set" where
  "temp_names d p = {path_join [path_dir p, temp_prefix @ dk_rand d n] | n. True}"

lemma dk_file_put: "dk_files d' = put_file p f (dk_files d) \<Longrightarrow> dk_file d' = (dk_file d)(p \<mapsto> f)"
  by (simp add: dk_file_def disk_simps)

lemma dk_file_cong: "dk_files d' = dk_files d \<Longrightarrow> dk_file d' = dk_file d"
  by (simp add: dk_file_def)

text \<open>Up to the callback: the temporary file holds what the callback wrote.\<close>

lemma temp_written:
  assumes "os_mkdir_all (path_dir p) d = (Inr u, d1)" "os_create_temp (path_dir p) d1 = (Inr t, d2)"
    and "os_write t out d2 = (werr, d3)"
  shows "dk_file d t = None" "t \<in> temp_names d p" "same_env d d3"
    "\<exists>bs m. dk_files d3 = put_file t \<lparr>f_bytes = bs, f_mtime = m\<rparr>
      (put_file t \<lparr>f_bytes = [], f_mtime = os_now d1\<rparr> (dk_files d)) \<and> (werr = None \<longrightarrow> bs = out)"
    "set (dk_dirs d) \<subseteq> set (dk_dirs d3)" "\<forall>q \<in> set (dk_dirs d3) - set (dk_dirs d). dk_file d q = None"
proof -
  note m = os_mkdir_all_effect [OF assms(1)]
  note c = os_create_temp_effect [OF assms(2)]
  note w = os_write_effect [OF assms(3)]
  have t: "dk_files d2 = put_file t \<lparr>f_bytes = [], f_mtime = os_now d1\<rparr> (dk_files d1)"
    "dk_file d1 t = None" "t = path_join [path_dir p, temp_prefix @ dk_rand d1 (dk_calls d1)]"
    using c(4) by auto
  show "dk_file d t = None" using t(2) m by (simp add: dk_file_def)
  show "t \<in> temp_names d p" using t(3) m by (auto simp: temp_names_def same_env_def)
  show "same_env d d3" using m c(2) w(2) by (blast intro: same_env_trans)
  show "\<exists>bs m. dk_files d3 = put_file t \<lparr>f_bytes = bs, f_mtime = m\<rparr>
      (put_file t \<lparr>f_bytes = [], f_mtime = os_now d1\<rparr> (dk_files d)) \<and> (werr = None \<longrightarrow> bs = out)"
    using m t(1) w(3) by auto
  show "set (dk_dirs d) \<subseteq> set (dk_dirs d3)" "\<forall>q \<in> set (dk_dirs d3) - set (dk_dirs d). dk_file d q = None"
    using m c(1) w(1) by auto
qed

text \<open>The cases of a store: nothing happened to the files, a temporary file is left, or the
  file is in place.\<close>

lemma store_file_cases:
  assumes "store_file p out ferr d = ((tmp, err), d')"
  obtains (untouched) e where "tmp = None" "err = Some e" "dk_files d' = dk_files d"
  | (left) t f e where "tmp = Some t" "err = Some e" "t \<in> temp_names d p" "dk_file d t = None"
      "dk_file d' = (dk_file d)(t \<mapsto> f)"
  | (stored) t m0 m where "tmp = Some t" "err = None" "ferr = None" "t \<in> temp_names d p" "dk_file d t = None"
      "dk_files d' = put_file p \<lparr>f_bytes = out, f_mtime = m\<rparr> (del_file t
        (put_file t \<lparr>f_bytes = out, f_mtime = m\<rparr> (put_file t \<lparr>f_bytes = [], f_mtime = m0\<rparr> (dk_files d))))"
      "same_env d d'" "p \<notin> set (dk_dirs d')" "path_dir p \<in> set (dk_dirs d')"
      "set (dk_dirs d) \<subseteq> set (dk_dirs d')" "\<forall>q \<in> set (dk_dirs d') - set (dk_dirs d). dk_file d q = None"
proof -
  obtain r1 d1 where mk: "os_mkdir_all (path_dir p) d = (r1, d1)" by force
  obtain r2 d2 where ct: "os_create_temp (path_dir p) d1 = (r2, d2)" by force
  note m = os_mkdir_all_effect [OF mk] and c = os_create_temp_effect [OF ct]
  show thesis
  proof (cases r1)
    case (Inl e)
    then show thesis using untouched assms mk m by (auto simp: store_file_def)
  next
    case (Inr u)
    note r1 = this
    show thesis
    proof (cases r2)
      case (Inl e)
      then show thesis using untouched assms mk ct m c(3) r1 by (auto simp: store_file_def)
    next
      case (Inr t)
      obtain werr d3 where wr: "os_write t out d2 = (werr, d3)" by force
      note w = temp_written [OF mk [unfolded r1] ct [unfolded Inr] wr]
      obtain bs m1 where files: "dk_files d3 = put_file t \<lparr>f_bytes = bs, f_mtime = m1\<rparr>
          (put_file t \<lparr>f_bytes = [], f_mtime = os_now d1\<rparr> (dk_files d))" "werr = None \<Longrightarrow> bs = out"
        using w(4) by blast
      then have file3: "dk_file d3 = (dk_file d)(t \<mapsto> \<lparr>f_bytes = bs, f_mtime = m1\<rparr>)"
        by (simp add: dk_file_def disk_simps)
      obtain r4 d4 where cl: "os_close d3 = (r4, d4)" by force
      note cl_eff = os_close_effect [OF cl]
      have file4: "dk_file d4 = (dk_file d)(t \<mapsto> \<lparr>f_bytes = bs, f_mtime = m1\<rparr>)"
        using cl_eff file3 dk_file_cong by metis
      obtain r5 d5 where rn: "os_rename t p d4 = (r5, d5)" by force
      note rn_eff = os_rename_effect [OF rn]
      note unfold = assms mk ct r1 Inr wr cl rn
      define cerr where "cerr = (case werr of None \<Rightarrow> ferr | Some e \<Rightarrow> Some e)"
      have cerr_None: "werr = None" "ferr = None" if "cerr = None"
        using that by (simp_all add: cerr_def split: option.splits)
      consider e where "cerr = Some e" | e where "cerr = None" "r4 = Inl e"
        | e u' where "cerr = None" "r4 = Inr u'" "r5 = Inl e"
        | u' u'' where "cerr = None" "r4 = Inr u'" "r5 = Inr u''"
        by (metis option.exhaust sum.exhaust)
      then show thesis
      proof cases
        case 1
        then have "tmp = Some t" "err = Some e" "d' = d4"
          using unfold by (simp_all add: store_file_def cerr_def [symmetric])
        then show thesis using left w(1,2) file4 by blast
      next
        case 2
        then have "tmp = Some t" "err = Some e" "d' = d4"
          using unfold by (simp_all add: store_file_def cerr_def [symmetric])
        then show thesis using left w(1,2) file4 by blast
      next
        case 3
        then have "tmp = Some t" "err = Some e" "d' = d5"
          using unfold by (simp_all add: store_file_def cerr_def [symmetric])
        moreover have "dk_file d5 = dk_file d4" using rn_eff(3) 3 by (simp add: dk_file_def)
        ultimately show thesis using left w(1,2) file4 by metis
      next
        case 4
        then have res: "tmp = Some t" "err = None" "d' = d5"
          using unfold by (simp_all add: store_file_def cerr_def [symmetric])
        note none = cerr_None [OF 4(1)]
        have f5: "dk_files d5 = put_file p \<lparr>f_bytes = out, f_mtime = m1\<rparr> (del_file t (dk_files d4))"
          "p \<notin> set (dk_dirs d4)" "path_dir p \<in> set (dk_dirs d4)"
          using rn_eff(4) 4(3) file4 files(2) none by auto
        show thesis
        proof (rule stored [OF res(1,2) none(2) w(2,1)])
          show "dk_files d' = put_file p \<lparr>f_bytes = out, f_mtime = m1\<rparr> (del_file t
            (put_file t \<lparr>f_bytes = out, f_mtime = m1\<rparr> (put_file t \<lparr>f_bytes = [], f_mtime = os_now d1\<rparr> (dk_files d))))"
            using f5(1) cl_eff files none res(3) by simp
          show "same_env d d'"
            using w(3) cl_eff rn_eff(2) res(3) by (blast intro: same_env_trans)
          show "p \<notin> set (dk_dirs d')" "path_dir p \<in> set (dk_dirs d')" "set (dk_dirs d) \<subseteq> set (dk_dirs d')"
            "\<forall>q \<in> set (dk_dirs d') - set (dk_dirs d). dk_file d q = None"
            using f5 w(5,6) cl_eff rn_eff(1) res(3) by auto
        qed
      qed
    qed
  qed
qed

lemma stored_files:
  assumes "dk_file d t = None"
    and "dk_files d' = put_file p f (del_file t (put_file t f (put_file t f0 (dk_files d))))"
  shows "dk_file d' = (dk_file d)(p \<mapsto> f)"
  using assms by (auto simp: dk_file_def disk_simps fun_eq_iff)

lemma remove_temp_effect:
  "dk_file (remove_temp (Some t) d) = dk_file d \<or> dk_file (remove_temp (Some t) d) = (dk_file d)(t := None)"
  using os_remove_effect(4) [of t d "fst (os_remove t d)" "snd (os_remove t d)"]
  by (auto simp: remove_temp_def dk_file_def disk_simps)

lemma remove_temp_None [simp]: "remove_temp None d = d"
  by (simp add: remove_temp_def)

text \<open>After a store the deferred removal finds nothing to remove.\<close>

lemma remove_temp_absent:
  assumes "dk_file d t = None"
  shows "dk_files (remove_temp (Some t) d) = dk_files d"
  using assms os_remove_effect(6) [of t d "fst (os_remove t d)" "snd (os_remove t d)"]
  by (simp add: remove_temp_def)

lemma store_file_wf:
  assumes "store_file p out ferr d = ((tmp, None), d')" "disk_wf d"
  shows "disk_wf d'"
  using assms(1)
proof (cases rule: store_file_cases)
  case (stored t m0 m)
  have "set (akeys (dk_files d')) = insert p (set (akeys (dk_files d)))"
    using stored(4,5) assms(2)
    by (auto simp: stored(6) set_akeys dk_file_def disk_simps)
  moreover have "q \<notin> set (dk_dirs d')" if "q \<in> set (akeys (dk_files d))" for q
    using that assms(2) stored(11) by (force simp: disk_wf_def set_akeys dk_file_def)
  ultimately show ?thesis
    using assms(2) stored(8-10) unfolding disk_wf_def
    by (auto simp: stored(6))
qed simp_all

section \<open>The byte count\<close>

definition fsum :: "(path \<Rightarrow> bool) \<Rightarrow> (path \<times> os_file) list \<Rightarrow> int" where
  "fsum P fs = (\<Sum>x \<leftarrow> fs. if P (fst x) then file_size (snd x) else 0)"

definition used_below :: "path \<Rightarrow> disk \<Rightarrow> int" where
  "used_below dir d = fsum (below dir) (dk_files d)"

lemma fsum_simps [simp]: "fsum P [] = 0"
  "fsum P (x # fs) = (if P (fst x) then file_size (snd x) else 0) + fsum P fs"
  by (simp_all add: fsum_def)

lemma file_size_nonneg [simp]: "0 \<le> file_size f"
  by (simp add: file_size_def)

lemma fsum_nonneg: "0 \<le> fsum P fs"
  by (induction fs) auto

lemma fsum_del_absent: "p \<notin> set (akeys fs) \<Longrightarrow> fsum P (del_file p fs) = fsum P fs"
  by (induction fs) (auto simp: del_file_def)

lemma fsum_del:
  assumes "distinct (akeys fs)"
  shows "fsum P (del_file p fs) = fsum P fs -
    (case map_of fs p of Some f \<Rightarrow> if P p then file_size f else 0 | None \<Rightarrow> 0)"
  using assms
proof (induction fs)
  case (Cons x fs)
  show ?case
  proof (cases "fst x = p")
    case True
    then have "p \<notin> set (akeys fs)" using Cons.prems by auto
    with True show ?thesis
      using fsum_del_absent [of p fs P] by (cases x) (simp add: del_file_def)
  next
    case False
    then have "del_file p (x # fs) = x # del_file p fs" by (simp add: del_file_def)
    with False Cons show ?thesis by (cases x) simp
  qed
qed (simp add: del_file_def)

lemma fsum_put: "fsum P (put_file p f fs) = (if P p then file_size f else 0) + fsum P (del_file p fs)"
  by (simp add: put_file_def del_file_def)

text \<open>The size of the file at a path, 0 when there is none.\<close>

definition size_at :: "disk \<Rightarrow> path \<Rightarrow> int" where
  "size_at d p = (case dk_file d p of Some f \<Rightarrow> file_size f | None \<Rightarrow> 0)"

lemma used_stored:
  assumes "disk_wf d" "below dir p" "dk_file d t = None"
    and "dk_files d' = put_file p f (del_file t (put_file t f (put_file t f0 (dk_files d))))"
  shows "used_below dir d' = used_below dir d - size_at d p + file_size f"
proof -
  let ?fs = "del_file t (put_file t f (put_file t f0 (dk_files d)))"
  have abs: "t \<notin> set (akeys (dk_files d))" using assms(3) by (simp add: dk_file_def set_akeys domIff)
  then have "?fs = dk_files d"
    by (auto simp: del_file_def put_file_def akeys_def image_iff intro!: filter_True)
  then show ?thesis
    using fsum_del [of "dk_files d" "below dir" p] disk_wf_distinct [OF assms(1)] assms(2,4)
    by (simp add: used_below_def fsum_put size_at_def dk_file_def split: option.splits)
qed

lemma used_removed:
  assumes "disk_wf d" "dk_file d p = Some f" "below dir p" "dk_files d' = del_file p (dk_files d)"
  shows "used_below dir d' = used_below dir d - file_size f"
  using fsum_del [of "dk_files d" "below dir" p] disk_wf_distinct [OF assms(1)] assms
  by (simp add: used_below_def dk_file_def)

section \<open>Eviction\<close>

text \<open>The entries to evict name files of the disk, each once, with their sizes.\<close>

definition entries_of :: "path \<Rightarrow> disk \<Rightarrow> evict_entry list \<Rightarrow> bool" where
  "entries_of dir d es \<longleftrightarrow> distinct (map ev_path es) \<and>
     (\<forall>e \<in> set es. below dir (ev_path e) \<and>
        (\<exists>f. dk_file d (ev_path e) = Some f \<and> ev_size e = file_size f))"

lemma entries_of_Cons: "entries_of dir d (e # es) \<Longrightarrow> entries_of dir d es"
  by (simp add: entries_of_def)

lemma entries_of_remove:
  assumes "entries_of dir d (e # es)" "dk_file d' = (dk_file d)(ev_path e := None)"
  shows "entries_of dir d' es"
proof -
  have "ev_path e \<notin> ev_path ` set es" using assms(1) by (simp add: entries_of_def)
  then have "ev_path x \<noteq> ev_path e" if "x \<in> set es" for x
    using that by (metis imageI)
  then show ?thesis using assms by (auto simp: entries_of_def)
qed

text \<open>One removal: the file goes, its size leaves the count and the pruned parent is a
  directory.\<close>

lemma evict_one:
  assumes "disk_wf d" "entries_of dir d (e # es)"
    and "os_remove (ev_path e) d = (Inr u, d1)" "d2 = snd (os_remove (path_dir (ev_path e)) d1)"
  shows "disk_wf d2" "dk_files d2 = del_file (ev_path e) (dk_files d)"
    "dk_file d2 = (dk_file d)(ev_path e := None)" "same_env d d2"
    "used_below dir d2 = used_below dir d - ev_size e" "entries_of dir d2 es"
proof -
  obtain f where f: "dk_file d (ev_path e) = Some f" "ev_size e = file_size f" "below dir (ev_path e)"
    using assms(2) by (auto simp: entries_of_def)
  obtain r where rm2: "os_remove (path_dir (ev_path e)) d1 = (r, d2)"
    using assms(4) by (metis prod.collapse)
  note e1 = os_remove_effect [OF assms(3)] and e2 = os_remove_effect [OF rm2]
  have d1: "dk_files d1 = del_file (ev_path e) (dk_files d)" "dk_dirs d1 = dk_dirs d"
    using e1(5) f(1) by auto
  have wf1: "disk_wf d1" using os_remove_wf [OF assms(3,1)] .
  have "path_dir (ev_path e) \<in> set (dk_dirs d1)"
    using disk_wf_parent [OF assms(1) f(1)] d1(2) by simp
  then have "dk_file d1 (path_dir (ev_path e)) = None"
    using disk_wf_dir [OF wf1] by blast
  then have files: "dk_files d2 = dk_files d1" using e2(6) by simp
  show "disk_wf d2" using os_remove_wf [OF rm2 wf1] .
  show f2: "dk_files d2 = del_file (ev_path e) (dk_files d)" using files d1 by simp
  then show df: "dk_file d2 = (dk_file d)(ev_path e := None)" by (simp add: dk_file_def disk_simps)
  show "same_env d d2" using e1(1) e2(1) by (rule same_env_trans)
  show "used_below dir d2 = used_below dir d - ev_size e"
    using used_removed [OF assms(1) f(1,3) f2] f(2) by simp
  show "entries_of dir d2 es" using entries_of_remove [OF assms(2) df] .
qed

lemma os_remove_failed:
  assumes "os_remove p d = (Inl e, d1)" "disk_wf d"
  shows "disk_wf d1" "dk_files d1 = dk_files d" "dk_file d1 = dk_file d" "same_env d d1"
  using os_remove_wf [OF assms] os_remove_effect [OF assms(1)] by (simp_all add: dk_file_def)

lemma evict_files_effect:
  assumes "evict_files es c d = (c', d')" "disk_wf d" "entries_of dir d es"
  shows "disk_wf d' \<and> dk_file d' \<subseteq>\<^sub>m dk_file d \<and> same_env d d' \<and>
    used_below dir d' - ca_size c' = used_below dir d - ca_size c \<and>
    ca_cap c' = ca_cap c \<and> ca_dir c' = ca_dir c \<and> ca_size c' \<le> ca_size c"
  using assms
proof (induction es c d rule: evict_files.induct)
  case (2 e es c d)
  show ?case
  proof (cases "ca_size c \<le> ca_cap c")
    case False
    obtain r d1 where rm: "os_remove (ev_path e) d = (r, d1)" by force
    show ?thesis
    proof (cases r)
      case (Inl x)
      note f = os_remove_failed [OF rm [unfolded Inl] "2.prems"(2)]
      have "evict_files es c d1 = (c', d')" using False rm Inl "2.prems"(1) by simp
      moreover have "entries_of dir d1 es"
        using entries_of_Cons [OF "2.prems"(3)] f(3) by (simp add: entries_of_def)
      ultimately show ?thesis
        using "2.IH"(1) [OF False rm [symmetric] Inl] f same_env_trans [OF f(4)]
        by (simp add: used_below_def)
    next
      case (Inr u)
      define d2 where "d2 = snd (os_remove (path_dir (ev_path e)) d1)"
      note o = evict_one [OF "2.prems"(2,3) rm [unfolded Inr] d2_def]
      have "evict_files es (c\<lparr>ca_size := ca_size c - ev_size e\<rparr>) d2 = (c', d')"
        using False rm Inr "2.prems"(1) by (simp add: d2_def)
      then have IH: "disk_wf d' \<and> dk_file d' \<subseteq>\<^sub>m dk_file d2 \<and> same_env d2 d' \<and>
          used_below dir d' - ca_size c' = used_below dir d2 - (ca_size c - ev_size e) \<and>
          ca_cap c' = ca_cap c \<and> ca_dir c' = ca_dir c \<and> ca_size c' \<le> ca_size c - ev_size e"
        using "2.IH"(2) [OF False rm [symmetric] Inr] o(1,6) by (simp add: d2_def)
      moreover have "dk_file d2 \<subseteq>\<^sub>m dk_file d" by (auto simp: o(3) map_le_def)
      moreover have "0 \<le> ev_size e" using "2.prems"(3) by (auto simp: entries_of_def)
      ultimately show ?thesis
        using o(4,5) by (auto intro: same_env_trans map_le_trans)
    qed
  qed (use "2.prems" in simp)
qed simp

section \<open>Entries from a walk\<close>

lemma map_fst_walk_files:
  "walk_files dir fs d = (rs, d') \<Longrightarrow> map fst rs = map fst (filter (\<lambda>x. below dir (fst x)) fs)"
  by (induction dir fs d arbitrary: rs d' rule: walk_files.induct) (auto split: prod.splits if_splits)

lemma evict_entries_Cons:
  "evict_entries ((p, r) # rs) =
    (case r of Inl _ \<Rightarrow> [] | Inr f \<Rightarrow> [\<lparr>ev_path = p, ev_size = file_size f, ev_mtime = f_mtime f\<rparr>]) @ evict_entries rs"
  by (cases r) (simp_all add: evict_entries_def map_filter_simps)

lemma evict_entries_Nil [simp]: "evict_entries [] = []"
  by (simp add: evict_entries_def map_filter_simps)

lemma in_evict_entries:
  "e \<in> set (evict_entries rs) \<Longrightarrow>
    \<exists>f. (ev_path e, Inr f) \<in> set rs \<and> ev_size e = file_size f \<and> ev_mtime e = f_mtime f"
  by (induction rs) (fastforce simp: evict_entries_Cons split: sum.splits)+

lemma distinct_evict_entries: "distinct (map fst rs) \<Longrightarrow> distinct (map ev_path (evict_entries rs))"
proof (induction rs)
  case (Cons x rs)
  have "fst x \<notin> ev_path ` set (evict_entries rs)"
    using Cons.prems by (auto dest!: in_evict_entries simp: image_iff)
  then show ?case using Cons by (cases x) (auto simp: evict_entries_Cons split: sum.splits)
qed simp

lemma os_walk_entries:
  assumes "os_walk dir d = (rs, d')" "disk_wf d"
  shows "entries_of dir d' (evict_entries rs)" "dk_files d' = dk_files d" "dk_dirs d' = dk_dirs d"
    "same_env d d'"
proof -
  obtain r d1 where call: "os_call d = (r, d1)" by force
  note c = os_call_effect [OF call]
  have "entries_of dir d' (evict_entries rs) \<and> dk_files d' = dk_files d \<and> dk_dirs d' = dk_dirs d \<and> same_env d d'"
  proof (cases r)
    case (Some e)
    then show ?thesis
      using assms(1) call c by (auto simp: os_walk_def evict_entries_Cons entries_of_def)
  next
    case None
    then have w: "walk_files dir (dk_files d) d1 = (rs, d')"
      using assms(1) call by (simp add: os_walk_def)
    note eff = walk_files_effect [OF w]
    have "distinct (map fst rs)"
      using map_fst_walk_files [OF w] distinct_akeys_filter [OF disk_wf_distinct [OF assms(2)]]
      by (simp add: akeys_def)
    moreover have "below dir (ev_path e) \<and> (\<exists>f. dk_file d' (ev_path e) = Some f \<and> ev_size e = file_size f)"
      if e: "e \<in> set (evict_entries rs)" for e
    proof -
      obtain f where f: "(ev_path e, Inr f) \<in> set rs" "ev_size e = file_size f"
        using in_evict_entries [OF e] by blast
      have "(ev_path e, f) \<in> set (dk_files d')" "below dir (ev_path e)"
        using walk_files_sound [OF w f(1)] eff c by auto
      then show ?thesis
        using f(2) disk_wf_distinct [OF assms(2)] eff c by (auto simp: dk_file_def akeys_def)
    qed
    ultimately show ?thesis
      using eff c by (auto simp: entries_of_def distinct_evict_entries intro: same_env_trans)
  qed
  then show "entries_of dir d' (evict_entries rs)" "dk_files d' = dk_files d" "dk_dirs d' = dk_dirs d"
    "same_env d d'" by simp_all
qed

lemma entries_of_srt:
  assumes "slice_sorter ev_mtime srt" "entries_of dir d es"
  shows "entries_of dir d (srt es)"
  using assms slice_sorter.set_srt [OF assms(1)] slice_sorter.distinct_srt [OF assms(1), of ev_path es]
  by (simp add: entries_of_def)

lemma disk_wf_cong: "dk_files d' = dk_files d \<Longrightarrow> dk_dirs d' = dk_dirs d \<Longrightarrow> disk_wf d' = disk_wf d"
  by (simp add: disk_wf_def)

lemma evict_effect:
  assumes "evict srt c d = (c', d')" "slice_sorter ev_mtime srt" "disk_wf d"
  shows "disk_wf d'" "dk_file d' \<subseteq>\<^sub>m dk_file d" "same_env d d'"
    "used_below (ca_dir c) d' - ca_size c' = used_below (ca_dir c) d - ca_size c"
    "ca_cap c' = ca_cap c" "ca_dir c' = ca_dir c" "ca_size c' \<le> ca_size c"
proof -
  obtain rs d1 where w: "os_walk (ca_dir c) d = (rs, d1)" by force
  note eff = os_walk_entries [OF w assms(3)]
  have ev: "evict_files (srt (evict_entries rs)) c d1 = (c', d')" using assms(1) w by (simp add: evict_def)
  have wf1: "disk_wf d1" using disk_wf_cong [OF eff(2,3)] assms(3) by simp
  note f = evict_files_effect [OF ev wf1 entries_of_srt [OF assms(2) eff(1)]]
  have "dk_file d1 = dk_file d" "used_below (ca_dir c) d1 = used_below (ca_dir c) d"
    using eff(2) by (simp_all add: dk_file_def used_below_def)
  with f show "disk_wf d'" "dk_file d' \<subseteq>\<^sub>m dk_file d" "same_env d d'"
    "used_below (ca_dir c) d' - ca_size c' = used_below (ca_dir c) d - ca_size c"
    "ca_cap c' = ca_cap c" "ca_dir c' = ca_dir c" "ca_size c' \<le> ca_size c"
    using same_env_trans [OF eff(4)] by simp_all
qed

section \<open>Eviction without failures keeps what fits\<close>

definition no_faults :: "disk \<Rightarrow> bool" where
  "no_faults d \<longleftrightarrow> (\<forall>n. dk_fault d n = None)"

lemma no_faults_env: "same_env d d' \<Longrightarrow> no_faults d \<Longrightarrow> no_faults d'"
  by (simp add: same_env_def no_faults_def)

text \<open>The entries as a recency list, most recent first.\<close>

definition recency :: "evict_entry list \<Rightarrow> (path \<times> int) list" where
  "recency es = rev (map (\<lambda>e. (ev_path e, ev_size e)) es)"

lemma evict_files_lru:
  assumes "evict_files es c d = (c', d')" "disk_wf d" "entries_of dir d es" "no_faults d"
    and "ca_size c = total nat (recency es)"
  shows "dk_file d' = (\<lambda>q. if q \<in> ev_path ` set es \<and> q \<notin> fst ` set (fitting nat (ca_cap c) (recency es))
      then None else dk_file d q) \<and> ca_size c' = total nat (fitting nat (ca_cap c) (recency es))"
  using assms
proof (induction es c d rule: evict_files.induct)
  case (2 e es c d)
  have rec: "recency (e # es) = recency es @ [(ev_path e, ev_size e)]"
    by (simp add: recency_def)
  have keys: "fst ` set (recency xs) = ev_path ` set xs" for xs
    by (force simp: recency_def)
  show ?case
  proof (cases "ca_size c \<le> ca_cap c")
    case True
    then have "fitting nat (ca_cap c) (recency (e # es)) = recency (e # es)"
      using "2.prems"(5) by (intro fitting_all) simp
    then show ?thesis
      using "2.prems"(1,5) True keys [of "e # es"] by auto
  next
    case False
    obtain r d1 where rm: "os_remove (ev_path e) d = (r, d1)" by force
    have "dk_file d (ev_path e) \<noteq> None" using "2.prems"(3) by (auto simp: entries_of_def)
    then have r: "r = Inr ()"
      using os_remove_ok [of d "ev_path e"] "2.prems"(4) rm by (simp add: no_faults_def)
    define d2 where "d2 = snd (os_remove (path_dir (ev_path e)) d1)"
    note o = evict_one [OF "2.prems"(2,3) rm [unfolded r] d2_def]
    have ev: "evict_files es (c\<lparr>ca_size := ca_size c - ev_size e\<rparr>) d2 = (c', d')"
      using False rm r "2.prems"(1) by (simp add: d2_def)
    have pos: "0 \<le> ev_size e" using "2.prems"(3) by (auto simp: entries_of_def)
    have "ca_size c - ev_size e = total nat (recency es)"
      using "2.prems"(5) pos by (simp add: rec)
    then have IH: "dk_file d' = (\<lambda>q. if q \<in> ev_path ` set es \<and> q \<notin> fst ` set (fitting nat (ca_cap c) (recency es))
        then None else dk_file d2 q) \<and> ca_size c' = total nat (fitting nat (ca_cap c) (recency es))"
      using "2.IH"(2) [OF False rm [symmetric] r, folded d2_def] ev o(1,6) no_faults_env [OF o(4) "2.prems"(4)]
      by simp
    have fit: "fitting nat (ca_cap c) (recency (e # es)) = fitting nat (ca_cap c) (recency es)"
      using False "2.prems"(5) unfolding rec by (intro fitting_snoc) simp
    have "ev_path e \<notin> ev_path ` set es" using "2.prems"(3) by (simp add: entries_of_def)
    moreover have "fst ` set (fitting nat (ca_cap c) (recency es)) \<subseteq> ev_path ` set es"
      using fitting_prefix [of nat "ca_cap c" "recency es"] keys [of es] set_mono_prefix by blast
    ultimately show ?thesis
      using IH unfolding fit o(3) by (auto simp: fun_eq_iff)
  qed
qed (simp add: recency_def)

end
