(* ===== verification/Disk_Props.thy ===== *)
theory Disk_Props
  imports Disk_Effects
begin

text \<open>
  The disk cache as a provider of the cache interface, and its properties: writes are all or
  nothing under any pattern of failures, what was written is read back, the byte count is
  exact and bounded, and eviction keeps the most recent files that fit.  The last property
  shows the count drift under concurrent writes of one key.
\<close>

section \<open>Paths of keys\<close>

lemma proper_temp: "slash \<notin> set r \<Longrightarrow> proper (temp_prefix @ r)"
  by (auto simp: proper_def temp_prefix_def)

definition plain_rand :: "disk \<Rightarrow> bool" where
  "plain_rand d \<longleftrightarrow> (\<forall>n. slash \<notin> set (dk_rand d n))"

lemma temp_names_base:
  assumes "plain_rand d" "has_prefix dir ''/''" "t \<in> temp_names d (path_join [dir, key])"
  shows "has_prefix (path_base t) temp_prefix"
proof -
  let ?segs = "psegs (dir @ ''/'' @ key)"
  obtain n where t: "t = path_join [path_dir (abs_path ?segs), temp_prefix @ dk_rand d n]"
    using assms(3) by (auto simp: temp_names_def path_join_rooted [OF assms(2)])
  have r: "proper (temp_prefix @ dk_rand d n)" using assms(1) by (simp add: plain_rand_def proper_temp)
  have "proper_segs (butlast ?segs @ [temp_prefix @ dk_rand d n])"
    using proper_butlast [OF proper_psegs] r by simp
  then have "path_base t = temp_prefix @ dk_rand d n"
    using r proper_butlast [OF proper_psegs]
    by (simp add: t path_dir_abs_path path_join_snoc path_base_abs_path)
  then show ?thesis by (simp add: has_prefix_iff)
qed

section \<open>Every branch of a write\<close>

lemma evict_files_le: "dk_file (snd (evict_files es c d)) \<subseteq>\<^sub>m dk_file d"
proof (induction es c d rule: evict_files.induct)
  case (2 e es c d)
  have rm: "dk_file (snd (os_remove p x)) \<subseteq>\<^sub>m dk_file x" for p x
    using os_remove_effect(4) [of p x "fst (os_remove p x)" "snd (os_remove p x)"]
    by (auto simp: dk_file_def disk_simps map_le_def split: if_splits)
  obtain r d1 where r: "os_remove (ev_path e) d = (r, d1)" by force
  have d1: "dk_file d1 \<subseteq>\<^sub>m dk_file d" using rm [of "ev_path e" d] r by simp
  show ?case
    using 2 r d1 map_le_trans [OF _ d1] map_le_trans [OF _ map_le_trans [OF rm d1]]
    by (cases r) auto
qed simp

lemma evict_le: "dk_file (snd (evict srt c d)) \<subseteq>\<^sub>m dk_file d"
proof -
  obtain rs d1 where w: "os_walk (ca_dir c) d = (rs, d1)" by force
  have "dk_files d1 = dk_files d"
    using w walk_files_effect os_call_effect
    by (fastforce simp: os_walk_def split: prod.splits option.splits)
  then show ?thesis
    using evict_files_le [of "srt (evict_entries rs)" c d1] w by (simp add: evict_def dk_file_def)
qed

text \<open>The outcomes of the accounting: nothing to do, an error of the second \<open>Stat\<close>, or an updated
  count and perhaps an eviction.\<close>

lemma account_file_cases:
  assumes "account_file srt c p old d = ((err, c'), d')"
  obtains (unbounded) "ca_cap c \<le> 0" "err = None" "c' = c" "d' = d"
  | (failed) e where "0 < ca_cap c" "err = Some e" "c' = c" "os_stat p d = (Inl e, d')"
  | (counted) info where "0 < ca_cap c" "err = None" "os_stat p d = (Inr info, d')"
      "c' = c\<lparr>ca_size := ca_size c + (fi_size info - old)\<rparr>" "ca_size c' \<le> ca_cap c'"
  | (evicted) info d1 where "0 < ca_cap c" "err = None" "os_stat p d = (Inr info, d1)"
      "evict srt (c\<lparr>ca_size := ca_size c + (fi_size info - old)\<rparr>) d1 = (c', d')"
      "ca_cap c < ca_size c + (fi_size info - old)"
proof -
  obtain r d1 where st: "os_stat p d = (r, d1)" by force
  show thesis
  proof (cases "ca_cap c \<le> 0")
    case True
    then show thesis using assms by (intro unbounded) (simp_all add: account_file_def)
  next
    case pos: False
    show thesis
    proof (cases r)
      case (Inl e)
      then show thesis using assms pos st by (intro failed [of e]) (simp_all add: account_file_def)
    next
      case (Inr info)
      let ?c = "c\<lparr>ca_size := ca_size c + (fi_size info - old)\<rparr>"
      obtain c2 d2 where ev: "evict srt ?c d1 = (c2, d2)" by force
      show thesis
      proof (cases "ca_cap c < ca_size c + (fi_size info - old)")
        case True
        then show thesis
          using assms pos st Inr ev by (intro evicted [of info d1]) (simp_all add: account_file_def Let_def)
      next
        case False
        then have "err = None" "c' = ?c" "d' = d1"
          using assms pos st Inr by (simp_all add: account_file_def Let_def)
        then show thesis using False pos st Inr by (intro counted [of info]) simp_all
      qed
    qed
  qed
qed

lemma account_file_le:
  assumes "account_file srt c p old d = ((err, c'), d')"
  shows "dk_file d' \<subseteq>\<^sub>m dk_file d"
  using assms
proof (cases rule: account_file_cases)
  case (evicted info d1)
  then show ?thesis
    using evict_le [of srt "c\<lparr>ca_size := ca_size c + (fi_size info - old)\<rparr>" d1] os_stat_effect [OF evicted(3)]
    by (simp add: dk_file_def)
qed (use os_stat_effect in \<open>force simp: dk_file_def\<close>)+

lemma account_file_unbounded: "ca_cap c \<le> 0 \<Longrightarrow> account_file srt c p old d = ((None, c), d)"
  by (simp add: account_file_def)

lemma account_file_error:
  assumes "account_file srt c p old d = ((Some e, c'), d')"
  shows "c' = c \<and> dk_file d' = dk_file d"
  using assms by (cases rule: account_file_cases) (use os_stat_effect in \<open>force simp: dk_file_def\<close>)+

lemma old_size_effect:
  "old_size p d = (n, d') \<Longrightarrow> dk_files d' = dk_files d \<and> dk_dirs d' = dk_dirs d \<and> same_env d d'"
  using os_stat_effect [of p d] by (auto simp: old_size_def split: prod.splits sum.splits)

lemma cache_write_cases:
  assumes "cache_write srt c key out ferr d = ((err, c'), d')"
  obtains (failed) old d1 tmp e d2 where "old_size (cache_path c key) d = (old, d1)"
      "store_file (cache_path c key) out ferr d1 = ((tmp, Some e), d2)" "err = Some e" "c' = c"
      "d' = remove_temp tmp d2"
  | (stored) old d1 tmp d2 d3 where "old_size (cache_path c key) d = (old, d1)"
      "store_file (cache_path c key) out ferr d1 = ((tmp, None), d2)"
      "account_file srt c (cache_path c key) old d2 = ((err, c'), d3)" "d' = remove_temp tmp d3"
proof -
  obtain old d1 where o: "old_size (cache_path c key) d = (old, d1)" by force
  obtain tmp se d2 where s: "store_file (cache_path c key) out ferr d1 = ((tmp, se), d2)" by (metis surj_pair)
  obtain ae c2 d3 where a: "account_file srt c (cache_path c key) old d2 = ((ae, c2), d3)" by (metis surj_pair)
  show thesis
  proof (cases se)
    case None
    with o s a assms show thesis
      by (intro stored [of old d1 tmp d2 d3]) (simp_all add: cache_write_def finish_write_def)
  next
    case (Some e)
    with o s assms show thesis
      by (intro failed [of old d1 tmp e d2]) (simp_all add: cache_write_def finish_write_def)
  qed
qed

text \<open>The file system after a write, on its two outcomes.\<close>

lemma write_files_error:
  assumes "store_file p out ferr d = ((tmp, Some e), d')" "q \<notin> temp_names d p"
  shows "dk_file (remove_temp tmp d') q = dk_file d q"
  using assms(1)
proof (cases rule: store_file_cases)
  case (left t f e')
  then show ?thesis
    using remove_temp_effect [of t d'] assms(2) by (auto simp: fun_upd_def)
qed (simp_all add: dk_file_def)

lemma write_files_stored:
  assumes "store_file p out ferr d = ((tmp, None), d1)" "dk_file d2 \<subseteq>\<^sub>m dk_file d1" "q \<notin> temp_names d p"
  shows "\<exists>f. f_bytes f = out \<and> dk_file d1 = (dk_file d)(p \<mapsto> f) \<and> dk_file (remove_temp tmp d2) q = dk_file d2 q"
  using assms(1)
proof (cases rule: store_file_cases)
  case (stored t m0 m)
  have "dk_file d1 = (dk_file d)(p \<mapsto> \<lparr>f_bytes = out, f_mtime = m\<rparr>)"
    using stored_files [OF stored(5,6)] .
  moreover have "dk_file (remove_temp tmp d2) q = dk_file d2 q"
    using remove_temp_effect [of t d2] stored(1,4) assms(3) by (auto simp: fun_upd_def)
  ultimately show ?thesis by (intro exI [of _ "\<lparr>f_bytes = out, f_mtime = m\<rparr>"]) simp
qed simp_all

lemma map_le_cases: "f \<subseteq>\<^sub>m g \<Longrightarrow> f x = g x \<or> f x = None"
  by (cases "f x") (auto simp: map_le_def dom_def)

lemma cache_write_atomic:
  assumes "cache_write srt c key out ferr d = ((err, c'), d')" "p = cache_path c key" "p \<notin> temp_names d p"
  shows "(case err of
      Some e \<Rightarrow> c' = c \<and> (dk_file d' p = dk_file d p \<or> map_option f_bytes (dk_file d' p) = Some out) \<and>
        (\<forall>q. q \<noteq> p \<and> q \<notin> temp_names d p \<longrightarrow> dk_file d' q = dk_file d q)
    | None \<Rightarrow> ferr = None \<and>
        (map_option f_bytes (dk_file d' p) = Some out \<or> 0 < ca_cap c \<and> dk_file d' p = None) \<and>
        (\<forall>q. q \<noteq> p \<and> q \<notin> temp_names d p \<longrightarrow>
           dk_file d' q = dk_file d q \<or> 0 < ca_cap c \<and> dk_file d' q = None))"
  using assms(1)
proof (cases rule: cache_write_cases)
  case (failed old d1 tmp e d2)
  have d1: "dk_file d1 = dk_file d" "temp_names d1 p = temp_names d p"
    using old_size_effect [OF failed(1)] by (simp_all add: dk_file_def temp_names_def same_env_def)
  show ?thesis
    using write_files_error [OF failed(2), folded assms(2)] failed(3-5) assms(3) d1 by simp
next
  case (stored old d1 tmp d2 d3)
  have d1: "dk_file d1 = dk_file d" "temp_names d1 p = temp_names d p"
    using old_size_effect [OF stored(1)] by (simp_all add: dk_file_def temp_names_def same_env_def)
  have le: "dk_file d3 \<subseteq>\<^sub>m dk_file d2" using account_file_le [OF stored(3)] .
  have ferr: "ferr = None" using stored(2) by (cases rule: store_file_cases) simp_all
  have all: "\<exists>f. f_bytes f = out \<and> dk_file d2 = (dk_file d)(p \<mapsto> f) \<and> dk_file d' q = dk_file d3 q"
    if "q \<notin> temp_names d p" for q
    using write_files_stored [OF stored(2) le, folded assms(2), of q] that d1 stored(4) by simp
  show ?thesis
  proof (cases err)
    case (Some e)
    then have "c' = c" "dk_file d3 = dk_file d2" using account_file_error stored(3) by blast+
    then show ?thesis using Some all assms(3) by (force simp: fun_upd_def)
  next
    case None
    have "dk_file d3 = dk_file d2" if "\<not> 0 < ca_cap c"
      using stored(3) account_file_unbounded [of c] that by simp
    moreover note map_le_cases [OF le]
    ultimately show ?thesis
      using None ferr all assms(3) by simp (metis fun_upd_apply option.simps(9))
  qed
qed

text \<open>C24. A write, alone on its cache, is all or nothing, whatever system calls fail.  If it reports an error, the
  count is unchanged, the file under the key is the old one or the complete new one, and no
  other file but a temporary one differs.  If it reports success, the callback did not fail and
  the key holds the complete new content, every other file is unchanged; with a capacity the
  eviction may have removed any of them.\<close>

theorem disk_write_atomic:
  assumes "cache_write srt c key out ferr d = ((err, c'), d')" "p = cache_path c key" "p \<notin> temp_names d p"
  shows "(case err of
      Some e \<Rightarrow> c' = c \<and> (dk_file d' p = dk_file d p \<or> map_option f_bytes (dk_file d' p) = Some out) \<and>
        (\<forall>q. q \<noteq> p \<and> q \<notin> temp_names d p \<longrightarrow> dk_file d' q = dk_file d q)
    | None \<Rightarrow> ferr = None \<and>
        (map_option f_bytes (dk_file d' p) = Some out \<or> 0 < ca_cap c \<and> dk_file d' p = None) \<and>
        (\<forall>q. q \<noteq> p \<and> q \<notin> temp_names d p \<longrightarrow>
           dk_file d' q = dk_file d q \<or> 0 < ca_cap c \<and> dk_file d' q = None))"
  by (rule cache_write_atomic [OF assms])

section \<open>The disk cache as a provider\<close>

text \<open>The cache and the disk as one state, for keys that do not name temporary files.  A fetch is
  \<open>Open\<close> and reading to the end, either of which may fail; a store is \<open>Write\<close> with a callback that does not fail.\<close>

definition disk_lookup :: "cache \<times> disk \<Rightarrow> string \<rightharpoonup> bytes" where
  "disk_lookup s k = map_option f_bytes (dk_file (snd s) (cache_path (fst s) k))"

definition disk_fetch :: "string \<Rightarrow> cache \<times> disk \<Rightarrow> bytes option \<times> cache \<times> disk" where
  "disk_fetch k s = (case cache_open (fst s) k (snd s) of
     (Inl _, d1) \<Rightarrow> (None, fst s, d1)
   | (Inr h, d1) \<Rightarrow> (case os_read h d1 of
       (Inl _, d2) \<Rightarrow> (None, fst s, d2)
     | (Inr b, d2) \<Rightarrow> (Some b, fst s, d2)))"

definition disk_store ::
  "(evict_entry list \<Rightarrow> evict_entry list) \<Rightarrow> string \<Rightarrow> bytes \<Rightarrow> cache \<times> disk \<Rightarrow> cache \<times> disk" where
  "disk_store srt k v s = (case cache_write srt (fst s) k v None (snd s) of ((_, c'), d') \<Rightarrow> (c', d'))"

definition disk_inv :: "path \<Rightarrow> cache \<times> disk \<Rightarrow> bool" where
  "disk_inv dir s \<longleftrightarrow> ca_dir (fst s) = dir \<and> has_prefix dir ''/'' \<and> plain_rand (snd s)"

definition valid_key :: "path \<Rightarrow> string \<Rightarrow> bool" where
  "valid_key dir k \<longleftrightarrow> \<not> has_prefix (path_base (path_join [dir, k])) temp_prefix"

lemma valid_key_temp:
  "disk_inv dir (c, d) \<Longrightarrow> valid_key dir k \<Longrightarrow> path_join [dir, k] \<notin> temp_names d (path_join [dir, k'])"
  using temp_names_base [of d dir] by (auto simp: disk_inv_def valid_key_def)

lemma os_open_effect: "os_open p d = (r, d') \<Longrightarrow> dk_files d' = dk_files d \<and> dk_dirs d' = dk_dirs d \<and> same_env d d' \<and>
    (\<forall>b. r = Inr (FileHandle b) \<longrightarrow> map_option f_bytes (dk_file d p) = Some b)"
  by (auto simp: os_open_def os_call_def same_env_def split: option.splits if_splits)

lemma os_chtimes_effect:
  "map_option f_bytes \<circ> dk_file (snd (os_chtimes p t d)) = map_option f_bytes \<circ> dk_file d"
  "same_env d (snd (os_chtimes p t d))"
  by (auto simp: os_chtimes_def os_call_def same_env_def dk_file_def disk_simps fun_eq_iff split: option.splits)

lemma cache_open_effect:
  assumes "cache_open c k d = (r, d')"
  shows "map_option f_bytes \<circ> dk_file d' = map_option f_bytes \<circ> dk_file d" "same_env d d'"
    "r = Inr (FileHandle b) \<Longrightarrow> map_option f_bytes (dk_file d (cache_path c k)) = Some b"
proof -
  obtain r1 d1 where o: "os_open (cache_path c k) d = (r1, d1)" by force
  note eff = os_open_effect [OF o]
  have d': "r = r1" "d' = d1 \<or> d' = snd (os_chtimes (cache_path c k) (os_now d1) d1)"
    using assms o by (auto simp: cache_open_def Let_def split: sum.splits)
  show "map_option f_bytes \<circ> dk_file d' = map_option f_bytes \<circ> dk_file d" "same_env d d'"
    using d'(2) eff os_chtimes_effect [where p = "cache_path c k" and t = "os_now d1" and d = d1]
    by (auto simp: dk_file_def intro: same_env_trans)
  show "r = Inr (FileHandle b) \<Longrightarrow> map_option f_bytes (dk_file d (cache_path c k)) = Some b"
    using eff d'(1) by simp
qed

lemma remove_temp_env: "same_env d (remove_temp tmp d)"
  using os_remove_effect(1) [where r = "fst (os_remove (the tmp) d)" and d' = "snd (os_remove (the tmp) d)"]
  by (cases tmp) (auto simp: remove_temp_def)

lemma call_rand:
  "os_mkdir_all p d = (r, d') \<Longrightarrow> disk_env d' = disk_env d"
  "os_create_temp p d = (r', d') \<Longrightarrow> disk_env d' = disk_env d"
  "os_write p out d = (r'', d') \<Longrightarrow> disk_env d' = disk_env d"
  "os_close d = (r, d') \<Longrightarrow> disk_env d' = disk_env d"
  "os_rename p q d = (r, d') \<Longrightarrow> disk_env d' = disk_env d"
  using os_mkdir_all_effect [of p d r d'] os_create_temp_effect(2) [of p d r' d'] os_close_effect [of d r d']
    os_rename_effect(2) [of p q d r d'] os_write_effect(2) [of p out d r'' d']
  by (auto simp: same_env_def disk_env_def)

lemma store_file_env:
  assumes "store_file p out ferr d = ((tmp, err), d')"
  shows "disk_env d' = disk_env d"
proof -
  obtain r1 d1 where mk: "os_mkdir_all (path_dir p) d = (r1, d1)" by force
  obtain r2 d2 where ct: "os_create_temp (path_dir p) d1 = (r2, d2)" by force
  obtain werr d3 where wr: "os_write (projr r2) out d2 = (werr, d3)" by force
  obtain r4 d4 where cl: "os_close d3 = (r4, d4)" by force
  obtain r5 d5 where rn: "os_rename (projr r2) p d4 = (r5, d5)" by force
  note rands = call_rand(1) [OF mk] call_rand(2) [OF ct] call_rand(3) [OF wr] call_rand(4) [OF cl]
    call_rand(5) [OF rn]
  show ?thesis
    using assms mk ct wr cl rn rands
    by (cases r1; cases r2; cases "case werr of None \<Rightarrow> ferr | Some e \<Rightarrow> Some e"; cases r4; cases r5)
      (simp_all add: store_file_def)
qed

lemma evict_files_env: "disk_env (snd (evict_files es c d)) = disk_env d"
proof (induction es c d rule: evict_files.induct)
  case (2 e es c d)
  have rm: "disk_env (snd (os_remove p x)) = disk_env x" for p x
    using os_remove_effect(1) [of p x "fst (os_remove p x)" "snd (os_remove p x)"] by (simp add: same_env_def disk_env_def)
  obtain r d1 where r: "os_remove (ev_path e) d = (r, d1)" by force
  then have "disk_env d1 = disk_env d" using rm [of "ev_path e" d] by simp
  then show ?case using 2 r rm by (cases r) auto
qed simp

lemma evict_env: "disk_env (snd (evict srt c d)) = disk_env d"
proof -
  obtain rs d1 where w: "os_walk (ca_dir c) d = (rs, d1)" by force
  have "disk_env d1 = disk_env d"
    using w walk_files_effect os_call_effect
    by (fastforce simp: os_walk_def same_env_def disk_env_def split: prod.splits option.splits)
  then show ?thesis using evict_files_env w by (simp add: evict_def)
qed

lemma evict_cache: "ca_dir (fst (evict srt c d)) = ca_dir c \<and> ca_cap (fst (evict srt c d)) = ca_cap c"
proof -
  have "ca_dir (fst (evict_files es c d)) = ca_dir c \<and> ca_cap (fst (evict_files es c d)) = ca_cap c" for es c d
    by (induction es c d rule: evict_files.induct) (auto split: prod.splits sum.splits)
  then show ?thesis by (simp add: evict_def split: prod.splits)
qed

lemma account_file_env:
  assumes "account_file srt c p old d = ((err, c'), d')"
  shows "disk_env d' = disk_env d" "ca_dir c' = ca_dir c"
proof -
  have "disk_env d' = disk_env d \<and> ca_dir c' = ca_dir c"
    using assms
  proof (cases rule: account_file_cases)
    case (evicted info d1)
    then show ?thesis
      using evict_env [of srt "c\<lparr>ca_size := ca_size c + (fi_size info - old)\<rparr>" d1]
        evict_cache [of srt "c\<lparr>ca_size := ca_size c + (fi_size info - old)\<rparr>" d1] os_stat_effect [OF evicted(3)]
      by (simp add: same_env_def disk_env_def)
  qed (use os_stat_effect in \<open>force simp: same_env_def disk_env_def\<close>)+
  then show "disk_env d' = disk_env d" "ca_dir c' = ca_dir c" by simp_all
qed

lemma cache_write_env:
  assumes "cache_write srt c k out ferr d = ((err, c'), d')"
  shows "disk_env d' = disk_env d \<and> ca_dir c' = ca_dir c"
  using assms
proof (cases rule: cache_write_cases)
  case (failed old d1 tmp e d2)
  then show ?thesis
    using old_size_effect [OF failed(1)] store_file_env [OF failed(2)] remove_temp_env [of d2 tmp]
    by (simp add: same_env_def disk_env_def)
next
  case (stored old d1 tmp d2 d3)
  then show ?thesis
    using old_size_effect [OF stored(1)] store_file_env [OF stored(2)] remove_temp_env [of d3 tmp]
      account_file_env [OF stored(3)] by (simp add: same_env_def disk_env_def)
qed

text \<open>What a store leaves under a valid key.\<close>

lemma disk_lookup_store:
  assumes "disk_inv dir s" "valid_key dir k'" "disk_lookup (disk_store srt k v s) k' = Some v'"
  shows "disk_lookup s k' = Some v' \<or> path_join [dir, k'] = path_join [dir, k] \<and> v' = v"
proof -
  obtain c d where s: "s = (c, d)" by force
  have dir: "ca_dir c = dir" using assms(1) by (simp add: disk_inv_def s)
  let ?p = "path_join [dir, k]" and ?q = "path_join [dir, k']"
  have q: "?q \<notin> temp_names d ?p" using valid_key_temp assms(1,2) by (simp add: s)
  obtain err c' d' where w: "cache_write srt c k v None d = ((err, c'), d')" by (metis surj_pair)
  have dir': "ca_dir c' = dir" using cache_write_env [OF w] dir by simp
  have v': "map_option f_bytes (dk_file d' ?q) = Some v'"
    using assms(3) w dir' by (simp add: disk_lookup_def disk_store_def s cache_path_def)
  have p: "cache_path c k = ?p" by (simp add: cache_path_def dir)
  have look: "disk_lookup s k' = map_option f_bytes (dk_file d ?q)"
    by (simp add: disk_lookup_def s cache_path_def dir)
  show ?thesis
    using w
  proof (cases rule: cache_write_cases)
    case (failed old d1 tmp e d2)
    have d1: "dk_file d1 = dk_file d" "temp_names d1 ?p = temp_names d ?p"
      using old_size_effect [OF failed(1)] by (simp_all add: dk_file_def temp_names_def same_env_def)
    then show ?thesis
      using write_files_error [OF failed(2), unfolded p, of ?q] q v' failed(5) look by simp
  next
    case (stored old d1 tmp d2 d3)
    have d1: "dk_file d1 = dk_file d" "temp_names d1 ?p = temp_names d ?p"
      using old_size_effect [OF stored(1)] by (simp_all add: dk_file_def temp_names_def same_env_def)
    have le: "dk_file d3 \<subseteq>\<^sub>m dk_file d2" using account_file_le [OF stored(3)] .
    obtain f where f: "f_bytes f = v" "dk_file d2 = (dk_file d)(?p \<mapsto> f)" "dk_file d' ?q = dk_file d3 ?q"
      using write_files_stored [OF stored(2) le, unfolded p, of ?q] q d1 stored(4) by auto
    then have "dk_file d' ?q = dk_file d2 ?q"
      using map_le_cases [OF le, of ?q] v' by auto
    with f v' look show ?thesis by (auto split: if_splits)
  qed
qed

lemma disk_fetch_cases:
  assumes "disk_fetch k s = (b, s')"
  obtains r d1 d2 where "cache_open (fst s) k (snd s) = (r, d1)" "s' = (fst s, d2)" "dk_files d2 = dk_files d1"
    "dk_dirs d2 = dk_dirs d1" "same_env d1 d2" "\<And>x. b = Some x \<Longrightarrow> r = Inr (FileHandle x)"
proof -
  obtain r d1 where o: "cache_open (fst s) k (snd s) = (r, d1)" by force
  show thesis
  proof (cases r)
    case (Inl e)
    then show ?thesis using that [OF o, of d1] assms o by (simp add: disk_fetch_def)
  next
    case (Inr h)
    obtain q d2 where rd: "os_read h d1 = (q, d2)" by force
    then have "s' = (fst s, d2)" "b = Some x \<Longrightarrow> q = Inr x" for x
      using assms o Inr by (auto simp: disk_fetch_def split: sum.splits)
    then show ?thesis using that [OF o, of d2] os_read_effect [OF rd] Inr by auto
  qed
qed

interpretation disk: caching disk_lookup disk_fetch "disk_store srt" "disk_inv dir"
  "\<lambda>k. path_join [dir, k]" "valid_key dir" for srt dir
proof
  fix s :: "cache \<times> disk" and k k' v v'
  assume inv: "disk_inv dir s"
  obtain c d where s: "s = (c, d)" by force
  obtain b s1 where f: "disk_fetch k s = (b, s1)" by (meson surj_pair)
  then obtain r d1 d2 where o: "cache_open c k d = (r, d1)" "s1 = (c, d2)" "dk_files d2 = dk_files d1"
    "same_env d1 d2" "\<And>x. b = Some x \<Longrightarrow> r = Inr (FileHandle x)"
    by (auto simp: s elim: disk_fetch_cases)
  note eff = cache_open_effect [OF o(1)]
  have env: "same_env d d2" using eff(2) o(4) by (rule same_env_trans)
  show "fst (disk_fetch k s) = Some v \<Longrightarrow> disk_lookup s k = Some v"
    using f o(5) eff(3) by (simp add: disk_lookup_def s)
  show "disk_lookup (snd (disk_fetch k s)) = disk_lookup s"
    unfolding f snd_conv o(2) disk_lookup_def using eff(1) o(3) by (auto simp: s fun_eq_iff dk_file_def)
  show "disk_inv dir (snd (disk_fetch k s))"
    unfolding f snd_conv o(2) disk_inv_def using inv env by (simp add: disk_inv_def s plain_rand_def same_env_def)
  show "disk_inv dir (disk_store srt k v s)"
    using inv cache_write_env
    by (force simp: disk_env_def disk_inv_def disk_store_def s plain_rand_def split: prod.splits)
  show "valid_key dir k' \<Longrightarrow> disk_lookup (disk_store srt k v s) k' = Some v' \<Longrightarrow>
      disk_lookup s k' = Some v' \<or> path_join [dir, k'] = path_join [dir, k] \<and> v' = v"
    by (rule disk_lookup_store [OF inv])
qed

text \<open>No call changes the pattern of failures.\<close>

lemma disk_store_env: "disk_env (snd (disk_store srt k v s)) = disk_env (snd s)"
  using cache_write_env by (fastforce simp: disk_store_def split: prod.splits)

lemma disk_fetch_env: "disk_env (snd (snd (disk_fetch k s))) = disk_env (snd s)"
proof -
  obtain b s1 where f: "disk_fetch k s = (b, s1)" by (meson surj_pair)
  then show ?thesis
    by (rule disk_fetch_cases) (use f cache_open_effect(2) in \<open>force simp: same_env_def disk_env_def\<close>)
qed

section \<open>Reading back\<close>

text \<open>What a successful write stored is what the next open of the key reads, or nothing (the
  eviction may have removed it again, or the open may fail); it is never other content.  In an
  unbounded cache and without failures the open succeeds.\<close>

theorem disk_write_read:
  assumes "disk_inv dir (c, d)" "valid_key dir key" "cache_write srt c key out None d = ((None, c'), d')"
    and "fst (disk_fetch key (c', d')) = Some b"
  shows "b = out"
proof -
  let ?p = "cache_path c key"
  have p: "?p = path_join [dir, key]" using assms(1) by (simp add: cache_path_def disk_inv_def)
  then have temp: "?p \<notin> temp_names d ?p" using valid_key_temp [OF assms(1,2)] by simp
  have dir': "ca_dir c' = ca_dir c" "dk_rand d' = dk_rand d" using cache_write_env [OF assms(3)] by (simp_all add: disk_env_def)
  then have inv': "disk_inv dir (c', d')" using assms(1) by (simp add: disk_inv_def plain_rand_def)
  from disk.fetch_result [OF inv' assms(2,4)] have "map_option f_bytes (dk_file d' ?p) = Some b"
    using dir' by (simp add: disk_lookup_def cache_path_def)
  moreover from assms(3) have "\<exists>f. dk_file d' ?p = None \<or> dk_file d' ?p = Some f \<and> f_bytes f = out"
  proof (cases rule: cache_write_cases)
    case (stored old d1 tmp d2 d3)
    have "temp_names d1 ?p = temp_names d ?p"
      using old_size_effect [OF stored(1)] by (simp add: temp_names_def same_env_def)
    then obtain f where f: "f_bytes f = out" "dk_file d2 = (dk_file d1)(?p \<mapsto> f)" "dk_file d' ?p = dk_file d3 ?p"
      using write_files_stored [OF stored(2) account_file_le [OF stored(3)]] temp stored(4) by metis
    then have "dk_file d' ?p = Some f \<or> dk_file d' ?p = None"
      using map_le_cases [OF account_file_le [OF stored(3)], of ?p] by simp
    with f(1) show ?thesis by blast
  qed simp
  ultimately show ?thesis by auto
qed

section \<open>Eviction is LRU\<close>

text \<open>The files below the directory as eviction sees them.\<close>

definition file_entries :: "path \<Rightarrow> disk \<Rightarrow> evict_entry list" where
  "file_entries dir d = map (\<lambda>(p, f). \<lparr>ev_path = p, ev_size = file_size f, ev_mtime = f_mtime f\<rparr>)
     (filter (\<lambda>(p, f). below dir p) (dk_files d))"

lemma evict_entries_map:
  "evict_entries (map (\<lambda>(p, f). (p, Inr f)) fs) =
    map (\<lambda>(p, f). \<lparr>ev_path = p, ev_size = file_size f, ev_mtime = f_mtime f\<rparr>) fs"
  by (induction fs) (auto simp: evict_entries_Cons)

lemma walk_no_faults:
  assumes "os_walk dir d = (rs, d')" "no_faults d"
  shows "evict_entries rs = file_entries dir d"
proof -
  obtain r d1 where call: "os_call d = (r, d1)" by force
  then have "r = None" "no_faults d1" using assms(2) by (auto simp: os_call_def no_faults_def)
  then show ?thesis
    using assms(1) call walk_files_list [of dir "dk_files d" d1 rs d']
    by (simp add: os_walk_def evict_entries_map file_entries_def no_faults_def)
qed

lemma total_file_entries: "total nat (recency (file_entries dir d)) = used_below dir d"
proof -
  have "total nat (recency (map (\<lambda>(p, f). \<lparr>ev_path = p, ev_size = file_size f, ev_mtime = f_mtime f\<rparr>)
      (filter (\<lambda>(p, f). below dir p) fs))) = fsum (below dir) fs" for fs
    by (induction fs) (auto simp: recency_def)
  then show ?thesis by (simp add: file_entries_def used_below_def)
qed

lemma total_recency_srt:
  assumes "slice_sorter ev_mtime srt"
  shows "total nat (recency (srt es)) = total nat (recency es)"
proof -
  have "total nat (recency xs) = (\<Sum>e \<leftarrow> xs. int (nat (ev_size e)))" for xs
    by (induction xs) (simp_all add: recency_def)
  then show ?thesis
    using slice_sorter.sum_list_srt [OF assms, of "\<lambda>e. int (nat (ev_size e))" es] by simp
qed

lemma keys_file_entries: "disk_wf d \<Longrightarrow> ev_path ` set (file_entries dir d) = {q. below dir q \<and> dk_file d q \<noteq> None}"
  using disk_wf_distinct [of d] by (force simp: file_entries_def dk_file_def akeys_def image_iff dest: map_of_SomeD)

lemma evict_lru:
  assumes "evict srt c d = (c', d')" "slice_sorter ev_mtime srt" "disk_wf d" "no_faults d"
    and "ca_size c = used_below (ca_dir c) d"
    and kept: "kept = fitting nat (ca_cap c) (recency (srt (file_entries (ca_dir c) d)))"
  shows "dk_file d' = (\<lambda>q. if below (ca_dir c) q \<and> q \<notin> fst ` set kept then None else dk_file d q)"
    "ca_size c' = total nat kept"
proof -
  obtain rs d1 where w: "os_walk (ca_dir c) d = (rs, d1)" by force
  note eff = os_walk_entries [OF w assms(3)] and es = walk_no_faults [OF w assms(4)]
  have ev: "evict_files (srt (evict_entries rs)) c d1 = (c', d')" using assms(1) w by (simp add: evict_def)
  have wf1: "disk_wf d1" using disk_wf_cong [OF eff(2,3)] assms(3) by simp
  have "ca_size c = total nat (recency (srt (evict_entries rs)))"
    using assms(5) by (simp add: total_recency_srt [OF assms(2)] es total_file_entries)
  from evict_files_lru [OF ev wf1 entries_of_srt [OF assms(2) eff(1)] no_faults_env [OF eff(4) assms(4)] this]
  have "dk_file d' = (\<lambda>q. if q \<in> ev_path ` set (file_entries (ca_dir c) d) \<and> q \<notin> fst ` set kept
      then None else dk_file d q) \<and> ca_size c' = total nat kept"
    using slice_sorter.set_srt [OF assms(2)] dk_file_cong [OF eff(2)]
    by (simp add: es kept cong del: if_weak_cong)
  then show "dk_file d' = (\<lambda>q. if below (ca_dir c) q \<and> q \<notin> fst ` set kept then None else dk_file d q)"
    "ca_size c' = total nat kept"
    by (auto simp: keys_file_entries [OF assms(3)] fun_eq_iff)
qed

text \<open>Whatever the count says: files go in the order of the entries, and as long as the count is above the capacity.\<close>

definition stops_at :: "evict_entry list \<Rightarrow> cache \<Rightarrow> nat \<Rightarrow> bool" where
  "stops_at es c n \<longleftrightarrow> n \<le> length es \<and>
     (\<forall>m < n. ca_cap c < ca_size c - (\<Sum>e \<leftarrow> take m es. ev_size e)) \<and>
     (n < length es \<longrightarrow> ca_size c - (\<Sum>e \<leftarrow> take n es. ev_size e) \<le> ca_cap c)"

definition dropped :: "evict_entry list \<Rightarrow> nat \<Rightarrow> disk \<Rightarrow> path \<Rightarrow> os_file option" where
  "dropped es n d = (\<lambda>q. if q \<in> ev_path ` set (take n es) then None else dk_file d q)"

lemma stops_at_Suc:
  assumes "ca_cap c < ca_size c" "stops_at es (c\<lparr>ca_size := ca_size c - ev_size e\<rparr>) n"
  shows "stops_at (e # es) c (Suc n)"
  using assms by (auto simp: stops_at_def take_Cons' less_Suc_eq_0_disj algebra_simps)

lemma evict_files_stops:
  assumes "evict_files es c d = (c', d')" "disk_wf d" "entries_of dir d es" "no_faults d"
  shows "\<exists>n. stops_at es c n \<and> dk_file d' = dropped es n d \<and>
    c' = c\<lparr>ca_size := ca_size c - (\<Sum>e \<leftarrow> take n es. ev_size e)\<rparr>"
  using assms
proof (induction es c d rule: evict_files.induct)
  case (1 c d)
  then show ?case by (intro exI [of _ 0]) (simp add: stops_at_def dropped_def)
next
  case (2 e es c d)
  show ?case
  proof (cases "ca_size c \<le> ca_cap c")
    case True
    then show ?thesis using "2.prems"(1) by (intro exI [of _ 0]) (simp add: stops_at_def dropped_def)
  next
    case False
    obtain r d1 where rm: "os_remove (ev_path e) d = (r, d1)" by force
    have "dk_file d (ev_path e) \<noteq> None" using "2.prems"(3) by (auto simp: entries_of_def)
    then have r: "r = Inr ()"
      using os_remove_ok [of d "ev_path e"] "2.prems"(4) rm by (simp add: no_faults_def)
    define d2 where "d2 = snd (os_remove (path_dir (ev_path e)) d1)"
    note o = evict_one [OF "2.prems"(2,3) rm [unfolded r] d2_def]
    have ev: "evict_files es (c\<lparr>ca_size := ca_size c - ev_size e\<rparr>) d2 = (c', d')"
      using False rm r "2.prems"(1) by (simp add: d2_def)
    from "2.IH"(2) [OF False rm [symmetric] r, folded d2_def, OF ev o(1,6) no_faults_env [OF o(4) "2.prems"(4)]]
    obtain n where n: "stops_at es (c\<lparr>ca_size := ca_size c - ev_size e\<rparr>) n" "dk_file d' = dropped es n d2"
      "c' = c\<lparr>ca_size := ca_size c - ev_size e - (\<Sum>x \<leftarrow> take n es. ev_size x)\<rparr>" by auto
    moreover have "dk_file d' = dropped (e # es) (Suc n) d" using n(2) o(3) by (auto simp: dropped_def fun_eq_iff)
    moreover have "stops_at (e # es) c (Suc n)" using stops_at_Suc [OF _ n(1)] False by simp
    ultimately show ?thesis by (intro exI [of _ "Suc n"]) simp
  qed
qed

text \<open>C34. Eviction without failing calls removes exactly the shortest run of the least recently used files below the
  cache directory that brings the count to the capacity, or all of them, and leaves every other file as it is; this
  holds for any count, also one that has drifted from the disk.  Where the count is exact, the survivors are
  the longest run of the most recently used files that fits the capacity: those of the recency list specification that
  the chunk cache implements as well.\<close>

theorem disk_evict_lru:
  assumes "evict srt c d = (c', d')" "slice_sorter ev_mtime srt" "disk_wf d" "no_faults d"
  shows "(let es = srt (file_entries (ca_dir c) d); kept = fitting nat (ca_cap c) (recency es)
    in sorted (map ev_mtime es) \<and> mset es = mset (file_entries (ca_dir c) d) \<and>
       (\<exists>n. stops_at es c n \<and> dk_file d' = dropped es n d \<and>
         c' = c\<lparr>ca_size := ca_size c - (\<Sum>e \<leftarrow> take n es. ev_size e)\<rparr>) \<and>
       (ca_size c = used_below (ca_dir c) d \<longrightarrow>
         dk_file d' = (\<lambda>q. if below (ca_dir c) q \<and> q \<notin> fst ` set kept then None else dk_file d q) \<and>
         ca_size c' = total nat kept))"
proof -
  let ?es = "srt (file_entries (ca_dir c) d)"
  obtain rs d1 where w: "os_walk (ca_dir c) d = (rs, d1)" by force
  note eff = os_walk_entries [OF w assms(3)] and es = walk_no_faults [OF w assms(4)]
  have "evict_files ?es c d1 = (c', d')" using assms(1) w es by (simp add: evict_def)
  moreover have "disk_wf d1" using disk_wf_cong [OF eff(2,3)] assms(3) by simp
  moreover have "entries_of (ca_dir c) d1 ?es" using entries_of_srt [OF assms(2) eff(1)] es by simp
  moreover have "dropped ?es n d1 = dropped ?es n d" for n using dk_file_cong [OF eff(2)] by (simp add: dropped_def cong del: if_weak_cong)
  ultimately have stop: "\<exists>n. stops_at ?es c n \<and> dk_file d' = dropped ?es n d \<and>
      c' = c\<lparr>ca_size := ca_size c - (\<Sum>e \<leftarrow> take n ?es. ev_size e)\<rparr>"
    using evict_files_stops no_faults_env [OF eff(4) assms(4)] by metis
  show ?thesis
    unfolding Let_def using stop evict_lru [OF assms _ refl] slice_sorter.mset_srt [OF assms(2)] slice_sorter.sorted_srt [OF assms(2)]
    by blast
qed

section \<open>The byte count\<close>

lemma os_stat_info:
  assumes "os_stat p d = (Inr info, d')" "dk_file d p = Some f"
  shows "fi_size info = file_size f"
  using assms by (auto simp: os_stat_def os_call_def split: option.splits)

text \<open>The second half of a write on its own: the file is stored, the count is one file behind.\<close>

lemma account_file_exact:
  assumes "slice_sorter ev_mtime srt" "disk_wf d" "0 < ca_cap c" "dk_file d p = Some f"
    and "ca_size c + (file_size f - old) = used_below (ca_dir c) d"
    and "account_file srt c p old d = ((None, c'), d')"
  shows "ca_size c' = used_below (ca_dir c) d'" "no_faults d \<Longrightarrow> ca_size c' \<le> ca_cap c'"
    "dk_file d' \<subseteq>\<^sub>m dk_file d" "ca_dir c' = ca_dir c"
proof -
  have "ca_size c' = used_below (ca_dir c) d' \<and> (no_faults d \<longrightarrow> ca_size c' \<le> ca_cap c') \<and>
      dk_file d' \<subseteq>\<^sub>m dk_file d \<and> ca_dir c' = ca_dir c"
    using assms(6)
  proof (cases rule: account_file_cases)
    case (counted info)
    then show ?thesis
      using os_stat_info [OF counted(3) assms(4)] os_stat_effect [OF counted(3)] assms(5)
      by (simp add: used_below_def dk_file_def)
  next
    case (evicted info d1)
    let ?c = "c\<lparr>ca_size := ca_size c + (fi_size info - old)\<rparr>"
    have eff: "dk_files d1 = dk_files d" "dk_dirs d1 = dk_dirs d" "same_env d d1"
      using os_stat_effect [OF evicted(3)] by simp_all
    have size: "ca_size ?c = used_below (ca_dir c) d1"
      using os_stat_info [OF evicted(3) assms(4)] assms(5) eff by (simp add: used_below_def)
    have wf: "disk_wf d1" using assms(2) eff disk_wf_cong by blast
    note ev = evict_effect [OF evicted(4) assms(1) wf]
    have "ca_size c' \<le> ca_cap c'" if "no_faults d"
      using evict_lru(2) [OF evicted(4) assms(1) wf no_faults_env [OF eff(3) that] _ refl] size
        total_fitting [of "ca_cap c" nat] ev(5) assms(3) by simp
    then show ?thesis using ev(2,4,5,6) size eff by (simp add: dk_file_def)
  qed (use assms(3) in simp_all)
  then show "ca_size c' = used_below (ca_dir c) d'" "no_faults d \<Longrightarrow> ca_size c' \<le> ca_cap c'"
    "dk_file d' \<subseteq>\<^sub>m dk_file d" "ca_dir c' = ca_dir c" by blast+
qed

text \<open>C32. In a cache with a limit, where the count equals the bytes of the files below the cache directory, a successful
  write that runs with no other write beside it keeps it equal, whatever removals of the eviction or of the temporary
  file fail, as long as the first \<open>Stat\<close> does not fail; when no call fails, the count is then within the
  capacity.\<close>

theorem disk_size_exact:
  assumes "slice_sorter ev_mtime srt" "disk_wf d" "below (ca_dir c) (cache_path c key)" "0 < ca_cap c"
    and "ca_size c = used_below (ca_dir c) d" "dk_fault d (dk_calls d) = None"
    and "cache_path c key \<notin> set (dk_dirs d)" "cache_path c key \<notin> temp_names d (cache_path c key)"
    and "cache_write srt c key out ferr d = ((None, c'), d')"
  shows "ca_size c' = used_below (ca_dir c) d' \<and> (no_faults d \<longrightarrow> ca_size c' \<le> ca_cap c')"
  using assms(9)
proof (cases rule: cache_write_cases)
  case (stored old d1 tmp d2 d3)
  let ?p = "cache_path c key"
  note o = old_size_effect [OF stored(1)]
  have wf1: "disk_wf d1" using o assms(2) disk_wf_cong by blast
  have old: "old = size_at d1 ?p"
    using stored(1) assms(6,7) o
    by (auto simp: old_size_def os_stat_def os_call_def size_at_def dk_file_def split: option.splits)
  from stored(2) obtain t f f0 where t: "tmp = Some t" "dk_file d1 t = None"
      "dk_files d2 = put_file ?p f (del_file t (put_file t f (put_file t f0 (dk_files d1))))" "same_env d1 d2"
      "t \<in> temp_names d1 ?p"
    by (cases rule: store_file_cases) auto
  have "temp_names d1 ?p = temp_names d ?p" using o by (simp add: temp_names_def same_env_def)
  then have "t \<noteq> ?p" using t(5) assms(8) by metis
  have "used_below (ca_dir c) d1 = used_below (ca_dir c) d" using o by (simp add: used_below_def)
  then have count: "ca_size c + (file_size f - old) = used_below (ca_dir c) d2"
    using used_stored [OF wf1 assms(3) t(2,3)] old assms(5) by simp
  have f: "dk_file d2 = (dk_file d1)(?p \<mapsto> f)" using stored_files [OF t(2,3)] .
  then have "dk_file d2 ?p = Some f" by simp
  note exact = account_file_exact [OF assms(1) store_file_wf [OF stored(2) wf1] assms(4) this count stored(3)]
  have "no_faults d \<longrightarrow> no_faults d2" using o t(4) by (blast intro: no_faults_env)
  moreover have "dk_files (remove_temp tmp d3) = dk_files d3"
    unfolding t(1) using \<open>t \<noteq> ?p\<close> t(2) f map_le_cases [OF exact(3), of t] by (intro remove_temp_absent) auto
  ultimately show ?thesis
    using stored(4) exact(1,2) by (auto simp: used_below_def)
qed simp

section \<open>Concurrent writes of one key\<close>

lemma remove_temp_wf: "disk_wf d \<Longrightarrow> disk_wf (remove_temp tmp d)"
  using os_remove_wf [OF prod.collapse [symmetric]] by (cases tmp) (simp_all add: remove_temp_def)

text \<open>The second part of a write when no eviction is due.\<close>

lemma finish_write_counted:
  assumes "finish_write srt c key old out ferr d = ((None, c'), d')" "p = cache_path c key"
    and "disk_wf d" "below (ca_dir c) p" "p \<notin> temp_names d p" "0 < ca_cap c"
    and "ca_size c + (int (length out) - old) \<le> ca_cap c"
  shows "disk_wf d'" "used_below (ca_dir c) d' = used_below (ca_dir c) d - size_at d p + int (length out)"
    "c' = c\<lparr>ca_size := ca_size c + (int (length out) - old)\<rparr>" "size_at d' p = int (length out)"
    "dk_rand d' = dk_rand d"
proof -
  obtain tmp se d1 where st: "store_file p out ferr d = ((tmp, se), d1)" by (metis surj_pair)
  have se: "se = None" using assms(1,2) st by (cases se) (simp_all add: finish_write_def)
  note wf1 = store_file_wf [OF st [unfolded se] assms(3)]
  from st [unfolded se] obtain t f f0 where t: "tmp = Some t" "dk_file d t = None" "f_bytes f = out"
      "dk_files d1 = put_file p f (del_file t (put_file t f (put_file t f0 (dk_files d))))" "t \<in> temp_names d p"
  proof (cases rule: store_file_cases)
    case (stored t m0 m)
    show thesis by (rule that [OF stored(1,5) _ stored(6,4)]) simp
  qed simp_all
  have tp: "t \<noteq> p" using t(5) assms(5) by auto
  note f = stored_files [OF t(2,4)]
  obtain ae c2 d2 where ac: "account_file srt c p old d1 = ((ae, c2), d2)" by (metis surj_pair)
  have res: "ae = None" "c' = c2" "d' = remove_temp tmp d2"
    using assms(1,2) st se ac by (simp_all add: finish_write_def)
  have fs: "file_size f = int (length out)" using t(3) by (simp add: file_size_def)
  obtain d3 where d3: "c2 = c\<lparr>ca_size := ca_size c + (int (length out) - old)\<rparr>" "dk_files d2 = dk_files d1"
      "dk_dirs d2 = dk_dirs d1"
    using ac [unfolded res(1)]
  proof (cases rule: account_file_cases)
    case (counted info)
    then show thesis
      using that os_stat_info [OF counted(3)] os_stat_effect [OF counted(3)] f fs by simp
  next
    case (evicted info d4)
    then show thesis using os_stat_info [OF evicted(3)] f fs assms(7) by simp
  qed (use assms(6) in simp_all)
  have wf2: "disk_wf d2" using d3 wf1 disk_wf_cong by blast
  show "disk_wf d'" unfolding res(3) using wf2 by (rule remove_temp_wf)
  have "dk_file d2 t = None" using d3(2) f tp t(2) by (simp add: dk_file_def)
  then have files: "dk_files d' = dk_files d1"
    unfolding res(3) t(1) using d3(2) by (simp add: remove_temp_absent)
  show "used_below (ca_dir c) d' = used_below (ca_dir c) d - size_at d p + int (length out)"
    using used_stored [OF assms(3,4) t(2,4)] fs files by (simp add: used_below_def)
  show "c' = c\<lparr>ca_size := ca_size c + (int (length out) - old)\<rparr>" using d3(1) res(2) by simp
  show "size_at d' p = int (length out)"
    using f fs dk_file_cong [OF files] by (simp add: size_at_def)
  show "dk_rand d' = dk_rand d"
    using store_file_env [OF st] account_file_env(1) [OF ac] remove_temp_env [of d2 tmp] res(3)
    by (simp add: same_env_def disk_env_def)
qed

text \<open>The count drifts under concurrent writes of one key: when two writers both look at the
  size of the missing file before either has stored it, the count ends above the bytes on disk
  by the size of the first file, although both writes succeed and nothing fails.\<close>

theorem concurrent_write_drift:
  assumes "disk_wf d" "no_faults d" "p = cache_path c key" "dk_file d p = None" "p \<notin> set (dk_dirs d)"
    and "below (ca_dir c) p" "p \<notin> temp_names d p" "ca_size c = used_below (ca_dir c) d"
    and "0 < ca_cap c" "ca_size c + int (length out1) + int (length out2) \<le> ca_cap c"
    and "old_size p d = (old1, d1)" "old_size p d1 = (old2, d2)"
    and "finish_write srt c key old1 out1 None d2 = ((None, c1), d3)"
    and "finish_write srt c1 key old2 out2 None d3 = ((None, c2), d4)"
  shows "used_below (ca_dir c) d4 = used_below (ca_dir c) d + int (length out2) \<and>
    ca_size c2 = used_below (ca_dir c) d4 + int (length out1)"
proof -
  note o1 = old_size_effect [OF assms(11)] and o2 = old_size_effect [OF assms(12)]
  have old: "old1 = 0" "old2 = 0"
    using assms(2,4,5,11,12) o1
    by (auto simp: old_size_def os_stat_def os_call_def dk_file_def no_faults_def same_env_def
        split: option.splits)
  have d2: "disk_wf d2" "used_below (ca_dir c) d2 = used_below (ca_dir c) d" "size_at d2 p = 0"
    "temp_names d2 p = temp_names d p"
    using o1 o2 assms(1,4) disk_wf_cong [of d1 d] disk_wf_cong [of d2 d1]
    by (simp_all add: used_below_def size_at_def dk_file_def temp_names_def same_env_def)
  have "p \<notin> temp_names d2 p" "ca_size c + (int (length out1) - old1) \<le> ca_cap c"
    using d2(4) assms(7,10) old by simp_all
  note w1 = finish_write_counted [OF assms(13,3) d2(1) assms(6) this(1) assms(9) this(2)]
  have c1: "ca_dir c1 = ca_dir c" "ca_cap c1 = ca_cap c" "p = cache_path c1 key"
    "ca_size c1 = ca_size c + int (length out1)"
    using w1(3) old assms(3) by (simp_all add: cache_path_def)
  have "p \<notin> temp_names d3 p"
    using w1(5) d2(4) assms(7) o1 o2 by (simp add: temp_names_def same_env_def)
  note w2 = finish_write_counted [OF assms(14) c1(3) w1(1) assms(6) [folded c1(1)] this assms(9) [folded c1(2)]]
  have "ca_size c1 + (int (length out2) - old2) \<le> ca_cap c1" using c1 old assms(10) by simp
  note w2' = w2 [OF this]
  show ?thesis
    using w1(2,4) w2'(2,3) c1 d2 old assms(8) by simp
qed

section \<open>Witnesses\<close>

definition demo_disk :: "(nat \<Rightarrow> string option) \<Rightarrow> disk" where
  "demo_disk faults = \<lparr>dk_files = [(''/c/old'', \<lparr>f_bytes = ''abcd'', f_mtime = 1\<rparr>)], dk_dirs = [''/'', ''/c''],
     dk_calls = 0, dk_fault = faults, dk_time = (\<lambda>n. 10 + int n), dk_rand = (\<lambda>_. ''0''), dk_short = (\<lambda>_. 0), dk_dir_size = 4096\<rparr>"

definition demo_cache :: "int \<Rightarrow> cache" where
  "demo_cache cap = \<lparr>ca_dir = ''/c'', ca_cap = cap, ca_size = 4\<rparr>"

definition rename_fails :: "nat \<Rightarrow> string option" where
  "rename_fails n = (if n = 5 then Some ''EIO'' else None)"

lemma demo_disk_wf: "disk_wf (demo_disk fl)"
proof -
  have "path_dir ''/c/old'' = ''/c''" by code_simp
  then show ?thesis by (simp add: disk_wf_def demo_disk_def akeys_def)
qed

lemma demo_path: "cache_path (demo_cache cap) ''k/v'' = ''/c/k/v''" "below (ca_dir (demo_cache cap)) ''/c/k/v''"
  "cache_path \<lparr>ca_dir = ''/c'', ca_cap = cap, ca_size = n\<rparr> ''k/v'' = ''/c/k/v''"
proof -
  have "path_join [''/c'', ''k/v''] = ''/c/k/v''" "below ''/c'' ''/c/k/v''" by code_simp+
  then show "cache_path (demo_cache cap) ''k/v'' = ''/c/k/v''" "below (ca_dir (demo_cache cap)) ''/c/k/v''"
    "cache_path \<lparr>ca_dir = ''/c'', ca_cap = cap, ca_size = n\<rparr> ''k/v'' = ''/c/k/v''"
    by (simp_all add: cache_path_def demo_cache_def)
qed

lemma demo_temp: "''/c/k/v'' \<notin> temp_names (demo_disk fl) ''/c/k/v''"
proof -
  have "path_join [path_dir ''/c/k/v'', temp_prefix @ ''0''] = ''/c/k/.tmp-0''" by code_simp
  then show ?thesis by (simp add: temp_names_def demo_disk_def)
qed

lemma demo_used: "used_below (ca_dir (demo_cache cap)) (demo_disk fl) = 4"
proof -
  have "below ''/c'' ''/c/old''" by code_simp
  then show ?thesis by (simp add: used_below_def demo_cache_def demo_disk_def file_size_def)
qed

theorem disk_write_atomic_witness:
  "\<exists>d'. cache_write (insertion_sort ev_mtime) (demo_cache 6) ''k/v'' ''xyz'' None (demo_disk rename_fails) =
     ((Some (OSError ''EIO''), demo_cache 6), d') \<and>
   dk_file d' ''/c/old'' = Some \<lparr>f_bytes = ''abcd'', f_mtime = 1\<rparr>"
proof -
  let ?w = "cache_write (insertion_sort ev_mtime) (demo_cache 6) ''k/v'' ''xyz'' None (demo_disk rename_fails)"
  have "fst (fst ?w) = Some (OSError ''EIO'')" by code_simp
  then obtain c' d' where w: "?w = ((Some (OSError ''EIO''), c'), d')" by (metis prod.collapse)
  have "path_join [path_dir ''/c/k/v'', temp_prefix @ ''0''] = ''/c/k/.tmp-0''" by code_simp
  then have "''/c/old'' \<notin> temp_names (demo_disk rename_fails) ''/c/k/v''"
    by (simp add: temp_names_def demo_disk_def)
  then have "c' = demo_cache 6" "dk_file d' ''/c/old'' = dk_file (demo_disk rename_fails) ''/c/old''"
    using disk_write_atomic [OF w demo_path(1) [symmetric] demo_temp] by simp_all
  then show ?thesis using w by (simp add: dk_file_def demo_disk_def)
qed

theorem disk_write_read_witness:
  "\<exists>c' d'. cache_write (insertion_sort ev_mtime) (demo_cache 6) ''k/v'' ''xyz'' None (demo_disk (\<lambda>_. None)) =
     ((None, c'), d') \<and> fst (disk_fetch ''k/v'' (c', d')) = Some ''xyz''"
proof -
  let ?w = "cache_write (insertion_sort ev_mtime) (demo_cache 6) ''k/v'' ''xyz'' None (demo_disk (\<lambda>_. None))"
  have "fst (fst ?w) = None" by code_simp
  then obtain c' d' where w: "?w = ((None, c'), d')" by (metis prod.collapse)
  have "fst (disk_fetch ''k/v'' (snd (fst ?w), snd ?w)) \<noteq> None" by code_simp
  then obtain b where b: "fst (disk_fetch ''k/v'' (c', d')) = Some b" using w by auto
  have "disk_inv ''/c'' (demo_cache 6, demo_disk (\<lambda>_. None))"
    by (simp add: disk_inv_def demo_cache_def demo_disk_def plain_rand_def has_prefix_iff)
  moreover have "valid_key ''/c'' ''k/v''" by code_simp
  ultimately show ?thesis using disk_write_read [OF _ _ w b] w b by simp
qed

theorem disk_size_exact_witness:
  "\<exists>c' d'. cache_write (insertion_sort ev_mtime) (demo_cache 6) ''k/v'' ''xyz'' None (demo_disk (\<lambda>_. None)) =
     ((None, c'), d') \<and> ca_size c' = used_below ''/c'' d' \<and> ca_size c' \<le> ca_cap c'"
proof -
  let ?w = "cache_write (insertion_sort ev_mtime) (demo_cache 6) ''k/v'' ''xyz'' None (demo_disk (\<lambda>_. None))"
  have "fst (fst ?w) = None" by code_simp
  then obtain c' d' where w: "?w = ((None, c'), d')" by (metis prod.collapse)
  have "ca_size c' = used_below (ca_dir (demo_cache 6)) d' \<and> (no_faults (demo_disk (\<lambda>_. None)) \<longrightarrow> ca_size c' \<le> ca_cap c')"
    by (rule disk_size_exact [OF ins.slice_sorter_axioms demo_disk_wf _ _ _ _ _ _ w])
      (use demo_temp in \<open>simp_all add: demo_path demo_used\<close>, simp_all add: demo_cache_def demo_disk_def)
  then show ?thesis using w by (simp add: no_faults_def demo_disk_def demo_cache_def)
qed

theorem disk_evict_lru_witness:
  "\<exists>c' d'. evict (insertion_sort ev_mtime) (demo_cache 3) (demo_disk (\<lambda>_. None)) = (c', d') \<and>
     dk_file d' ''/c/old'' = None \<and> ca_size c' = 0"
proof -
  obtain c' d' where ev: "evict (insertion_sort ev_mtime) (demo_cache 3) (demo_disk (\<lambda>_. None)) = (c', d')" by force
  have size: "ca_size (demo_cache 3) = used_below (ca_dir (demo_cache 3)) (demo_disk (\<lambda>_. None))"
    using demo_used by (simp add: demo_cache_def)
  have "fitting nat (ca_cap (demo_cache 3)) (recency (insertion_sort ev_mtime
      (file_entries (ca_dir (demo_cache 3)) (demo_disk (\<lambda>_. None))))) = []" by code_simp
  moreover have "below (ca_dir (demo_cache 3)) ''/c/old''" by code_simp
  ultimately show ?thesis
    using disk_evict_lru [OF ev ins.slice_sorter_axioms demo_disk_wf] size ev
    by (simp add: no_faults_def demo_disk_def Let_def)
qed

theorem concurrent_write_drift_witness:
  "\<exists>c2 d4. used_below ''/c'' d4 = 7 \<and> ca_size c2 = 10 \<and>
     (\<exists>c1 d1 d2 d3. old_size ''/c/k/v'' (demo_disk (\<lambda>_. None)) = (0, d1) \<and> old_size ''/c/k/v'' d1 = (0, d2) \<and>
        finish_write (insertion_sort ev_mtime) (demo_cache 100) ''k/v'' 0 ''xyz'' None d2 = ((None, c1), d3) \<and>
        finish_write (insertion_sort ev_mtime) c1 ''k/v'' 0 ''uvw'' None d3 = ((None, c2), d4))"
proof -
  let ?d = "demo_disk (\<lambda>_. None)" and ?srt = "insertion_sort ev_mtime"
  define d1 where "d1 = snd (old_size ''/c/k/v'' ?d)"
  define d2 where "d2 = snd (old_size ''/c/k/v'' d1)"
  define w1 where "w1 = finish_write ?srt (demo_cache 100) ''k/v'' 0 ''xyz'' None d2"
  define w2 where "w2 = finish_write ?srt (snd (fst w1)) ''k/v'' 0 ''uvw'' None (snd w1)"
  have o: "old_size ''/c/k/v'' ?d = (0, d1)" "old_size ''/c/k/v'' d1 = (0, d2)"
    by (simp_all add: d2_def d1_def old_size_def os_stat_def os_call_def dk_file_def demo_disk_def)
  have "fst (fst w1) = None" "fst (fst w2) = None"
    unfolding w2_def w1_def d2_def d1_def by code_simp+
  then obtain c1 d3 c2 d4 where w: "w1 = ((None, c1), d3)" "w2 = ((None, c2), d4)"
    by (metis prod.collapse)
  note run = w(1) [unfolded w1_def] w(2) [unfolded w2_def w(1) fst_conv snd_conv]
  have "used_below (ca_dir (demo_cache 100)) d4 = used_below (ca_dir (demo_cache 100)) ?d + int (length ''uvw'') \<and>
    ca_size c2 = used_below (ca_dir (demo_cache 100)) d4 + int (length ''xyz'')"
    by (rule concurrent_write_drift [OF demo_disk_wf _ demo_path(1) [symmetric] _ _ demo_path(2) demo_temp _ _ _ o run])
      (simp_all add: demo_used, simp_all add: demo_cache_def demo_disk_def no_faults_def dk_file_def)
  then show ?thesis using o run demo_used [of 100 "\<lambda>_. None"] by (auto simp: demo_cache_def)
qed

end
