(* ===== verification/Transport.thy ===== *)
theory Transport
  imports Disk_Props Oci_Types
begin

text \<open>
  \<open>internal/oci/transport.go\<close>: the HTTP transport that answers requests for digest-addressed
  manifests and image configurations from the disk cache.  The wrapped \<open>http.RoundTripper\<close> is
  a function on a world; a response body is the bytes it yields and the error that ends it.
\<close>

section \<open>Requests and responses\<close>

record http_request =
  rq_method :: string
  rq_host :: string
  rq_range :: string
  rq_path :: string

record http_response =
  rs_status :: string
  rs_status_code :: int
  rs_header :: "(string \<times> string) list"
  rs_body :: bytes
  rs_body_error :: "string option"
  rs_content_length :: int

definition header_get :: "(string \<times> string) list \<Rightarrow> string \<Rightarrow> string" where
  "header_get h k = (case map_of h k of None \<Rightarrow> [] | Some v \<Rightarrow> v)"

text \<open>The body and its length replaced by bytes in memory.\<close>

definition with_body :: "bytes \<Rightarrow> http_response \<Rightarrow> http_response" where
  "with_body body r = r\<lparr>rs_body := body, rs_body_error := None, rs_content_length := int (length body)\<rparr>"

type_synonym 'w round_tripper = "http_request \<Rightarrow> 'w \<Rightarrow> (string + http_response) \<times> 'w"

section \<open>Which responses are cached\<close>

definition lower_char :: "char \<Rightarrow> char" where
  "lower_char c = (if CHR ''A'' \<le> c \<and> c \<le> CHR ''Z'' then char_of (of_char c + (32::nat)) else c)"

definition hex_digit :: "char \<Rightarrow> bool" where
  "hex_digit c \<longleftrightarrow> CHR ''0'' \<le> c \<and> c \<le> CHR ''9'' \<or> CHR ''a'' \<le> c \<and> c \<le> CHR ''f''"

text \<open>The expression \<open>^/v2/.+/(manifests|blobs)/sha256:[0-9a-f]{64}$\<close>, read from the end: 64
  hexadecimal digits, then a fixed text for each alternative, then at least one character other
  than a newline between that and the text in front.\<close>

definition match_digest_path :: "string \<Rightarrow> string \<Rightarrow> bool" where
  "match_digest_path mid p =
     (let n = length p - (length mid + 64)
      in length mid + 64 + 5 \<le> length p \<and> take 4 p = ''/v2/'' \<and>
         CHR 0x0A \<notin> set (drop 4 (take n p)) \<and>
         take (length mid) (drop n p) = mid \<and> list_all hex_digit (drop (n + length mid) p))"

definition digest_path_re :: "string \<Rightarrow> bool" where
  "digest_path_re p \<longleftrightarrow> match_digest_path ''/manifests/sha256:'' p \<or> match_digest_path ''/blobs/sha256:'' p"

definition cacheable_content_type :: "string \<Rightarrow> bool" where
  "cacheable_content_type ct0 =
     (let ct = map lower_char ct0
      in if contains_str ct ''manifest'' then True
         else if contains_str ct ''image.index'' then True
         else if contains_str ct ''image.config'' \<or> contains_str ct ''container.image.v1+json'' then True
         else False)"

section \<open>Cache entries\<close>

record cached_entry =
  ce_content_type :: string
  ce_body :: bytes

text \<open>\<open>bytes.Index(raw, "\n\n")\<close>.\<close>

definition blank_line :: string where "blank_line = [CHR 0x0A, CHR 0x0A]"

fun index_bytes :: "bytes \<Rightarrow> bytes \<Rightarrow> nat option" where
  "index_bytes sub [] = (if sub = [] then Some 0 else None)"
| "index_bytes sub (c # s) =
     (if has_prefix (c # s) sub then Some 0 else map_option Suc (index_bytes sub s))"

definition decode_entry :: "bytes \<Rightarrow> cached_entry option" where
  "decode_entry raw =
     (case index_bytes blank_line raw of
        None \<Rightarrow> None
      | Some idx \<Rightarrow> Some \<lparr>ce_content_type = take idx raw, ce_body = drop (idx + 2) raw\<rparr>)"

definition load_cached :: "string \<Rightarrow> cache \<times> disk \<Rightarrow> cached_entry option \<times> cache \<times> disk" where
  "load_cached key s =
     (case disk_fetch key s of
        (None, s') \<Rightarrow> (None, s')
      | (Some raw, s') \<Rightarrow> (decode_entry raw, s'))"

definition encode_entry :: "string \<Rightarrow> bytes \<Rightarrow> bytes" where
  "encode_entry ct body = ct @ blank_line @ body"

definition store_cached ::
  "(evict_entry list \<Rightarrow> evict_entry list) \<Rightarrow> string \<Rightarrow> string \<Rightarrow> bytes \<Rightarrow> cache \<times> disk \<Rightarrow> cache \<times> disk" where
  "store_cached srt key ct body s = disk_store srt key (encode_entry ct body) s"

text \<open>\<open>itoa\<close>: the digits are written from the end of a buffer of 20 bytes; \<open>None\<close> is the panic of
  an index below 0.\<close>

function itoa_loop :: "int \<Rightarrow> int \<Rightarrow> string \<Rightarrow> (int \<times> string) option" where
  "itoa_loop n i buf =
     (if 0 < n then
        (let i' = i - 1
         in if i' < 0 then None
            else itoa_loop (n div 10) i' (buf[nat i' := ''0123456789'' ! nat (n mod 10)]))
      else Some (i, buf))"
  by pat_completeness auto
termination
  by (relation "measure (\<lambda>(n, i, buf). nat n)") auto

declare itoa_loop.simps [simp del]

definition itoa :: "int \<Rightarrow> string option" where
  "itoa n =
     (if n = 0 then Some ''0''
      else case itoa_loop n 20 (replicate 20 (CHR 0x00)) of
             None \<Rightarrow> None
           | Some (i, buf) \<Rightarrow> Some (drop (nat i) buf))"

text \<open>A response served from the cache; the length of a slice never makes \<open>itoa\<close> panic.\<close>

definition to_response :: "cached_entry \<Rightarrow> http_response" where
  "to_response e =
     \<lparr>rs_status = ''200 OK'', rs_status_code = 200,
      rs_header = [(''Content-Type'', ce_content_type e),
                   (''Content-Length'', the (itoa (int (length (ce_body e)))))],
      rs_body = ce_body e, rs_body_error = None, rs_content_length = int (length (ce_body e))\<rparr>"

section \<open>The round trip\<close>

definition response_key :: "string \<Rightarrow> string" where
  "response_key p = ''registry'' @ p"

definition RoundTrip ::
  "(evict_entry list \<Rightarrow> evict_entry list) \<Rightarrow> 'w round_tripper \<Rightarrow> http_request \<Rightarrow> cache \<times> disk \<Rightarrow> 'w \<Rightarrow>
   (string + http_response) \<times> (cache \<times> disk) \<times> 'w" where
  "RoundTrip srt base req s w =
     (if rq_method req \<noteq> ''GET'' \<or> rq_range req \<noteq> [] \<or> \<not> digest_path_re (rq_path req)
      then (case base req w of (r, w') \<Rightarrow> (r, s, w'))
      else
        (let key = response_key (rq_path req)
         in case load_cached key s of
              (Some entry, s1) \<Rightarrow> (Inr (to_response entry), s1, w)
            | (None, s1) \<Rightarrow>
                (case base req w of
                   (Inl e, w1) \<Rightarrow> (Inl e, s1, w1)
                 | (Inr resp, w1) \<Rightarrow>
                     (if rs_status_code resp \<noteq> 200 then (Inr resp, s1, w1)
                      else
                        (let ct = header_get (rs_header resp) ''Content-Type''
                         in if \<not> cacheable_content_type ct then (Inr resp, s1, w1)
                            else (case rs_body_error resp of
                                    Some e \<Rightarrow> (Inl e, s1, w1)
                                  | None \<Rightarrow>
                                      (Inr (with_body (rs_body resp) resp),
                                       store_cached srt key ct (rs_body resp) s1, w1)))))))"

end
