(* ===== verification/Transport_Props.thy ===== *)
theory Transport_Props
  imports Transport
begin

text \<open>
  The properties of the caching transport: the language of the path expression, the decimal
  printer, the round trip of a cache entry, and that what is served from the cache is the
  content the digest names.
\<close>

section \<open>The path expression\<close>

lemma match_digest_path_iff:
  "match_digest_path mid p \<longleftrightarrow>
    (\<exists>repo hex. p = ''/v2/'' @ repo @ mid @ hex \<and> repo \<noteq> [] \<and> CHR 0x0A \<notin> set repo \<and>
       length hex = 64 \<and> list_all hex_digit hex)"
proof
  assume m: "match_digest_path mid p"
  define n where "n = length p - (length mid + 64)"
  have len: "length p = n + length mid + 64" "5 \<le> n"
    using m by (auto simp: match_digest_path_def n_def Let_def)
  have parts: "take 4 p = ''/v2/''" "CHR 0x0A \<notin> set (drop 4 (take n p))"
    "take (length mid) (drop n p) = mid" "list_all hex_digit (drop (n + length mid) p)"
    using m unfolding match_digest_path_def Let_def n_def by blast+
  have "take n p = take 4 p @ drop 4 (take n p)"
    using len(2) append_take_drop_id [of 4 "take n p"] by simp
  moreover have "drop n p = take (length mid) (drop n p) @ drop (n + length mid) p"
    using append_take_drop_id [of "length mid" "drop n p"] by (simp add: add.commute)
  ultimately have "p = take 4 p @ drop 4 (take n p) @ take (length mid) (drop n p) @ drop (n + length mid) p"
    using append_take_drop_id [of n p] by (metis append.assoc)
  then have "p = ''/v2/'' @ drop 4 (take n p) @ mid @ drop (n + length mid) p"
    using parts by simp
  moreover have "drop 4 (take n p) \<noteq> []" "length (drop (n + length mid) p) = 64"
    using len by simp_all
  ultimately show "\<exists>repo hex. p = ''/v2/'' @ repo @ mid @ hex \<and> repo \<noteq> [] \<and> CHR 0x0A \<notin> set repo \<and>
      length hex = 64 \<and> list_all hex_digit hex"
    using parts(2,4) by blast
next
  assume "\<exists>repo hex. p = ''/v2/'' @ repo @ mid @ hex \<and> repo \<noteq> [] \<and> CHR 0x0A \<notin> set repo \<and>
      length hex = 64 \<and> list_all hex_digit hex"
  then obtain repo hex where p: "p = ''/v2/'' @ repo @ mid @ hex" "repo \<noteq> []" "CHR 0x0A \<notin> set repo"
      "length hex = 64" "list_all hex_digit hex" by blast
  have n: "length p - (length mid + 64) = 4 + length repo" by (simp add: p(1,4))
  have "1 \<le> length repo" using p(2) by (cases repo) simp_all
  moreover have "take (4 + k) (''/v2/'' @ x) = ''/v2/'' @ take k x" "drop (4 + k) (''/v2/'' @ x) = drop k x" for k x
    by (simp_all add: numeral_eq_Suc)
  ultimately show "match_digest_path mid p"
    unfolding match_digest_path_def Let_def n using p(3,5) by (simp add: p(1,4) add.assoc del: append.simps)
qed

text \<open>C38. The path expression holds of exactly the paths \<open>/v2/<repo>/manifests/sha256:<hex>\<close> and
  \<open>/v2/<repo>/blobs/sha256:<hex>\<close> with a non-empty repository name without newlines and 64
  lower-case hexadecimal digits: a path that ends in a tag is never matched.\<close>

theorem digest_path_language:
  "digest_path_re p \<longleftrightarrow>
    (\<exists>repo kind hex. p = ''/v2/'' @ repo @ ''/'' @ kind @ ''/sha256:'' @ hex \<and> repo \<noteq> [] \<and>
       CHR 0x0A \<notin> set repo \<and> kind \<in> {''manifests'', ''blobs''} \<and>
       length hex = 64 \<and> list_all hex_digit hex)"
proof -
  define L where "L kind \<longleftrightarrow> (\<exists>repo hex. p = ''/v2/'' @ repo @ ''/'' @ kind @ ''/sha256:'' @ hex \<and> repo \<noteq> [] \<and>
      CHR 0x0A \<notin> set repo \<and> length hex = 64 \<and> list_all hex_digit hex)" for kind
  have "match_digest_path ''/manifests/sha256:'' p \<longleftrightarrow> L ''manifests''"
    "match_digest_path ''/blobs/sha256:'' p \<longleftrightarrow> L ''blobs''"
    by (simp_all add: match_digest_path_iff L_def)
  then have "digest_path_re p \<longleftrightarrow> (\<exists>kind \<in> {''manifests'', ''blobs''}. L kind)"
    by (simp add: digest_path_re_def)
  then show ?thesis unfolding L_def by blast
qed

definition digest_of :: "string \<Rightarrow> string" where
  "digest_of p = drop (length p - 71) p"

lemma hex_not_slash: "list_all hex_digit hex \<Longrightarrow> slash \<notin> set hex"
  by (auto simp: list_all_iff hex_digit_def less_eq_char_def)

lemma digest_path_split:
  assumes "digest_path_re p"
  obtains q where "p = q @ slash # digest_of p" "proper (digest_of p)" "has_prefix (digest_of p) ''sha256:''"
proof -
  have split: "\<exists>q hex. p = q @ slash # ''sha256:'' @ hex \<and> length hex = 64 \<and> list_all hex_digit hex"
    if m: "match_digest_path (mid @ slash # ''sha256:'') p" for mid
  proof -
    from m obtain repo hex where p: "p = ''/v2/'' @ repo @ (mid @ slash # ''sha256:'') @ hex"
        "length hex = 64" "list_all hex_digit hex"
      unfolding match_digest_path_iff by blast
    then show ?thesis
      by (intro exI [of _ "''/v2/'' @ repo @ mid"] exI [of _ hex]) simp
  qed
  obtain q hex where p: "p = q @ slash # ''sha256:'' @ hex" "length hex = 64" "list_all hex_digit hex"
    using assms split [of "''/manifests''"] split [of "''/blobs''"] by (auto simp: digest_path_re_def)
  have "digest_of p = ''sha256:'' @ hex"
    by (simp add: digest_of_def p(1,2))
  with p hex_not_slash [OF p(3)] that show thesis
    by (simp add: proper_def has_prefix_iff)
qed

section \<open>Entries\<close>

lemma index_bytes_blank:
  assumes "CHR 0x0A \<notin> set ct"
  shows "index_bytes blank_line (ct @ blank_line @ body) = Some (length ct)"
  using assms by (induction ct) (auto simp: blank_line_def has_prefix_iff)

text \<open>C35. An entry is read back as it was stored: the content type up to the first blank line and
  the body unchanged, whatever bytes and blank lines it holds, as long as the content type has no
  newline (which a header value cannot have).\<close>

theorem entry_roundtrip:
  assumes "CHR 0x0A \<notin> set ct"
  shows "decode_entry (encode_entry ct body) = Some \<lparr>ce_content_type = ct, ce_body = body\<rparr>"
  using index_bytes_blank [OF assms, of body]
  by (simp add: decode_entry_def encode_entry_def) (simp add: blank_line_def)

theorem entry_roundtrip_witness:
  "decode_entry (encode_entry ''application/json'' (blank_line @ ''{}'')) =
    Some \<lparr>ce_content_type = ''application/json'', ce_body = blank_line @ ''{}''\<rparr>"
proof (rule entry_roundtrip)
  show "CHR 0x0A \<notin> set ''application/json''" by code_simp
qed

section \<open>Decimal numbers\<close>

definition digit_value :: "char \<Rightarrow> int" where
  "digit_value c = int (of_char c) - 48"

definition decimal_value :: "string \<Rightarrow> int" where
  "decimal_value s = foldl (\<lambda>a c. 10 * a + digit_value c) 0 s"

definition dec_digit :: "char \<Rightarrow> bool" where
  "dec_digit c \<longleftrightarrow> CHR ''0'' \<le> c \<and> c \<le> CHR ''9''"

lemma decimal_value_Cons:
  "decimal_value (c # s) = digit_value c * 10 ^ length s + decimal_value s"
proof -
  have step: "foldl (\<lambda>a c. 10 * a + digit_value c) a s = a * 10 ^ length s + decimal_value s" for a
    unfolding decimal_value_def
  proof (induction s arbitrary: a)
    case (Cons x s)
    show ?case
      using Cons [of "10 * a + digit_value x"] Cons [of "digit_value x"] by (simp add: algebra_simps)
  qed simp
  have "decimal_value (c # s) = foldl (\<lambda>a c. 10 * a + digit_value c) (digit_value c) s"
    by (simp add: decimal_value_def)
  also note step
  finally show ?thesis .
qed

lemma digit_char:
  assumes "0 \<le> d" "d < 10"
  shows "digit_value (''0123456789'' ! nat d) = d" "dec_digit (''0123456789'' ! nat d)"
    "''0123456789'' ! nat d = CHR ''0'' \<longleftrightarrow> d = 0"
proof -
  have "\<forall>k \<in> set [0..<10]. digit_value (''0123456789'' ! k) = int k \<and> dec_digit (''0123456789'' ! k) \<and>
      (''0123456789'' ! k = CHR ''0'' \<longleftrightarrow> k = 0)" by code_simp
  moreover have "nat d \<in> set [0..<10]" using assms by simp
  ultimately have "digit_value (''0123456789'' ! nat d) = int (nat d) \<and> dec_digit (''0123456789'' ! nat d) \<and>
      (''0123456789'' ! nat d = CHR ''0'' \<longleftrightarrow> nat d = 0)" by blast
  then show "digit_value (''0123456789'' ! nat d) = d" "dec_digit (''0123456789'' ! nat d)"
    "''0123456789'' ! nat d = CHR ''0'' \<longleftrightarrow> d = 0"
    using assms by simp_all
qed

text \<open>The loop puts the digits of \<open>n\<close> in front of what is in the buffer from \<open>i\<close> on.\<close>

lemma itoa_loop_digits:
  assumes "0 \<le> n" "n < 10 ^ i" "i \<le> length buf"
  shows "\<exists>j buf' ds. itoa_loop n (int i) buf = Some (int j, buf') \<and> drop j buf' = ds @ drop i buf \<and>
    j \<le> i \<and> length buf' = length buf \<and> decimal_value ds = n \<and> list_all dec_digit ds \<and>
    (ds = [] \<longleftrightarrow> n = 0) \<and> (n \<noteq> 0 \<longrightarrow> hd ds \<noteq> CHR ''0'')"
  using assms
proof (induction i arbitrary: n buf)
  case 0
  then show ?case by (simp add: itoa_loop.simps decimal_value_def)
next
  case (Suc i)
  show ?case
  proof (cases "n = 0")
    case True
    then show ?thesis by (intro exI [of _ "Suc i"]) (simp add: itoa_loop.simps decimal_value_def)
  next
    case False
    let ?c = "''0123456789'' ! nat (n mod 10)" and ?buf = "buf[i := ''0123456789'' ! nat (n mod 10)]"
    have "n div 10 < 10 ^ i" "0 \<le> n div 10" using Suc.prems by simp_all
    then obtain j buf' ds where IH: "itoa_loop (n div 10) (int i) ?buf = Some (int j, buf')"
        "drop j buf' = ds @ drop i ?buf" "j \<le> i" "length buf' = length ?buf" "decimal_value ds = n div 10"
        "list_all dec_digit ds" "ds = [] \<longleftrightarrow> n div 10 = 0" "n div 10 \<noteq> 0 \<longrightarrow> hd ds \<noteq> CHR ''0''"
      using Suc.IH [of "n div 10" ?buf] Suc.prems(3) by auto
    have loop: "itoa_loop n (int (Suc i)) buf = Some (int j, buf')"
      using False Suc.prems(1) IH(1) by (subst itoa_loop.simps) (simp add: Let_def)
    have "drop i ?buf = ?c # drop (Suc i) buf"
      using Suc.prems(3) by (simp add: Cons_nth_drop_Suc [symmetric])
    then have d: "drop j buf' = (ds @ [?c]) @ drop (Suc i) buf" using IH(2) by simp
    note c = digit_char [of "n mod 10"]
    have "decimal_value (ds @ [?c]) = 10 * (n div 10) + n mod 10"
      using IH(5) c(1) by (simp add: decimal_value_def)
    then have val: "decimal_value (ds @ [?c]) = n" by simp
    have "hd (ds @ [?c]) \<noteq> CHR ''0''"
    proof (cases "n div 10 = 0")
      case True
      then have "ds = []" "n mod 10 = n" using IH(7) Suc.prems(1) by (auto simp: mod_pos_pos_trivial)
      then show ?thesis using c(3) False Suc.prems(1) True by simp
    next
      case False
      then show ?thesis using IH(7,8) by simp
    qed
    then show ?thesis
      using loop d val IH(3,4,6) c(2) False
      by (intro exI [of _ j] exI [of _ buf'] exI [of _ "ds @ [?c]"]) simp
  qed
qed

text \<open>\<open>itoa\<close> prints every length: for a number from 0 below $2^{63}$ the buffer suffices (no
  index leaves it), and the result is the decimal numeral of the number without leading
  zeros.\<close>

theorem itoa_correct:
  assumes "0 \<le> n" "n < 2 ^ 63"
  shows "\<exists>s. itoa n = Some s \<and> decimal_value s = n \<and> list_all dec_digit s \<and> s \<noteq> [] \<and>
    (n \<noteq> 0 \<longrightarrow> hd s \<noteq> CHR ''0'')"
proof (cases "n = 0")
  case True
  then show ?thesis by (simp add: itoa_def decimal_value_def digit_value_def dec_digit_def)
next
  case False
  have "n < 10 ^ 20" using assms(2) by simp
  from itoa_loop_digits [OF assms(1) this, of "replicate 20 (CHR 0x00)"] False
  show ?thesis by (auto simp: itoa_def)
qed

theorem itoa_correct_witness:
  "itoa 9223372036854775807 = Some ''9223372036854775807'' \<and> decimal_value ''9223372036854775807'' = 9223372036854775807"
proof -
  have i: "itoa 9223372036854775807 = Some ''9223372036854775807''" by code_simp
  have "\<exists>s. itoa 9223372036854775807 = Some s \<and> decimal_value s = 9223372036854775807 \<and> list_all dec_digit s \<and>
      s \<noteq> [] \<and> ((9223372036854775807::int) \<noteq> 0 \<longrightarrow> hd s \<noteq> CHR ''0'')"
    by (rule itoa_correct) simp_all
  with i show ?thesis by auto
qed

section \<open>Serving from the cache\<close>

text \<open>What the cache may hold under a key whose last segment is a digest: an entry whose body is the
  content that the digest names.  Other keys belong to other clients of the cache.\<close>

definition genuine :: "(string \<Rightarrow> bytes) \<Rightarrow> path \<Rightarrow> string \<Rightarrow> bytes \<Rightarrow> bool" where
  "genuine content dir k raw \<longleftrightarrow> has_prefix (path_base (path_join [dir, k])) ''sha256:'' \<longrightarrow>
     (\<forall>e. decode_entry raw = Some e \<longrightarrow> ce_body e = content (path_base (path_join [dir, k])))"

definition transport_ok :: "(string \<Rightarrow> bytes) \<Rightarrow> path \<Rightarrow> cache \<times> disk \<Rightarrow> bool" where
  "transport_ok content dir s \<longleftrightarrow> disk_inv dir s \<and> disk.coherent dir (genuine content dir) s"

text \<open>A registry that serves content by digest: a complete response with status 200 to such a
  request has the content as its body, and its content type is one line.\<close>

definition serves :: "'w round_tripper \<Rightarrow> (string \<Rightarrow> bytes) \<Rightarrow> bool" where
  "serves base content \<longleftrightarrow> (\<forall>req w resp w'. rq_method req = ''GET'' \<longrightarrow> rq_range req = [] \<longrightarrow>
     digest_path_re (rq_path req) \<longrightarrow> base req w = (Inr resp, w') \<longrightarrow> rs_status_code resp = 200 \<longrightarrow>
     CHR 0x0A \<notin> set (header_get (rs_header resp) ''Content-Type'') \<and>
     (rs_body_error resp = None \<longrightarrow> rs_body resp = content (digest_of (rq_path req))))"

lemma registry_key:
  assumes "digest_path_re p" "has_prefix dir ''/''"
  shows "path_base (path_join [dir, response_key p]) = digest_of p" "valid_key dir (response_key p)"
    "has_prefix (digest_of p) ''sha256:''"
proof -
  obtain q where q: "p = q @ slash # digest_of p" "proper (digest_of p)" "has_prefix (digest_of p) ''sha256:''"
    using digest_path_split [OF assms(1)] by blast
  have "dir @ ''/'' @ ''registry'' @ p = (dir @ ''/'' @ ''registry'' @ q) @ slash # digest_of p"
    using q(1) by simp
  then have "psegs (dir @ ''/'' @ ''registry'' @ p) = psegs (dir @ ''/'' @ ''registry'' @ q) @ [digest_of p]"
    using psegs_snoc [OF q(2), of "dir @ ''/'' @ ''registry'' @ q"] by simp
  then show base: "path_base (path_join [dir, response_key p]) = digest_of p"
    using path_join_rooted [OF assms(2)] proper_psegs [of "dir @ ''/'' @ ''registry'' @ p"]
    by (simp add: path_base_abs_path response_key_def)
  obtain t where "digest_of p = ''sha256:'' @ t" using q(3) by (auto simp: has_prefix_iff prefix_def)
  then show "valid_key dir (response_key p)"
    unfolding valid_key_def base by (simp add: temp_prefix_def has_prefix_iff)
  show "has_prefix (digest_of p) ''sha256:''" using q(3) .
qed

lemma genuine_addr: "disk.addr_only dir (genuine content dir)"
  by (simp add: disk.addr_only_def genuine_def)

lemma transport_ok_fetch:
  assumes "transport_ok content dir s" "disk_fetch k s = (r, s')"
  shows "transport_ok content dir s'"
  using assms disk.inv_fetch [of dir s k] disk.coherent_fetch [of dir s "genuine content dir" k]
  by (simp add: transport_ok_def)

lemma load_cached_ok:
  assumes "transport_ok content dir s" "digest_path_re p" "load_cached (response_key p) s = (r, s')"
  shows "transport_ok content dir s'" "r = Some e \<Longrightarrow> ce_body e = content (digest_of p)"
proof -
  let ?k = "response_key p"
  have inv: "disk_inv dir s" and coh: "disk.coherent dir (genuine content dir) s"
    using assms(1) by (simp_all add: transport_ok_def)
  have dir: "has_prefix dir ''/''" using inv by (simp add: disk_inv_def)
  note key = registry_key [OF assms(2) dir]
  obtain f s1 where f: "disk_fetch ?k s = (f, s1)" by (meson surj_pair)
  then have s1: "s' = s1" "r = (case f of None \<Rightarrow> None | Some raw \<Rightarrow> decode_entry raw)"
    using assms(3) by (auto simp: load_cached_def split: option.splits)
  show "transport_ok content dir s'" using transport_ok_fetch [OF assms(1) f] s1 by simp
  assume "r = Some e"
  then obtain raw where raw: "f = Some raw" "decode_entry raw = Some e" using s1(2) by (auto split: option.splits)
  have "genuine content dir ?k raw"
    using disk.read_hit(1) [OF inv coh key(2) f [unfolded raw(1)]] .
  then show "ce_body e = content (digest_of p)" using raw(2) key(1,3) by (simp add: genuine_def)
qed

lemma response_genuine:
  assumes "digest_path_re p" "CHR 0x0A \<notin> set ct" "has_prefix dir ''/''"
  shows "genuine content dir (response_key p) (encode_entry ct (content (digest_of p)))"
proof -
  have "decode_entry (encode_entry ct body) = Some \<lparr>ce_content_type = ct, ce_body = body\<rparr>" for body
    using index_bytes_blank [OF assms(2), of body]
    by (simp add: decode_entry_def encode_entry_def) (simp add: blank_line_def)
  then show ?thesis using registry_key(1) [OF assms(1,3)] by (simp add: genuine_def)
qed

lemma store_cached_ok:
  assumes "transport_ok content dir s" "digest_path_re p" "CHR 0x0A \<notin> set ct" "body = content (digest_of p)"
  shows "transport_ok content dir (store_cached srt (response_key p) ct body s)"
proof -
  have inv: "disk_inv dir s" and coh: "disk.coherent dir (genuine content dir) s"
    using assms(1) by (simp_all add: transport_ok_def)
  have "has_prefix dir ''/''" using inv by (simp add: disk_inv_def)
  from response_genuine [OF assms(2,3) this] have "genuine content dir (response_key p) (encode_entry ct body)"
    by (simp add: assms(4))
  then show ?thesis
    using disk.inv_store [OF inv] disk.coherent_store [OF inv coh genuine_addr]
    by (simp add: transport_ok_def store_cached_def)
qed

text \<open>What other clients of the cache rely on: a request keeps any property of the contents of keys
  that every entry under the key of its path has.\<close>

lemma round_trip_coherent:
  assumes "disk_inv dir s" "disk.coherent dir P s" "disk.addr_only dir P"
    and "\<And>v. digest_path_re (rq_path req) \<Longrightarrow> P (response_key (rq_path req)) v"
    and "RoundTrip srt base req s w = (r, s', w')"
  shows "disk_inv dir s' \<and> disk.coherent dir P s'"
proof (cases "rq_method req = ''GET'' \<and> rq_range req = [] \<and> digest_path_re (rq_path req)")
  case False
  then have "s' = s" using assms(5) by (auto simp: RoundTrip_def split: prod.splits)
  then show ?thesis using assms(1,2) by simp
next
  case True
  then have req: "rq_method req = ''GET''" "rq_range req = []" "digest_path_re (rq_path req)" by simp_all
  let ?key = "response_key (rq_path req)"
  obtain f s1 where f: "disk_fetch ?key s = (f, s1)" by (meson surj_pair)
  have s1: "disk_inv dir s1" "disk.coherent dir P s1"
    using disk.inv_fetch [OF assms(1), of ?key] disk.coherent_fetch [OF assms(1,2), of ?key] f by simp_all
  have store: "disk_inv dir (store_cached srt ?key ct body s1) \<and> disk.coherent dir P (store_cached srt ?key ct body s1)" for ct body
    using disk.inv_store [OF s1(1)] disk.coherent_store [OF s1 assms(3) assms(4) [OF req(3)]] by (simp add: store_cached_def)
  have "s' = s1 \<or> (\<exists>ct body. s' = store_cached srt ?key ct body s1)"
    using assms(5) req f
    by (auto simp: RoundTrip_def load_cached_def Let_def split: prod.splits option.splits sum.splits if_splits)
  then show ?thesis using s1 store by auto
qed

lemma round_trip_genuine:
  assumes "transport_ok content dir s" "serves base content" "RoundTrip srt base req s w = (r, s', w')"
  shows "transport_ok content dir s' \<and>
    (\<forall>resp. rq_method req = ''GET'' \<and> rq_range req = [] \<and> digest_path_re (rq_path req) \<and> r = Inr resp \<and>
       rs_status_code resp = 200 \<and> rs_body_error resp = None \<longrightarrow> rs_body resp = content (digest_of (rq_path req)))"
proof (cases "rq_method req = ''GET'' \<and> rq_range req = [] \<and> digest_path_re (rq_path req)")
  case False
  then have "s' = s" using assms(3) by (auto simp: RoundTrip_def split: prod.splits)
  then show ?thesis using False assms(1) by auto
next
  case True
  then have req: "rq_method req = ''GET''" "rq_range req = []" "digest_path_re (rq_path req)" by simp_all
  let ?key = "response_key (rq_path req)"
  obtain l s1 where l: "load_cached ?key s = (l, s1)" by (meson surj_pair)
  note load = load_cached_ok [OF assms(1) req(3) l]
  show ?thesis
  proof (cases l)
    case (Some e)
    then show ?thesis
      using assms(3) l load req by (auto simp: RoundTrip_def to_response_def Let_def)
  next
    case None
    obtain b w1 where b: "base req w = (b, w1)" by force
    show ?thesis
    proof (cases b)
      case (Inl e)
      then show ?thesis using assms(3) l None b load(1) req by (auto simp: RoundTrip_def Let_def)
    next
      case (Inr resp)
      let ?ct = "header_get (rs_header resp) ''Content-Type''"
      have ok: "CHR 0x0A \<notin> set ?ct" "rs_body_error resp = None \<longrightarrow> rs_body resp = content (digest_of (rq_path req))"
        if "rs_status_code resp = 200"
        using assms(2) req b Inr that unfolding serves_def by blast+
      have rt: "RoundTrip srt base req s w =
        (if rs_status_code resp \<noteq> 200 \<or> \<not> cacheable_content_type ?ct then (Inr resp, s1, w1)
         else (case rs_body_error resp of Some e \<Rightarrow> (Inl e, s1, w1)
           | None \<Rightarrow> (Inr (with_body (rs_body resp) resp), store_cached srt ?key ?ct (rs_body resp) s1, w1)))"
        using l None b Inr req by (simp add: RoundTrip_def Let_def)
      show ?thesis
        using assms(3) rt ok load(1) store_cached_ok [OF load(1) req(3), of ?ct "rs_body resp" srt]
        by (auto simp: with_body_def split: if_splits option.splits)
    qed
  qed
qed

text \<open>C33. The transport is transparent for digests: if the cache holds only genuine entries and the
  registry behind the transport serves content by digest, then every complete response with
  status 200 to a plain GET of a digest path has the content of that digest as its body, whether
  it comes from the disk or from the registry.  The cache holds only genuine entries again after
  any request, whichever file system calls fail and whatever the eviction removes.\<close>

theorem transport_serves_content:
  assumes "transport_ok content dir s" "serves base content" "RoundTrip srt base req s w = (r, s', w')"
  shows "transport_ok content dir s' \<and>
    (\<forall>resp. rq_method req = ''GET'' \<and> rq_range req = [] \<and> digest_path_re (rq_path req) \<and> r = Inr resp \<and>
       rs_status_code resp = 200 \<and> rs_body_error resp = None \<longrightarrow> rs_body resp = content (digest_of (rq_path req)))"
  by (rule round_trip_genuine [OF assms])

lemma disk_fetch_present:
  assumes "no_faults (snd s)" "disk_lookup s k = Some raw"
  shows "\<exists>s'. disk_fetch k s = (Some raw, s')"
  using assms
  by (auto simp: disk_fetch_def disk_lookup_def cache_open_def os_open_def os_chtimes_def os_read_def os_call_def
      no_faults_def Let_def split: option.splits)

text \<open>A response that was cached is served again to every request with the same path.\<close>

lemma cached_replay:
  assumes "disk_inv dir s" "rq_method req = ''GET''" "rq_range req = []" "digest_path_re (rq_path req)"
    and "disk_lookup s (response_key (rq_path req)) = None"
    and "RoundTrip srt base req s w = (Inr resp, s1, w1)" "rs_status_code resp = 200"
    and "cacheable_content_type ct" "ct = header_get (rs_header resp) ''Content-Type''" "CHR 0x0A \<notin> set ct"
    and "disk_lookup s1 (response_key (rq_path req)) \<noteq> None" "no_faults (snd s1)"
    and "rq_method req2 = ''GET''" "rq_range req2 = []" "rq_path req2 = rq_path req"
  shows "\<exists>resp2 s2. RoundTrip srt base2 req2 s1 w2 = (Inr resp2, s2, w2) \<and> rs_status_code resp2 = 200 \<and>
    rs_body resp2 = rs_body resp \<and> rs_content_length resp2 = int (length (rs_body resp)) \<and>
    header_get (rs_header resp2) ''Content-Type'' = ct \<and>
    disk_lookup s2 (response_key (rq_path req)) = disk_lookup s1 (response_key (rq_path req)) \<and> no_faults (snd s2)"
proof -
  let ?key = "response_key (rq_path req)"
  have dir: "has_prefix dir ''/''" using assms(1) by (simp add: disk_inv_def)
  note key = registry_key [OF assms(4) dir]
  obtain f s0 where f: "disk_fetch ?key s = (f, s0)" by (meson surj_pair)
  have look0: "disk_lookup s0 ?key = None" "disk_inv dir s0"
    using disk.lookup_fetch [OF assms(1), of ?key] disk.inv_fetch [OF assms(1), of ?key] f assms(5) by simp_all
  have "f = None"
    using disk.fetch_result [OF assms(1) key(2)] f assms(5) by (cases f) auto
  then have l: "load_cached ?key s = (None, s0)" by (simp add: load_cached_def f)
  obtain b w0 where b: "base req w = (b, w0)" by force
  have rt: "RoundTrip srt base req s w = (case b of Inl e \<Rightarrow> (Inl e, s0, w0) | Inr r \<Rightarrow>
      (let ct = header_get (rs_header r) ''Content-Type''
       in if rs_status_code r \<noteq> 200 \<or> \<not> cacheable_content_type ct then (Inr r, s0, w0)
          else (case rs_body_error r of Some e \<Rightarrow> (Inl e, s0, w0)
           | None \<Rightarrow> (Inr (with_body (rs_body r) r), store_cached srt ?key ct (rs_body r) s0, w0))))"
    using l b assms(2-4) by (cases b) (simp_all add: RoundTrip_def Let_def)
  then have s1: "s1 = store_cached srt ?key ct (rs_body resp) s0"
    using assms(6-9,11) look0(1)
    by (auto simp: Let_def with_body_def split: sum.splits if_splits option.splits)
  obtain raw where raw: "disk_lookup s1 ?key = Some raw" using assms(11) by blast
  then have "raw = encode_entry ct (rs_body resp)"
    using disk_lookup_store [OF look0(2) key(2)] look0(1) unfolding s1 store_cached_def by fastforce
  then have dec: "decode_entry raw = Some \<lparr>ce_content_type = ct, ce_body = rs_body resp\<rparr>"
    using index_bytes_blank [OF assms(10), of "rs_body resp"]
    by (simp add: decode_entry_def encode_entry_def) (simp add: blank_line_def)
  obtain s2 where s2: "disk_fetch ?key s1 = (Some raw, s2)" using disk_fetch_present [OF assms(12) raw] by blast
  have "disk_inv dir s1" using disk.inv_store [OF look0(2)] by (simp add: s1 store_cached_def)
  then have "disk_lookup s2 ?key = disk_lookup s1 ?key" using disk.lookup_fetch s2 by (metis snd_conv)
  moreover have "no_faults (snd s2)" using assms(12) disk_fetch_env [of ?key s1] s2 by (simp add: no_faults_def disk_env_def)
  moreover have "load_cached ?key s1 = (Some \<lparr>ce_content_type = ct, ce_body = rs_body resp\<rparr>, s2)"
    using dec s2 by (simp add: load_cached_def)
  ultimately show ?thesis
    using assms(2-4,13-15) by (simp add: RoundTrip_def Let_def to_response_def header_get_def)
qed

text \<open>A response that was cached is served again without the registry: after a plain GET of a
  digest path that missed and was answered with a complete cacheable response of status 200, and
  provided the cache kept the entry and the disk does not fail, the same request returns the
  same body and content type with status 200, whatever is behind the transport by then, and
  nothing behind it is called.\<close>

theorem transport_replay:
  assumes "disk_inv dir s" "rq_method req = ''GET''" "rq_range req = []" "digest_path_re (rq_path req)"
    and "disk_lookup s (response_key (rq_path req)) = None"
    and "RoundTrip srt base req s w = (Inr resp, s1, w1)" "rs_status_code resp = 200"
    and "cacheable_content_type ct" "ct = header_get (rs_header resp) ''Content-Type''" "CHR 0x0A \<notin> set ct"
    and "disk_lookup s1 (response_key (rq_path req)) \<noteq> None" "no_faults (snd s1)"
  shows "\<exists>resp2 s2. RoundTrip srt base2 req s1 w2 = (Inr resp2, s2, w2) \<and> rs_status_code resp2 = 200 \<and>
    rs_body resp2 = rs_body resp \<and> rs_content_length resp2 = int (length (rs_body resp)) \<and>
    header_get (rs_header resp2) ''Content-Type'' = ct"
proof -
  from cached_replay [OF assms assms(2,3) refl, of base2 w2] obtain resp2 s2 where
    "RoundTrip srt base2 req s1 w2 = (Inr resp2, s2, w2)" "rs_status_code resp2 = 200"
    "rs_body resp2 = rs_body resp" "rs_content_length resp2 = int (length (rs_body resp))"
    "header_get (rs_header resp2) ''Content-Type'' = ct"
    by blast
  then show ?thesis by (intro exI [of _ resp2] exI [of _ s2] conjI)
qed

text \<open>C20. What one host answers is served for every other host, unverified: an answer whose body is
  not the content of the digest, from a registry or anything else that a redirect leads to, is
  stored under a key that holds the path only; from then on every request with that path, to
  whatever host, gets the wrong body with status 200 while nothing behind the transport is
  called, again and again, as long as the disk does not fail.\<close>

theorem wrong_answer_sticks:
  assumes "disk_inv dir s" "rq_method req = ''GET''" "rq_range req = []" "digest_path_re (rq_path req)"
    and "disk_lookup s (response_key (rq_path req)) = None"
    and "RoundTrip srt base req s w = (Inr resp, s1, w1)" "rs_status_code resp = 200"
    and "cacheable_content_type (header_get (rs_header resp) ''Content-Type'')"
    and "CHR 0x0A \<notin> set (header_get (rs_header resp) ''Content-Type'')"
    and "disk_lookup s1 (response_key (rq_path req)) \<noteq> None" "no_faults (snd s1)"
    and "rs_body resp \<noteq> content (digest_of (rq_path req))"
  shows "\<exists>resp2 s2. RoundTrip srt base2 (req\<lparr>rq_host := other\<rparr>) s1 w2 = (Inr resp2, s2, w2) \<and>
    rs_status_code resp2 = 200 \<and> rs_body resp2 \<noteq> content (digest_of (rq_path req)) \<and>
    disk_lookup s2 (response_key (rq_path req)) = disk_lookup s1 (response_key (rq_path req)) \<and> no_faults (snd s2)"
proof -
  have "rq_method (req\<lparr>rq_host := other\<rparr>) = ''GET''" "rq_range (req\<lparr>rq_host := other\<rparr>) = []"
    "rq_path (req\<lparr>rq_host := other\<rparr>) = rq_path req"
    using assms(2,3) by simp_all
  from cached_replay [OF assms(1-8) refl assms(9-11) this, of base2 w2] obtain resp2 s2 where
    "RoundTrip srt base2 (req\<lparr>rq_host := other\<rparr>) s1 w2 = (Inr resp2, s2, w2)" "rs_status_code resp2 = 200"
    "rs_body resp2 = rs_body resp" "no_faults (snd s2)"
    "disk_lookup s2 (response_key (rq_path req)) = disk_lookup s1 (response_key (rq_path req))"
    by blast
  then show ?thesis using assms(12) by (intro exI [of _ resp2] exI [of _ s2]) simp
qed

section \<open>Where a response is stored\<close>

lemma digest_of_append: "length hex = 64 \<Longrightarrow> digest_of (q @ ''sha256:'' @ hex) = ''sha256:'' @ hex"
  by (simp add: digest_of_def)

lemma in_join_with: "c \<in> set (join_with sep xs) \<Longrightarrow> c \<in> set sep \<or> (\<exists>x \<in> set xs. c \<in> set x)"
  by (induction xs) (auto simp: join_with_Cons split: if_splits)

text \<open>A path that the expression accepts can lead out of the cache directory: dots are not excluded
  from the repository part, the key is joined to the directory and cleaned, so for every
  directory there is a path whose response is stored below it.\<close>

theorem key_leaves_cache:
  assumes "has_prefix (ca_dir c) ''/''" "proper_segs t" "\<forall>s \<in> set t. CHR 0x0A \<notin> set s"
    and "length hex = 64" "list_all hex_digit hex"
  shows "\<exists>p. digest_path_re p \<and> digest_of p = ''sha256:'' @ hex \<and>
    cache_path c (response_key p) = abs_path (t @ [''manifests'', ''sha256:'' @ hex])"
proof -
  let ?n = "length (psegs (ca_dir c)) + 2"
  let ?up = "concat (replicate ?n ''/..'')" and ?tail = "t @ [''manifests'', ''sha256:'' @ hex]"
  define up where "up = ''..'' @ concat (replicate (Suc (length (psegs (ca_dir c)))) ''/..'')"
  define repo where "repo = up @ (if t = [] then [] else abs_path t)"
  define p where "p = ''/v2/'' @ repo @ ''/manifests/sha256:'' @ hex"
  have up: "''/'' @ up = ?up" by (simp add: up_def)
  have tail: "proper_segs ?tail" "?tail \<noteq> []" using assms(2) hex_not_slash [OF assms(5)] by (simp_all add: proper_def)
  have "CHR 0x0A \<notin> set repo"
    using assms(3) in_join_with [of "CHR 0x0A" "''/''" t] by (auto simp: repo_def up_def abs_path_def)
  moreover have "repo \<noteq> []" by (simp add: repo_def up_def)
  ultimately have re: "digest_path_re p"
    using assms(4,5) match_digest_path_iff [of "''/manifests/sha256:''" p] unfolding digest_path_re_def p_def by blast
  have "p = (''/v2/'' @ repo @ ''/manifests/'') @ ''sha256:'' @ hex" by (simp add: p_def)
  then have "digest_of p = ''sha256:'' @ hex" using digest_of_append [OF assms(4)] by metis
  moreover have "abs_path ?tail = (if t = [] then [] else abs_path t) @ ''/manifests/sha256:'' @ hex"
    using abs_path_snoc [of "t @ [''manifests'']" "''sha256:'' @ hex"] abs_path_snoc [of t "''manifests''"]
    by (cases "t = []") simp_all
  then have p: "response_key p = (''registry/v2'' @ ?up) @ abs_path ?tail"
    using up by (simp add: response_key_def p_def repo_def)
  have "psegs (ca_dir c @ ''/'' @ ''registry/v2'') = psegs (ca_dir c) @ [''registry'', ''v2'']"
    using psegs_append [of "[''registry'', ''v2'']" "ca_dir c"] by (simp add: abs_path_def proper_def)
  then have "psegs ((ca_dir c @ ''/'' @ ''registry/v2'') @ ?up) = []"
    using psegs_dotdots [of "ca_dir c @ ''/'' @ ''registry/v2''" ?n] by simp
  then have "psegs (ca_dir c @ ''/'' @ response_key p) = ?tail"
    using psegs_append [OF tail, of "(ca_dir c @ ''/'' @ ''registry/v2'') @ ?up"] unfolding p by simp
  then have "cache_path c (response_key p) = abs_path ?tail"
    using path_join_rooted [OF assms(1), of "response_key p"] by (simp add: cache_path_def)
  ultimately show ?thesis using re by blast
qed

section \<open>Witnesses\<close>

definition demo_repo_path :: string where
  "demo_repo_path = ''/v2/library/alpine/manifests/sha256:'' @ replicate 64 (CHR ''a'')"

definition demo_request :: http_request where
  "demo_request = \<lparr>rq_method = ''GET'', rq_host = ''index.docker.io'', rq_range = [], rq_path = demo_repo_path\<rparr>"

text \<open>A registry that counts its calls and serves one document under every path.\<close>

definition demo_registry :: "nat round_tripper" where
  "demo_registry req n = (Inr \<lparr>rs_status = ''200 OK'', rs_status_code = 200,
     rs_header = [(''Content-Type'', ''application/vnd.oci.image.manifest.v1+json'')],
     rs_body = ''{}'', rs_body_error = None, rs_content_length = 2\<rparr>, Suc n)"

definition demo_store :: "cache \<times> disk" where
  "demo_store = (\<lparr>ca_dir = ''/c'', ca_cap = 0, ca_size = 0\<rparr>, demo_disk (\<lambda>_. None))"

lemma demo_store_inv: "disk_inv ''/c'' demo_store"
  by (simp add: disk_inv_def demo_store_def demo_disk_def plain_rand_def has_prefix_iff)

lemma demo_content_type: "CHR 0x0A \<notin> set ''application/vnd.oci.image.manifest.v1+json''"
  by code_simp

lemma demo_path_re: "digest_path_re (rq_path demo_request)"
  by code_simp

definition demo_response :: http_response where
  "demo_response = \<lparr>rs_status = ''200 OK'', rs_status_code = 200,
     rs_header = [(''Content-Type'', ''application/vnd.oci.image.manifest.v1+json'')],
     rs_body = ''{}'', rs_body_error = None, rs_content_length = 2\<rparr>"

lemma round_trip_env: "disk_env (snd (fst (snd (RoundTrip srt base req s w)))) = disk_env (snd s)"
proof -
  obtain l s1 where l: "load_cached (response_key (rq_path req)) s = (l, s1)" by (meson surj_pair)
  then have "s1 = snd (disk_fetch (response_key (rq_path req)) s)"
    by (auto simp: load_cached_def split: prod.splits option.splits)
  then have "disk_env (snd s1) = disk_env (snd s)" by (simp add: disk_fetch_env)
  then show ?thesis
    using l disk_store_env
    by (auto simp: RoundTrip_def store_cached_def Let_def split: prod.splits option.splits sum.splits)
qed

lemma demo_run:
  obtains s1 where
    "RoundTrip (insertion_sort ev_mtime) demo_registry demo_request demo_store 0 = (Inr demo_response, s1, 1)"
    "disk_lookup s1 (response_key (rq_path demo_request)) \<noteq> None" "no_faults (snd s1)"
proof -
  let ?r = "RoundTrip (insertion_sort ev_mtime) demo_registry demo_request demo_store 0"
  have "fst ?r = Inr demo_response" "snd (snd ?r) = 1" by code_simp+
  then have r: "?r = (Inr demo_response, fst (snd ?r), 1)" by (metis prod.collapse)
  moreover have "disk_lookup (fst (snd ?r)) (response_key (rq_path demo_request)) \<noteq> None" by code_simp
  moreover have "no_faults (snd (fst (snd ?r)))"
    using round_trip_env [of "insertion_sort ev_mtime" demo_registry demo_request demo_store 0]
    by (simp add: no_faults_def disk_env_def demo_store_def demo_disk_def)
  ultimately show thesis by (rule that)
qed

lemma demo_store_ok: "transport_ok (\<lambda>_. ''{}'') ''/c'' demo_store"
proof -
  have dec: "decode_entry ''abcd'' = None" by code_simp
  have one: "dk_file (demo_disk (\<lambda>_. None)) = [''/c/old'' \<mapsto> \<lparr>f_bytes = ''abcd'', f_mtime = 1\<rparr>]"
    by (simp add: demo_disk_def dk_file_def)
  have "genuine (\<lambda>_. ''{}'') ''/c'' k raw" if "disk_lookup demo_store k = Some raw" for k raw
  proof -
    have "raw = ''abcd''" using that one by (simp add: disk_lookup_def demo_store_def fun_upd_def split: if_splits)
    then show ?thesis using dec by (simp only: genuine_def option.distinct) simp
  qed
  then have "disk.coherent ''/c'' (genuine (\<lambda>_. ''{}'') ''/c'') demo_store"
    by (simp add: disk.coherent_def)
  then show ?thesis
    using demo_store_inv by (simp add: transport_ok_def)
qed

lemma demo_registry_serves: "serves demo_registry (\<lambda>_. ''{}'')"
  using demo_content_type by (auto simp: serves_def demo_registry_def header_get_def)

theorem transport_serves_content_witness:
  "\<exists>s1. RoundTrip (insertion_sort ev_mtime) demo_registry demo_request demo_store 0 = (Inr demo_response, s1, 1) \<and>
     transport_ok (\<lambda>_. ''{}'') ''/c'' s1 \<and> rs_body demo_response = ''{}''"
proof -
  obtain s1 where run:
    "RoundTrip (insertion_sort ev_mtime) demo_registry demo_request demo_store 0 = (Inr demo_response, s1, 1)"
    by (rule demo_run)
  have "transport_ok (\<lambda>_. ''{}'') ''/c'' s1"
    using transport_serves_content [OF demo_store_ok demo_registry_serves run] by blast
  moreover have "rs_body demo_response = ''{}''" by (simp add: demo_response_def)
  ultimately show ?thesis using run by blast
qed

theorem transport_replay_witness:
  "\<exists>s1 resp2 s2. RoundTrip (insertion_sort ev_mtime) demo_registry demo_request demo_store 0 =
       (Inr demo_response, s1, 1) \<and>
     RoundTrip (insertion_sort ev_mtime) (\<lambda>_ w. (Inl ''offline'', w)) demo_request s1 (7::nat) = (Inr resp2, s2, 7) \<and>
     rs_body resp2 = ''{}''"
proof -
  obtain s1 where run:
    "RoundTrip (insertion_sort ev_mtime) demo_registry demo_request demo_store 0 = (Inr demo_response, s1, 1)"
    "disk_lookup s1 (response_key (rq_path demo_request)) \<noteq> None" "no_faults (snd s1)"
    by (rule demo_run)
  have miss: "disk_lookup demo_store (response_key (rq_path demo_request)) = None" by code_simp
  have cacheable: "cacheable_content_type (header_get (rs_header demo_response) ''Content-Type'')" by code_simp
  have "CHR 0x0A \<notin> set (header_get (rs_header demo_response) ''Content-Type'')" by code_simp
  from transport_replay [OF demo_store_inv _ _ demo_path_re miss run(1) _ cacheable refl this run(2,3),
      of "\<lambda>_ w. (Inl ''offline'', w)" "7::nat"]
  obtain resp2 s2 where second: "RoundTrip (insertion_sort ev_mtime) (\<lambda>_ w. (Inl ''offline'', w)) demo_request s1 (7::nat) =
      (Inr resp2, s2, 7)" "rs_body resp2 = rs_body demo_response"
    by (auto simp: demo_request_def demo_response_def)
  then show ?thesis using run(1) by (simp only: demo_response_def http_response.simps) blast
qed

text \<open>The document that one host served answers a request to another one.\<close>

theorem wrong_answer_sticks_witness:
  "\<exists>s1 resp2 s2. RoundTrip (insertion_sort ev_mtime) demo_registry demo_request demo_store 0 =
       (Inr demo_response, s1, 1) \<and>
     RoundTrip (insertion_sort ev_mtime) demo_registry (demo_request\<lparr>rq_host := ''ghcr.io''\<rparr>) s1 7 = (Inr resp2, s2, 7) \<and>
     rs_status_code resp2 = 200 \<and> rs_body resp2 \<noteq> ''the image''"
proof -
  obtain s1 where run:
    "RoundTrip (insertion_sort ev_mtime) demo_registry demo_request demo_store 0 = (Inr demo_response, s1, 1)"
    "disk_lookup s1 (response_key (rq_path demo_request)) \<noteq> None" "no_faults (snd s1)"
    by (rule demo_run)
  have miss: "disk_lookup demo_store (response_key (rq_path demo_request)) = None" by code_simp
  have req: "rq_method demo_request = ''GET''" "rq_range demo_request = []" by (simp_all add: demo_request_def)
  have cacheable: "cacheable_content_type (header_get (rs_header demo_response) ''Content-Type'')" by code_simp
  have line: "CHR 0x0A \<notin> set (header_get (rs_header demo_response) ''Content-Type'')" by code_simp
  have resp: "rs_status_code demo_response = 200" "rs_body demo_response \<noteq> (\<lambda>_. ''the image'') (digest_of (rq_path demo_request))"
    by (simp_all add: demo_response_def)
  from wrong_answer_sticks [OF demo_store_inv req demo_path_re miss run(1) resp(1) cacheable line run(2,3) resp(2),
      of demo_registry "''ghcr.io''" 7] run(1)
  show ?thesis by blast
qed

theorem key_leaves_cache_witness:
  "\<exists>p. digest_path_re p \<and> cache_path \<lparr>ca_dir = ''/home/u/.cache/ocifuse'', ca_cap = 0, ca_size = 0\<rparr> (response_key p) =
     ''/etc/manifests/sha256:'' @ replicate 64 (CHR ''a'')"
proof -
  let ?c = "\<lparr>ca_dir = ''/home/u/.cache/ocifuse'', ca_cap = 0, ca_size = 0\<rparr>" and ?hex = "replicate 64 (CHR ''a'')"
  have t: "has_prefix (ca_dir ?c) ''/''" "proper_segs [''etc'']" "\<forall>s \<in> set [''etc'']. CHR 0x0A \<notin> set s"
    "length ?hex = 64" "list_all hex_digit ?hex"
    by code_simp+
  have "abs_path ([''etc''] @ [''manifests'', ''sha256:'' @ ?hex]) = ''/etc/manifests/sha256:'' @ ?hex"
    by (simp add: abs_path_def)
  with key_leaves_cache [OF t] show ?thesis by metis
qed

end
