(* ===== verification/Oci.thy ===== *)
theory Oci
  imports Oci_Types
begin

text \<open>
  \<open>internal/oci/oci.go\<close>: choosing the manifest of an index for a platform, and the URL of a
  blob.  What \<open>remote.Get\<close> fetched is a descriptor: its digest and, for an index, the result of
  asking for the index manifest.
\<close>

record repository =
  repo_scheme :: string
  repo_registry :: string
  repo_path :: string

text \<open>A reference by tag or by digest, with the text of the tag or digest.\<close>

datatype reference = RefTag (ref_context: repository) string | RefDigest (ref_context: repository) string

record manifest =
  mf_platform :: "platform option"
  mf_digest :: hash

record remote_desc =
  rd_is_index :: bool
  rd_digest :: hash
  rd_manifests :: "string + manifest list"

text \<open>A resolved image: reference, digest and layers, of a third-party type.\<close>

record 'l oci_image =
  im_ref :: reference
  im_digest :: hash
  im_layers :: "'l list"

definition hash_string :: "hash \<Rightarrow> string" where
  "hash_string h = hash_algorithm h @ '':'' @ hash_hex h"

definition zero_hash :: hash where
  "zero_hash = \<lparr>hash_algorithm = [], hash_hex = []\<rparr>"

definition blob_url :: "reference \<Rightarrow> hash \<Rightarrow> string" where
  "blob_url ref d = (let c = ref_context ref
     in repo_scheme c @ ''://'' @ repo_registry c @ ''/v2/'' @ repo_path c @ ''/blobs/'' @ hash_string d)"

definition os_arch_match :: "platform \<Rightarrow> platform \<Rightarrow> bool" where
  "os_arch_match p q \<longleftrightarrow> plat_os p = plat_os q \<and> plat_arch p = plat_arch q"

text \<open>The loop over the manifests of an index: the digest picked so far and the pairs.\<close>

definition pick_step ::
  "platform \<Rightarrow> hash \<times> (platform \<times> hash) list \<Rightarrow> manifest \<Rightarrow> hash \<times> (platform \<times> hash) list" where
  "pick_step platform acc m =
     (case mf_platform m of
        None \<Rightarrow> acc
      | Some p \<Rightarrow> (if os_arch_match p platform then mf_digest m else fst acc, snd acc @ [(p, mf_digest m)]))"

definition pick_manifest :: "platform \<Rightarrow> manifest list \<Rightarrow> hash \<times> (platform \<times> hash) list" where
  "pick_manifest platform ms = foldl (pick_step platform) (zero_hash, []) ms"

datatype resolve_error = RemoteError string | NoManifest string string

definition ResolveDigestAndPlatforms ::
  "(reference \<Rightarrow> platform \<Rightarrow> 'w \<Rightarrow> (string + remote_desc) \<times> 'w) \<Rightarrow> reference \<Rightarrow> platform \<Rightarrow> 'w \<Rightarrow>
   (resolve_error + hash \<times> (platform \<times> hash) list) \<times> 'w" where
  "ResolveDigestAndPlatforms get ref platform w =
     (case get ref platform w of
        (Inl e, w') \<Rightarrow> (Inl (RemoteError e), w')
      | (Inr desc, w') \<Rightarrow>
          (if \<not> rd_is_index desc then (Inr (rd_digest desc, []), w')
           else case rd_manifests desc of
             Inl e \<Rightarrow> (Inl (RemoteError e), w')
           | Inr ms \<Rightarrow>
               (case pick_manifest platform ms of (picked, pairs) \<Rightarrow>
                  (if picked = zero_hash then (Inl (NoManifest (plat_os platform) (plat_arch platform)), w')
                   else (Inr (picked, pairs), w')))))"

definition ResolveDigest ::
  "(reference \<Rightarrow> platform \<Rightarrow> 'w \<Rightarrow> (string + remote_desc) \<times> 'w) \<Rightarrow> reference \<Rightarrow> platform \<Rightarrow> 'w \<Rightarrow>
   (resolve_error + hash) \<times> 'w" where
  "ResolveDigest get ref platform w = (case ResolveDigestAndPlatforms get ref platform w of
     (Inl e, w') \<Rightarrow> (Inl e, w') | (Inr (d, _), w') \<Rightarrow> (Inr d, w'))"

text \<open>The loop of \<open>imageFromIndex\<close>: the digest whose image it asks the index for.\<close>

fun image_from_index :: "manifest list \<Rightarrow> platform \<Rightarrow> hash option" where
  "image_from_index [] platform = None"
| "image_from_index (m # ms) platform =
     (case mf_platform m of
        None \<Rightarrow> image_from_index ms platform
      | Some p \<Rightarrow> (if os_arch_match p platform then Some (mf_digest m) else image_from_index ms platform))"

definition DefaultPlatform :: platform where
  "DefaultPlatform = \<lparr>plat_os = ''linux'', plat_arch = ''amd64'', plat_variant = []\<rparr>"

section \<open>What is picked\<close>

definition matching :: "platform \<Rightarrow> manifest list \<Rightarrow> manifest list" where
  "matching platform ms = filter (\<lambda>m. case mf_platform m of None \<Rightarrow> False | Some p \<Rightarrow> os_arch_match p platform) ms"

definition platform_pairs :: "manifest list \<Rightarrow> (platform \<times> hash) list" where
  "platform_pairs ms = map (\<lambda>m. (the (mf_platform m), mf_digest m)) (filter (\<lambda>m. mf_platform m \<noteq> None) ms)"

lemma pick_manifest_eq:
  "pick_manifest platform ms =
    ((if matching platform ms = [] then zero_hash else mf_digest (last (matching platform ms))), platform_pairs ms)"
proof (induction ms rule: rev_induct)
  case (snoc m ms)
  then show ?case
    by (cases "mf_platform m")
      (auto simp: pick_manifest_def pick_step_def matching_def platform_pairs_def)
qed (simp add: pick_manifest_def matching_def platform_pairs_def)

lemma image_from_index_eq:
  "image_from_index ms platform = (if matching platform ms = [] then None else Some (mf_digest (hd (matching platform ms))))"
  by (induction ms) (auto simp: matching_def split: option.splits)

end
