(* ===== verification/Layer.thy ===== *)
theory Layer
  imports Oci_Types Tar
begin

text \<open>
  \<open>internal/layer/layer.go\<close>, the data: an indexed layer, whose file system is of a third-party
  type, and the cache keys of its indexes.
\<close>

record 'f layer =
  ly_digest :: hash
  ly_size :: int
  ly_fs :: 'f
  ly_entries :: "tarfs_entry list"

definition index_key :: "hash \<Rightarrow> string \<Rightarrow> string" where
  "index_key d nm = ''layers/'' @ hash_algorithm d @ ''/'' @ hash_hex d @ ''/'' @ nm"

abbreviation gsip_key :: "hash \<Rightarrow> string" where
  "gsip_key d \<equiv> index_key d ''gsip.idx''"

abbreviation toc_key :: "hash \<Rightarrow> string" where
  "toc_key d \<equiv> index_key d ''tarfs.toc''"

end
