(* ===== verification/Mount.thy ===== *)
theory Mount
  imports FsPath Merge Oci Layer "HOL-Library.Word"
begin

unbundle bit_operations_syntax

text \<open>
  \<open>internal/mount/mount.go\<close>: the nodes of the FUSE file system, their operations and the
  resolution of path segments.  An operation takes the reply structure the kernel bridge passes
  and returns it with the node and the error number; \<open>EntryOut\<close> embeds \<open>Attr\<close>, so \<open>out.Mode\<close>
  and \<open>out.Attr.Mode\<close> are one field.
\<close>

section \<open>Attributes\<close>

definition S_IFDIR :: "32 word" where "S_IFDIR = 0x4000"
definition S_IFREG :: "32 word" where "S_IFREG = 0x8000"
definition S_IFLNK :: "32 word" where "S_IFLNK = 0xA000"

record fuse_attr =
  at_size :: "64 word"
  at_blocks :: "64 word"
  at_atime :: "64 word"
  at_mtime :: "64 word"
  at_ctime :: "64 word"
  at_mode :: "32 word"
  at_nlink :: "32 word"
  at_uid :: "32 word"
  at_gid :: "32 word"
  at_blksize :: "32 word"

record entry_out = fuse_attr +
  eo_timeout :: "int option"

definition type_bits :: "char \<Rightarrow> 32 word" where
  "type_bits t = (if t = TypeDir then S_IFDIR else if t = TypeSymlink then S_IFLNK else S_IFREG)"

definition set_attr_from_header ::
  "'a fuse_attr_scheme \<Rightarrow> tar_header \<Rightarrow> bool \<Rightarrow> 'a fuse_attr_scheme" where
  "set_attr_from_header out h isdir =
     (let mode0 = (word_of_int (hmode h) :: 32 word) AND 0xFFF;
          mode = (if mode0 = 0 then (if isdir then 0x1ED else 0x1A4) else mode0);
          sz = (word_of_int (hsize h) :: 64 word);
          out1 = out\<lparr>at_mode := mode OR type_bits (typeflag h), at_size := sz,
            at_uid := word_of_int (huid h), at_gid := word_of_int (hgid h)\<rparr>;
          out2 = (case modtime h of None \<Rightarrow> out1
            | Some t \<Rightarrow> out1\<lparr>at_mtime := word_of_int t, at_atime := word_of_int t, at_ctime := word_of_int t\<rparr>)
      in out2\<lparr>at_nlink := 1, at_blksize := 4096, at_blocks := (sz + 511) div 512\<rparr>)"

section \<open>Nodes\<close>

record 'f resolved_image =
  ri_digest :: hash
  ri_layers :: "'f layer list"
  ri_tree :: tree

datatype 'f node =
    IntermediateNode string
  | MemSymlink string
  | ImageDir "'f resolved_image" path
  | ImageFile "'f layer list" entry
  | ImageMetaDir "'f resolved_image"
  | LayersDir "'f resolved_image"
  | LayerDir "'f layer" tree path
  | LayerMetaDir "'f layer"
  | TextFile bytes

datatype errno = ENOENT | EIO

text \<open>A reply: an inode, which is a node with its stable mode, or an error number.\<close>

type_synonym 'f reply = "(errno + 'f node \<times> 32 word) \<times> entry_out"

definition MetaDirName :: string where "MetaDirName = ''@@meta''"

definition join_in_image :: "path \<Rightarrow> string \<Rightarrow> path" where
  "join_in_image parent child = (if parent = ''/'' then ''/'' @ child else parent @ ''/'' @ child)"

text \<open>The file type that \<open>Lookup\<close> and \<open>Readdir\<close> report for an entry.\<close>

definition entry_mode :: "entry \<Rightarrow> 32 word" where
  "entry_mode e = (if is_dir e then S_IFDIR else if is_symlink e then S_IFLNK else S_IFREG)"

definition image_dir_getattr :: "'f resolved_image \<Rightarrow> path \<Rightarrow> fuse_attr \<Rightarrow> fuse_attr" where
  "image_dir_getattr ri p out =
     (case tree_get (ri_tree ri) p of
        Inr e \<Rightarrow> set_attr_from_header out (eheader e) True
      | Inl _ \<Rightarrow> out\<lparr>at_mode := S_IFDIR OR 0x1ED\<rparr>)"

definition image_dir_lookup :: "'f resolved_image \<Rightarrow> path \<Rightarrow> string \<Rightarrow> entry_out \<Rightarrow> 'f reply" where
  "image_dir_lookup ri p child out =
     (if p = ''/'' \<and> child = MetaDirName
      then (Inr (ImageMetaDir ri, S_IFDIR), out\<lparr>at_mode := S_IFDIR OR 0x1ED\<rparr>)
      else
        (let child_path = join_in_image p child
         in case tree_get (ri_tree ri) child_path of
              Inl _ \<Rightarrow> (Inl ENOENT, out)
            | Inr e \<Rightarrow>
                (let embedder = (if is_dir e then ImageDir ri child_path
                       else if is_symlink e then MemSymlink (linkname (eheader e))
                       else ImageFile (ri_layers ri) e);
                     out1 = set_attr_from_header out (eheader e) (is_dir e);
                     out2 = out1\<lparr>at_mode := entry_mode e\<rparr>
                 in (Inr (embedder, entry_mode e), out2))))"

definition image_dir_readdir :: "'f resolved_image \<Rightarrow> path \<Rightarrow> (string \<times> 32 word) list" where
  "image_dir_readdir ri p =
     (if p = ''/'' then [(MetaDirName, S_IFDIR)] else []) @
     map (\<lambda>e. (path_base (epath e), entry_mode e)) (tree_children (ri_tree ri) p)"

definition image_file_getattr :: "entry \<Rightarrow> fuse_attr \<Rightarrow> fuse_attr" where
  "image_file_getattr e out = set_attr_from_header out (eheader e) False"

text \<open>Opening a file: \<open>fs_open\<close> is the \<open>Open\<close> of the layer's \<open>tarfs\<close>.\<close>

definition image_file_open ::
  "('f \<Rightarrow> string \<Rightarrow> 'e + 'h) \<Rightarrow> 'f layer list \<Rightarrow> entry \<Rightarrow> errno + 'h" where
  "image_file_open fs_open layers e =
     (if elayer e < 0 \<or> int (length layers) \<le> elayer e then Inl EIO
      else case fs_open (ly_fs (layers ! nat (elayer e))) (trim_prefix (epath e) ''/'') of
             Inl _ \<Rightarrow> Inl EIO
           | Inr h \<Rightarrow> Inr h)"

text \<open>Reading from an open handle: \<open>read_at\<close> is the \<open>ReadAt\<close> of the handle, if it has one, and
  returns the buffer, the count and the error.\<close>

definition image_file_read ::
  "('h \<Rightarrow> (bytes \<Rightarrow> int \<Rightarrow> bytes \<times> nat \<times> string option) option) \<Rightarrow> string \<Rightarrow> 'h \<Rightarrow> bytes \<Rightarrow> int \<Rightarrow> errno + bytes" where
  "image_file_read reader_of eof h dest off =
     (case reader_of h of
        None \<Rightarrow> Inl EIO
      | Some read \<Rightarrow> (case read dest off of (buf, n, err) \<Rightarrow>
          (if err \<noteq> None \<and> err \<noteq> Some eof then Inl EIO else Inr (take n buf))))"

section \<open>Path segments\<close>

datatype segment_kind = SegIntermediate | SegTagRef | SegDigestRef

text \<open>The path accumulated so far and the next segment.\<close>

definition extend_path :: "string \<Rightarrow> string \<Rightarrow> string" where
  "extend_path accumulated child = (if accumulated \<noteq> [] then accumulated @ ''/'' @ child else child)"

definition classify_segment ::
  "(string \<Rightarrow> 'e + reference) \<Rightarrow> (string \<Rightarrow> 'e + platform) \<Rightarrow> string \<Rightarrow> string \<Rightarrow>
   'e parse_error + segment_kind \<times> reference option \<times> platform option \<times> string" where
  "classify_segment parse_reference parse_platform accumulated child =
     (let full = extend_path accumulated child
      in case Parse parse_reference parse_platform full of
           Inl e \<Rightarrow> Inl e
         | Inr parsed \<Rightarrow>
             (case p_ref parsed of
                None \<Rightarrow> Inr (SegIntermediate, None, None, full)
              | Some (RefDigest c d) \<Rightarrow> Inr (SegDigestRef, Some (RefDigest c d), p_platform parsed, full)
              | Some (RefTag c t) \<Rightarrow> Inr (SegTagRef, Some (RefTag c t), p_platform parsed, full)))"

definition tag_symlink_target :: "reference \<Rightarrow> hash \<Rightarrow> string" where
  "tag_symlink_target ref digest = path_base (repo_path (ref_context ref)) @ ''@'' @ hash_string digest"

definition same_platform :: "platform \<Rightarrow> platform \<Rightarrow> bool" where
  "same_platform a b \<longleftrightarrow> plat_os a = plat_os b \<and> plat_arch a = plat_arch b \<and> plat_variant a = plat_variant b"

text \<open>The part of a name after the tilde.\<close>

definition platform_spec :: "platform \<Rightarrow> string" where
  "platform_spec p = plat_os p @ ''-'' @ plat_arch p @ (if plat_variant p \<noteq> [] then ''-'' @ plat_variant p else [])"

text \<open>The children of the parent inode that have been added persistently: name and target.\<close>

type_synonym siblings = "string \<rightharpoonup> string"

definition add_sibling ::
  "reference \<Rightarrow> platform option \<Rightarrow> string \<Rightarrow> siblings \<Rightarrow> platform \<times> hash \<Rightarrow> siblings" where
  "add_sibling ref current tag children pd =
     (let base = path_base (repo_path (ref_context ref))
      in if current \<noteq> None \<and> same_platform (the current) (fst pd) then children
         else let nm = base @ '':'' @ tag @ ''~'' @ platform_spec (fst pd)
              in if children nm \<noteq> None then children
                 else children(nm \<mapsto> base @ ''@'' @ hash_string (snd pd)))"

definition add_platform_siblings ::
  "reference \<Rightarrow> platform option \<Rightarrow> (platform \<times> hash) list \<Rightarrow> siblings \<Rightarrow> siblings" where
  "add_platform_siblings ref current platforms children =
     (case ref of
        RefDigest _ _ \<Rightarrow> children
      | RefTag _ tag \<Rightarrow> foldl (add_sibling ref current tag) children platforms)"

section \<open>Resolving images\<close>

record 'f filesystem =
  fs_platform :: platform
  fs_tag_ttl :: int
  fs_images :: "hash \<rightharpoonup> 'f resolved_image"

definition platform_or :: "'f filesystem \<Rightarrow> platform option \<Rightarrow> platform" where
  "platform_or f p = (case p of Some q \<Rightarrow> q | None \<Rightarrow> fs_platform f)"

fun open_layers ::
  "('l \<Rightarrow> string + hash) \<Rightarrow> (string \<Rightarrow> 'l \<Rightarrow> 'w \<Rightarrow> (string + 'f layer) \<times> 'w) \<Rightarrow> reference \<Rightarrow> 'l list \<Rightarrow> 'w \<Rightarrow>
   (string + 'f layer list) \<times> 'w" where
  "open_layers digest_of_layer ix_open ref [] w = (Inr [], w)"
| "open_layers digest_of_layer ix_open ref (l # ls) w =
     (case digest_of_layer l of
        Inl e \<Rightarrow> (Inl e, w)
      | Inr d \<Rightarrow>
          (case ix_open (blob_url ref d) l w of
             (Inl e, w1) \<Rightarrow> (Inl e, w1)
           | (Inr lr, w1) \<Rightarrow>
               (case open_layers digest_of_layer ix_open ref ls w1 of
                  (Inl e, w2) \<Rightarrow> (Inl e, w2)
                | (Inr lrs, w2) \<Rightarrow> (Inr (lr # lrs), w2))))"

text \<open>The third-party and network functions that resolving needs.\<close>

record ('l, 'f, 'w) services =
  sv_new_hash :: "string \<Rightarrow> string + hash"
  sv_resolve :: "reference \<Rightarrow> platform \<Rightarrow> 'w \<Rightarrow> (string + 'l oci_image) \<times> 'w"
  sv_layer_digest :: "'l \<Rightarrow> string + hash"
  sv_open_layer :: "string \<Rightarrow> 'l \<Rightarrow> 'w \<Rightarrow> (string + 'f layer) \<times> 'w"
  sv_get :: "reference \<Rightarrow> platform \<Rightarrow> 'w \<Rightarrow> (string + remote_desc) \<times> 'w"
  sv_sort :: "tarfs_entry list \<Rightarrow> tarfs_entry list"

text \<open>The image cache consulted before anything is fetched, for references by digest.\<close>

definition cached_image :: "('l, 'f, 'w) services \<Rightarrow> 'f filesystem \<Rightarrow> reference \<Rightarrow> 'f resolved_image option" where
  "cached_image sv f ref =
     (case ref of
        RefTag _ _ \<Rightarrow> None
      | RefDigest _ d \<Rightarrow> (case sv_new_hash sv d of Inl _ \<Rightarrow> None | Inr h \<Rightarrow> fs_images f h))"

text \<open>The last step of the fetch: an image that is there by now wins.\<close>

definition insert_image :: "'f resolved_image \<Rightarrow> hash \<Rightarrow> 'f filesystem \<Rightarrow> 'f resolved_image \<times> 'f filesystem" where
  "insert_image ri h f =
     (case fs_images f h of
        Some existing \<Rightarrow> (existing, f)
      | None \<Rightarrow> (ri, f\<lparr>fs_images := (fs_images f)(h \<mapsto> ri)\<rparr>))"

definition build_image ::
  "('l, 'f, 'w) services \<Rightarrow> 'l oci_image \<Rightarrow> 'w \<Rightarrow> (string + 'f resolved_image) \<times> 'w" where
  "build_image sv img w =
     (case open_layers (sv_layer_digest sv) (sv_open_layer sv) (im_ref img) (im_layers img) w of
        (Inl e, w1) \<Rightarrow> (Inl e, w1)
      | (Inr layers, w1) \<Rightarrow>
          (Inr \<lparr>ri_digest = im_digest img, ri_layers = layers,
                ri_tree = Merge (sv_sort sv) (map ly_entries layers)\<rparr>, w1))"

definition resolve_image ::
  "('l, 'f, 'w) services \<Rightarrow> 'f filesystem \<Rightarrow> reference \<Rightarrow> platform \<Rightarrow> 'w \<Rightarrow>
   (string + 'f resolved_image) \<times> 'f filesystem \<times> 'w" where
  "resolve_image sv f ref platform w =
     (case cached_image sv f ref of
        Some ri \<Rightarrow> (Inr ri, f, w)
      | None \<Rightarrow>
          (case sv_resolve sv ref platform w of
             (Inl e, w1) \<Rightarrow> (Inl e, f, w1)
           | (Inr img, w1) \<Rightarrow>
               (case fs_images f (im_digest img) of
                  Some ri \<Rightarrow> (Inr ri, f, w1)
                | None \<Rightarrow>
                    (case build_image sv img w1 of
                       (Inl e, w2) \<Rightarrow> (Inl e, f, w2)
                     | (Inr ri, w2) \<Rightarrow>
                         (case insert_image ri (im_digest img) f of (ri', f') \<Rightarrow> (Inr ri', f', w2))))))"

section \<open>Resolving a segment\<close>

definition minute :: int where "minute = 60 * 1000000000"

definition tag_symlink ::
  "('l, 'f, 'w) services \<Rightarrow> 'f filesystem \<Rightarrow> reference \<Rightarrow> platform option \<Rightarrow> siblings \<Rightarrow> entry_out \<Rightarrow> 'w \<Rightarrow>
   'f reply \<times> siblings \<times> 'w" where
  "tag_symlink sv f ref plat children out w =
     (case ResolveDigestAndPlatforms (sv_get sv) ref (platform_or f plat) w of
        (Inl _, w1) \<Rightarrow> ((Inl EIO, out), children, w1)
      | (Inr (digest, platforms), w1) \<Rightarrow>
          (let target = tag_symlink_target ref digest;
               ttl = (if fs_tag_ttl f \<le> 0 then minute else fs_tag_ttl f);
               out1 = out\<lparr>at_mode := S_IFLNK OR 0x1FF, at_size := word_of_nat (length target),
                 eo_timeout := Some ttl\<rparr>;
               children1 = (if platforms \<noteq> [] then add_platform_siblings ref plat platforms children else children)
           in ((Inr (MemSymlink target, S_IFLNK), out1), children1, w1)))"

definition image_root ::
  "('l, 'f, 'w) services \<Rightarrow> 'f filesystem \<Rightarrow> reference \<Rightarrow> platform option \<Rightarrow> entry_out \<Rightarrow> 'w \<Rightarrow>
   'f reply \<times> 'f filesystem \<times> 'w" where
  "image_root sv f ref plat out w =
     (case resolve_image sv f ref (platform_or f plat) w of
        (Inl _, f1, w1) \<Rightarrow> ((Inl EIO, out), f1, w1)
      | (Inr ri, f1, w1) \<Rightarrow>
          ((Inr (ImageDir ri ''/'', S_IFDIR), out\<lparr>at_mode := S_IFDIR OR 0x1ED\<rparr>), f1, w1))"

definition resolve_segment ::
  "(string \<Rightarrow> string + reference) \<Rightarrow> (string \<Rightarrow> string + platform) \<Rightarrow> ('l, 'f, 'w) services \<Rightarrow> 'f filesystem \<Rightarrow>
   string \<Rightarrow> string \<Rightarrow> siblings \<Rightarrow> entry_out \<Rightarrow> 'w \<Rightarrow> 'f reply \<times> 'f filesystem \<times> siblings \<times> 'w" where
  "resolve_segment parse_reference parse_platform sv f accumulated child children out w =
     (case classify_segment parse_reference parse_platform accumulated child of
        Inl _ \<Rightarrow> ((Inl ENOENT, out), f, children, w)
      | Inr (SegIntermediate, _, _, full) \<Rightarrow>
          ((Inr (IntermediateNode full, S_IFDIR), out\<lparr>at_mode := S_IFDIR OR 0x1ED\<rparr>), f, children, w)
      | Inr (SegTagRef, ref, plat, full) \<Rightarrow>
          (case tag_symlink sv f (the ref) plat children out w of (r, children1, w1) \<Rightarrow> (r, f, children1, w1))
      | Inr (SegDigestRef, ref, plat, full) \<Rightarrow>
          (case image_root sv f (the ref) plat out w of (r, f1, w1) \<Rightarrow> (r, f1, children, w1)))"

definition root_lookup where
  "root_lookup parse_reference parse_platform sv f child children out w =
     resolve_segment parse_reference parse_platform sv f [] child children out w"

definition intermediate_lookup where
  "intermediate_lookup parse_reference parse_platform sv f accumulated child children out w =
     resolve_segment parse_reference parse_platform sv f accumulated child children out w"

end
