(* ===== verification/Meta.thy ===== *)
theory Meta
  imports Mount
begin

text \<open>
  \<open>internal/mount/meta.go\<close>: the synthetic \<open>@@meta\<close> directories with the digests and the raw
  view of each layer.
\<close>

definition new_text_file :: "bytes \<Rightarrow> entry_out \<Rightarrow> 'f reply" where
  "new_text_file body out =
     (Inr (TextFile body, S_IFREG), out\<lparr>at_mode := S_IFREG OR 0x124, at_size := word_of_nat (length body)\<rparr>)"

definition newline :: string where "newline = [CHR 0x0A]"

section \<open>The image's \<open>@@meta\<close>\<close>

definition image_meta_lookup :: "'f resolved_image \<Rightarrow> string \<Rightarrow> entry_out \<Rightarrow> 'f reply" where
  "image_meta_lookup ri child out =
     (if child = ''digest'' then new_text_file (hash_string (ri_digest ri) @ newline) out
      else if child = ''layers''
      then (Inr (LayersDir ri, S_IFDIR), out\<lparr>at_mode := S_IFDIR OR 0x1ED\<rparr>)
      else (Inl ENOENT, out))"

definition image_meta_readdir :: "(string \<times> 32 word) list" where
  "image_meta_readdir = [(''digest'', S_IFREG), (''layers'', S_IFDIR)]"

section \<open>The layers\<close>

text \<open>The loop of \<open>layersDir.Lookup\<close>.\<close>

fun find_layer :: "'f layer list \<Rightarrow> string \<Rightarrow> 'f layer option" where
  "find_layer [] child = None"
| "find_layer (ly # lys) child = (if hash_string (ly_digest ly) = child then Some ly else find_layer lys child)"

definition layers_lookup :: "'f resolved_image \<Rightarrow> string \<Rightarrow> entry_out \<Rightarrow> 'f reply" where
  "layers_lookup ri child out =
     (case find_layer (ri_layers ri) child of
        None \<Rightarrow> (Inl ENOENT, out)
      | Some ly \<Rightarrow>
          (Inr (LayerDir ly (LayerTree (ly_entries ly)) ''/'', S_IFDIR), out\<lparr>at_mode := S_IFDIR OR 0x1ED\<rparr>))"

definition layers_readdir :: "'f resolved_image \<Rightarrow> (string \<times> 32 word) list" where
  "layers_readdir ri = map (\<lambda>ly. (hash_string (ly_digest ly), S_IFDIR)) (ri_layers ri)"

section \<open>One layer\<close>

definition layer_dir_getattr :: "tree \<Rightarrow> path \<Rightarrow> fuse_attr \<Rightarrow> fuse_attr" where
  "layer_dir_getattr t p out =
     (case tree_get t p of
        Inr e \<Rightarrow> set_attr_from_header out (eheader e) True
      | Inl _ \<Rightarrow> out\<lparr>at_mode := S_IFDIR OR 0x1ED\<rparr>)"

definition layer_dir_lookup :: "'f layer \<Rightarrow> tree \<Rightarrow> path \<Rightarrow> string \<Rightarrow> entry_out \<Rightarrow> 'f reply" where
  "layer_dir_lookup ly t p child out =
     (if p = ''/'' \<and> child = MetaDirName
      then (Inr (LayerMetaDir ly, S_IFDIR), out\<lparr>at_mode := S_IFDIR OR 0x1ED\<rparr>)
      else
        (let child_path = join_in_image p child
         in case tree_get t child_path of
              Inl _ \<Rightarrow> (Inl ENOENT, out)
            | Inr e \<Rightarrow>
                (let embedder = (if is_dir e then LayerDir ly t child_path
                       else if is_symlink e then MemSymlink (linkname (eheader e))
                       else ImageFile [ly] e);
                     out1 = set_attr_from_header out (eheader e) (is_dir e);
                     out2 = out1\<lparr>at_mode := entry_mode e\<rparr>
                 in (Inr (embedder, entry_mode e), out2))))"

definition layer_dir_readdir :: "tree \<Rightarrow> path \<Rightarrow> (string \<times> 32 word) list" where
  "layer_dir_readdir t p =
     (if p = ''/'' then [(MetaDirName, S_IFDIR)] else []) @
     map (\<lambda>e. (path_base (epath e), entry_mode e)) (tree_children t p)"

definition layer_meta_lookup :: "'f layer \<Rightarrow> string \<Rightarrow> entry_out \<Rightarrow> 'f reply" where
  "layer_meta_lookup ly child out =
     (if child = ''layer-digest'' then new_text_file (hash_string (ly_digest ly) @ newline) out
      else (Inl ENOENT, out))"

definition layer_meta_readdir :: "(string \<times> 32 word) list" where
  "layer_meta_readdir = [(''layer-digest'', S_IFREG)]"

section \<open>The directory operations of every node\<close>

text \<open>The kernel's \<open>Lookup\<close> and \<open>Readdir\<close> on a node inside an image: the method of the node's
  type, none for nodes that are not directories.\<close>

fun node_lookup :: "'f node \<Rightarrow> string \<Rightarrow> entry_out \<Rightarrow> 'f reply option" where
  "node_lookup (ImageDir ri p) child out = Some (image_dir_lookup ri p child out)"
| "node_lookup (ImageMetaDir ri) child out = Some (image_meta_lookup ri child out)"
| "node_lookup (LayersDir ri) child out = Some (layers_lookup ri child out)"
| "node_lookup (LayerDir ly t p) child out = Some (layer_dir_lookup ly t p child out)"
| "node_lookup (LayerMetaDir ly) child out = Some (layer_meta_lookup ly child out)"
| "node_lookup _ child out = None"

fun node_readdir :: "'f node \<Rightarrow> (string \<times> 32 word) list option" where
  "node_readdir (ImageDir ri p) = Some (image_dir_readdir ri p)"
| "node_readdir (ImageMetaDir ri) = Some image_meta_readdir"
| "node_readdir (LayersDir ri) = Some (layers_readdir ri)"
| "node_readdir (LayerDir ly t p) = Some (layer_dir_readdir t p)"
| "node_readdir (LayerMetaDir ly) = Some layer_meta_readdir"
| "node_readdir _ = None"

end
