(* ===== verification/Mount_Lemmas.thy ===== *)
theory Mount_Lemmas
  imports Meta Image_Tree
begin

text \<open>
  The nodes of an image as the kernel walks them: which nodes are reachable, what holds of each,
  and the layer index of the entries that become files; and what the image cache holds.
\<close>

section \<open>Reachable nodes\<close>

inductive image_node :: "'f resolved_image \<Rightarrow> 'f node \<Rightarrow> bool" for ri where
  root: "image_node ri (ImageDir ri ''/'')"
| step: "image_node ri n \<Longrightarrow> proper child \<Longrightarrow> node_lookup n child out = Some (Inr (n', m), out') \<Longrightarrow>
    image_node ri n'"

inductive_cases image_nodeE: "image_node ri n"

text \<open>An image whose tree is the merge of its layers.\<close>

definition merged_image :: "'f resolved_image \<Rightarrow> bool" where
  "merged_image ri \<longleftrightarrow> (\<exists>srt. slice_sorter filename srt \<and> ri_tree ri = Merge srt (map ly_entries (ri_layers ri)))"

definition dir_path :: "path \<Rightarrow> bool" where
  "dir_path p \<longleftrightarrow> (\<exists>segs. proper_segs segs \<and> p = abs_path segs)"

text \<open>A file entry knows the layer its content is in.\<close>

definition entry_in :: "'f layer list \<Rightarrow> entry \<Rightarrow> bool" where
  "entry_in layers e \<longleftrightarrow> 0 \<le> elayer e \<and> elayer e < int (length layers)"

fun node_ok :: "'f resolved_image \<Rightarrow> 'f node \<Rightarrow> bool" where
  "node_ok ri (ImageDir ri' p) \<longleftrightarrow> ri' = ri \<and> dir_path p"
| "node_ok ri (ImageFile layers e) \<longleftrightarrow> entry_in layers e \<and> dir_path (epath e) \<and> \<not> is_dir e \<and> \<not> is_symlink e"
| "node_ok ri (ImageMetaDir ri') \<longleftrightarrow> ri' = ri"
| "node_ok ri (LayersDir ri') \<longleftrightarrow> ri' = ri"
| "node_ok ri (LayerDir ly t p) \<longleftrightarrow> ly \<in> set (ri_layers ri) \<and> t = LayerTree (ly_entries ly) \<and> dir_path p"
| "node_ok ri (LayerMetaDir ly) \<longleftrightarrow> ly \<in> set (ri_layers ri)"
| "node_ok ri (IntermediateNode _) \<longleftrightarrow> False"
| "node_ok ri _ \<longleftrightarrow> True"

lemma join_in_image_abs: "proper_segs segs \<Longrightarrow> join_in_image (abs_path segs) child = abs_path (segs @ [child])"
  using abs_path_root [of segs] by (simp add: join_in_image_def abs_path_snoc)

lemma dir_path_join: "dir_path p \<Longrightarrow> proper child \<Longrightarrow> dir_path (join_in_image p child)"
proof -
  assume "dir_path p" "proper child"
  then obtain segs where "proper_segs (segs @ [child])" "p = abs_path segs" "proper_segs segs"
    by (auto simp: dir_path_def)
  then show "dir_path (join_in_image p child)"
    unfolding dir_path_def by (metis join_in_image_abs)
qed

lemma dir_path_join_psegs: "dir_path p \<Longrightarrow> join_in_image p child = abs_path (psegs p @ [child])"
  by (auto simp: dir_path_def join_in_image_abs)

lemma dir_path_canon: "dir_path (canon p)"
  unfolding dir_path_def canon_eq by (rule exI [of _ "psegs p"]) simp

lemma trim_root: "trim_prefix (abs_path segs) ''/'' = join_with ''/'' segs"
  by (simp add: trim_prefix_def has_prefix_def abs_path_def)

section \<open>Layer indices\<close>

definition indexed :: "int \<Rightarrow> (string list \<rightharpoonup> entry) \<Rightarrow> bool" where
  "indexed n v \<longleftrightarrow> (\<forall>p e. v p = Some e \<longrightarrow> is_dir e \<or> 0 \<le> elayer e \<and> elayer e < n)"

lemma is_dir_root [simp]: "is_dir root_entry"
  and is_dir_synthetic [simp]: "is_dir (synthetic_dir p)"
  by (simp_all add: is_dir_def root_entry_def synthetic_dir_def zero_header_def)

lemma indexed_effect: "indexed n v \<Longrightarrow> 0 \<le> li \<Longrightarrow> li < n \<Longrightarrow> indexed n (op_effect li op v)"
  by (cases op) (auto simp: indexed_def split: if_splits)

lemma indexed_effects:
  "indexed n v \<Longrightarrow> 0 \<le> li \<Longrightarrow> li < n \<Longrightarrow> indexed n (foldl (\<lambda>v op. op_effect li op v) v ops)"
  by (induction ops arbitrary: v) (simp_all add: indexed_effect)

lemma indexed_stack: "indexed (int (length layers)) (view (stack_layers srt layers))"
proof (induction layers rule: rev_induct)
  case Nil
  show ?case by (auto simp: indexed_def view_new_tree)
next
  case (snoc es layers)
  then have "indexed (int (length (layers @ [es]))) (view (stack_layers srt layers))"
    by (fastforce simp: indexed_def)
  then show ?case
    by (simp add: stack_layers_snoc view_apply_layer indexed_effects)
qed

lemma merged_index:
  assumes "tree_get (Merge srt layers) q = Inr e" "\<not> is_dir e"
  shows "0 \<le> elayer e \<and> elayer e < int (length layers)"
proof -
  have "view (stack_layers srt layers) (psegs q) = Some e"
    using assms by (auto simp: Merge_finish tree_get_view view_finish [OF stack_layers_wf] split: option.splits if_splits)
  then show ?thesis
    using indexed_stack [of layers srt] assms(2) by (auto simp: indexed_def)
qed

lemma layer_stack_index: "view (foldl layer_put new_tree es) p = Some e \<Longrightarrow> elayer e = 0"
proof (induction es arbitrary: p e rule: rev_induct)
  case Nil
  then show ?case by (auto simp: view_new_tree root_entry_def split: if_splits)
next
  case (snoc x es)
  then show ?case by (auto simp: layer_put_def Let_def canon_eq view_put split: if_splits)
qed

lemma raw_index:
  assumes "tree_get (LayerTree es) q = Inr e" "\<not> is_dir e"
  shows "elayer e = 0"
proof -
  have "view (layer_stack es) (psegs q) = Some e"
    using assms by (auto simp: LayerTree_finish tree_get_view view_finish [OF layer_stack_wf(1)]
        split: option.splits if_splits)
  then show ?thesis using layer_stack_index by (simp add: layer_stack_def)
qed

section \<open>The invariant of reachable nodes\<close>

lemma find_layer_in: "find_layer lys child = Some ly \<Longrightarrow> ly \<in> set lys \<and> hash_string (ly_digest ly) = child"
  by (induction lys) (auto split: if_splits)

lemma find_layer_None: "find_layer lys child = None \<longleftrightarrow> (\<forall>ly \<in> set lys. hash_string (ly_digest ly) \<noteq> child)"
  by (induction lys) auto

lemma node_ok_step:
  assumes "merged_image ri" "node_ok ri n" "proper child" "node_lookup n child out = Some (Inr (n', m), out')"
  shows "node_ok ri n'"
proof (cases n)
  case (ImageDir ri' p)
  with assms(2) have ri: "ri' = ri" "dir_path p" by simp_all
  obtain srt where srt: "ri_tree ri = Merge srt (map ly_entries (ri_layers ri))"
    using assms(1) by (auto simp: merged_image_def)
  have "node_ok ri n'" if "tree_get (ri_tree ri) (join_in_image p child) = Inr e"
    "n' = (if is_dir e then ImageDir ri (join_in_image p child)
       else if is_symlink e then MemSymlink (linkname (eheader e)) else ImageFile (ri_layers ri) e)" for e
    using that(2) dir_path_join [OF ri(2) assms(3)] merged_index [OF that(1) [unfolded srt]]
      merged.get_epath [OF that(1) [unfolded srt]] dir_path_canon
    by (auto simp: entry_in_def)
  then show ?thesis
    using assms(4) ImageDir ri
    by (auto simp: image_dir_lookup_def Let_def split: if_splits sum.splits)
next
  case (LayerDir ly t p)
  with assms(2) have ly: "ly \<in> set (ri_layers ri)" "t = LayerTree (ly_entries ly)" "dir_path p" by simp_all
  have "node_ok ri n'" if "tree_get t (join_in_image p child) = Inr e"
    "n' = (if is_dir e then LayerDir ly t (join_in_image p child)
       else if is_symlink e then MemSymlink (linkname (eheader e)) else ImageFile [ly] e)" for e
    using that(2) dir_path_join [OF ly(3) assms(3)] raw_index [OF that(1) [unfolded ly(2)]] ly
      raw.get_epath [OF that(1) [unfolded ly(2)]] dir_path_canon
    by (auto simp: entry_in_def)
  then show ?thesis
    using assms(4) LayerDir ly
    by (auto simp: layer_dir_lookup_def Let_def split: if_splits sum.splits)
next
  case (ImageMetaDir ri')
  then show ?thesis
    using assms(2,4) by (auto simp: image_meta_lookup_def new_text_file_def split: if_splits)
next
  case (LayersDir ri')
  moreover have "dir_path ''/''" unfolding dir_path_def by (rule exI [of _ "[]"]) simp
  ultimately show ?thesis
    using assms(2,4) by (auto simp: layers_lookup_def split: option.splits dest: find_layer_in)
next
  case (LayerMetaDir ly)
  then show ?thesis
    using assms(4) by (auto simp: layer_meta_lookup_def new_text_file_def split: if_splits)
qed (use assms(4) in simp_all)

lemma image_node_ok: "image_node ri n \<Longrightarrow> merged_image ri \<Longrightarrow> node_ok ri n"
proof (induction rule: image_node.induct)
  case root
  show ?case by (auto simp: dir_path_def intro: exI [of _ "[]"])
next
  case (step n child out n' m out')
  then show ?case using node_ok_step by blast
qed

section \<open>The image cache\<close>

text \<open>What the image cache holds.\<close>

definition images_ok :: "('l, 'f, 'w) services \<Rightarrow> 'f filesystem \<Rightarrow> bool" where
  "images_ok sv f \<longleftrightarrow> (\<forall>h ri. fs_images f h = Some ri \<longrightarrow>
     ri_digest ri = h \<and> ri_tree ri = Merge (sv_sort sv) (map ly_entries (ri_layers ri)))"

lemma build_image_digest:
  "build_image sv img w = (Inr ri, w') \<Longrightarrow>
    ri_digest ri = im_digest img \<and> ri_tree ri = Merge (sv_sort sv) (map ly_entries (ri_layers ri))"
  by (auto simp: build_image_def split: prod.splits sum.splits)

end
