(* ===== verification/Mount_Props.thy ===== *)
theory Mount_Props
  imports Mount_Lemmas
begin

text \<open>
  The properties of the mount: listings and lookups agree on every node of an image, files are
  opened in the layer they come from, attributes are computed exactly, a walk through the
  hierarchy reaches the image its path names, and images are fetched once.  Two properties show
  where replies differ from what they should be.
\<close>

section \<open>Listings and lookups\<close>

lemma image_dir_agree:
  assumes "ri_tree ri = Merge srt (map ly_entries (ri_layers ri))" "dir_path p" "proper s"
    and "node_readdir (ImageDir ri p) = Some listing"
  shows "((\<exists>n' out'. node_lookup (ImageDir ri p) s out = Some (Inr (n', m), out')) \<longrightarrow> (s, m) \<in> set listing) \<and>
    ((s, m) \<in> set listing \<longrightarrow>
      (\<exists>n' m' out'. node_lookup (ImageDir ri p) s out = Some (Inr (n', m'), out') \<and> (s = MetaDirName \<or> m' = m)))"
proof (cases "p = ''/'' \<and> s = MetaDirName")
  case True
  then show ?thesis using assms(4) by (auto simp: image_dir_readdir_def image_dir_lookup_def)
next
  case False
  then show ?thesis
    using assms merged.listed_label [of s m entry_mode srt "map ly_entries (ri_layers ri)" p]
    by (auto simp: image_dir_readdir_def image_dir_lookup_def dir_path_join_psegs Let_def split: sum.splits)
qed

lemma layer_dir_agree:
  assumes "dir_path p" "proper s" "node_readdir (LayerDir ly (LayerTree (ly_entries ly)) p) = Some listing"
  shows "((\<exists>n' out'. node_lookup (LayerDir ly (LayerTree (ly_entries ly)) p) s out = Some (Inr (n', m), out')) \<longrightarrow>
      (s, m) \<in> set listing) \<and>
    ((s, m) \<in> set listing \<longrightarrow>
      (\<exists>n' m' out'. node_lookup (LayerDir ly (LayerTree (ly_entries ly)) p) s out = Some (Inr (n', m'), out') \<and>
        (s = MetaDirName \<or> m' = m)))"
proof (cases "p = ''/'' \<and> s = MetaDirName")
  case True
  then show ?thesis using assms(3) by (auto simp: layer_dir_readdir_def layer_dir_lookup_def)
next
  case False
  then show ?thesis
    using assms raw.listed_label [of s m entry_mode "ly_entries ly" p]
    by (auto simp: layer_dir_readdir_def layer_dir_lookup_def dir_path_join_psegs Let_def split: sum.splits)
qed

text \<open>C30. On every directory node reachable from an image's root, at any depth, in the merged tree,
  in \<open>@@meta\<close> and in the raw view of a layer: every name that a lookup finds is listed with the
  file type of the reply, and every listed name is found by a lookup, with the listed type.  (An
  image that holds an entry \<open>/@@meta\<close> lists the name twice; the lookup finds the synthetic
  directory.)\<close>

theorem readdir_lookup_agree:
  assumes "image_node ri n" "merged_image ri" "node_readdir n = Some listing" "proper s"
  shows "((\<exists>n' out'. node_lookup n s out = Some (Inr (n', m), out')) \<longrightarrow> (s, m) \<in> set listing) \<and>
    ((s, m) \<in> set listing \<longrightarrow>
      (\<exists>n' m' out'. node_lookup n s out = Some (Inr (n', m'), out') \<and> (s = MetaDirName \<or> m' = m)))"
proof -
  have ok: "node_ok ri n" using image_node_ok assms(1,2) by blast
  obtain srt where srt: "ri_tree ri = Merge srt (map ly_entries (ri_layers ri))"
    using assms(2) by (auto simp: merged_image_def)
  show ?thesis
  proof (cases n)
    case (ImageDir ri' p)
    with ok have n: "n = ImageDir ri p" "dir_path p" by simp_all
    show ?thesis using image_dir_agree [OF srt n(2) assms(4) assms(3) [unfolded n(1)]] unfolding n(1) .
  next
    case (LayerDir ly t p)
    with ok have n: "n = LayerDir ly (LayerTree (ly_entries ly)) p" "dir_path p" by simp_all
    show ?thesis using layer_dir_agree [OF n(2) assms(4) assms(3) [unfolded n(1)]] unfolding n(1) .
  next
    case (LayersDir ri')
    then show ?thesis
      using assms(3) find_layer_None [of "ri_layers ri'" s]
      by (cases "find_layer (ri_layers ri') s")
        (auto simp: layers_readdir_def layers_lookup_def dest: find_layer_in)
  qed (use assms(3) in \<open>auto simp: image_meta_readdir_def image_meta_lookup_def layer_meta_readdir_def
      layer_meta_lookup_def new_text_file_def\<close>)
qed

section \<open>Files\<close>

text \<open>Every file node of an image names a layer of its image: opening it never fails for an
  index out of range, and asks the layer that the entry came from for the entry's path without
  the leading slash.\<close>

theorem file_layer_in_range:
  assumes "image_node ri (ImageFile layers e)" "merged_image ri"
  shows "elayer e < int (length layers) \<and>
    image_file_open fs_open layers e =
      (case fs_open (ly_fs (layers ! nat (elayer e))) (join_with ''/'' (psegs (epath e))) of
         Inl _ \<Rightarrow> Inl EIO | Inr h \<Rightarrow> Inr h)"
proof -
  have ok: "entry_in layers e" "dir_path (epath e)"
    using image_node_ok [OF assms] by simp_all
  then have "trim_prefix (epath e) ''/'' = join_with ''/'' (psegs (epath e))"
    by (auto simp: dir_path_def trim_root)
  with ok show ?thesis by (simp add: image_file_open_def entry_in_def)
qed

section \<open>Attributes\<close>

lemma low_type_bits [simp]: "type_bits t AND 0xFFF = 0" "type_bits t AND 0xF000 = type_bits t"
  by (simp_all add: type_bits_def S_IFDIR_def S_IFLNK_def S_IFREG_def)

lemma low_bits: "(word_of_int x :: 32 word) AND 0xFFF = word_of_int (x mod 4096)"
proof -
  have "(0xFFF :: 32 word) = mask 12" by (simp add: mask_eq_exp_minus_1)
  then have "(word_of_int x :: 32 word) AND 0xFFF = take_bit 12 (word_of_int x)"
    by (simp add: take_bit_eq_mask)
  also have "\<dots> = word_of_int (take_bit 12 x)" by transfer simp
  finally show ?thesis by (simp add: take_bit_eq_mod)
qed

lemma default_mode_bits: "((if b then 0x1ED else 0x1A4) :: 32 word) AND 0xFFF = (if b then 0x1ED else 0x1A4)"
  "((if b then 0x1ED else 0x1A4) :: 32 word) AND 0xF000 = 0"
  by (cases b; simp)+

lemma masked_twice: "(x AND 0xFFF) AND 0xFFF = (x AND 0xFFF :: 32 word)" "(x AND 0xFFF) AND 0xF000 = (0 :: 32 word)"
  by (simp_all add: and.assoc)

lemma masked_low: "(x AND 0xFFF) AND 0xFFFF = (x AND 0xFFF :: 32 word)"
  by (simp add: and.assoc)

lemma attr_mode:
  "at_mode (set_attr_from_header out h isdir) AND 0xFFF =
    (if (word_of_int (hmode h) :: 32 word) AND 0xFFF = 0 then (if isdir then 0x1ED else 0x1A4)
     else word_of_int (hmode h) AND 0xFFF)"
  "at_mode (set_attr_from_header out h isdir) AND 0xF000 = type_bits (typeflag h)"
  by (cases "modtime h"; simp add: set_attr_from_header_def Let_def bit.conj_disj_distrib2 default_mode_bits masked_twice)+

text \<open>C39. The attributes of a tar header, each from its own field: the low twelve mode bits are those of the header, or the
  defaults 0755 and 0644 where the header has none, the type bits are those of the type flag, and there are no other;
  the owner is the user and the group of the header, modulo $2^{32}$; the three times are the
  modification time of the header, modulo $2^{64}$, and stay as they were where it has none; and for every size an
  \<open>int64\<close> can hold the size is exact and the block count is the size divided by 512, rounded up.  The
  block size is 4096 and the link count 1.\<close>

theorem attr_from_header_exact:
  assumes "0 \<le> hsize h" "hsize h < 2 ^ 63" "a = set_attr_from_header out h isdir"
  shows "at_mode a AND 0xFFF = (if hmode h mod 4096 = 0 then (if isdir then 0x1ED else 0x1A4) else word_of_int (hmode h mod 4096)) \<and>
    at_mode a AND 0xF000 = type_bits (typeflag h) \<and> at_mode a AND 0xFFFF = at_mode a \<and>
    uint (at_uid a) = huid h mod 2 ^ 32 \<and> uint (at_gid a) = hgid h mod 2 ^ 32 \<and>
    (case modtime h of
       None \<Rightarrow> at_mtime a = at_mtime out \<and> at_atime a = at_atime out \<and> at_ctime a = at_ctime out
     | Some t \<Rightarrow> uint (at_mtime a) = t mod 2 ^ 64 \<and> uint (at_atime a) = t mod 2 ^ 64 \<and> uint (at_ctime a) = t mod 2 ^ 64) \<and>
    uint (at_size a) = hsize h \<and> uint (at_blocks a) = (hsize h + 511) div 512 \<and> at_nlink a = 1 \<and> at_blksize a = 4096"
  unfolding assms(3)
proof (intro conjI)
  let ?a = "set_attr_from_header out h isdir"
  have "(word_of_int (hmode h mod 4096) :: 32 word) = 0 \<longleftrightarrow> hmode h mod 4096 = 0"
  proof -
    have "uint (word_of_int (hmode h mod 4096) :: 32 word) = hmode h mod 4096"
      by (simp add: uint_word_of_int)
    then show ?thesis by (metis uint_0_iff)
  qed
  then show "at_mode (set_attr_from_header out h isdir) AND 0xFFF =
      (if hmode h mod 4096 = 0 then (if isdir then 0x1ED else 0x1A4) else word_of_int (hmode h mod 4096))"
    by (simp add: attr_mode low_bits)
  show "at_mode (set_attr_from_header out h isdir) AND 0xF000 = type_bits (typeflag h)"
    by (rule attr_mode)
  show "at_mode ?a AND 0xFFFF = at_mode ?a"
    by (cases "modtime h"; simp add: set_attr_from_header_def Let_def type_bits_def S_IFDIR_def S_IFLNK_def S_IFREG_def
        bit.conj_disj_distrib2 masked_low)
  show "uint (at_uid ?a) = huid h mod 2 ^ 32" "uint (at_gid ?a) = hgid h mod 2 ^ 32"
    by (cases "modtime h"; simp add: set_attr_from_header_def Let_def uint_word_of_int)+
  show "case modtime h of
       None \<Rightarrow> at_mtime ?a = at_mtime out \<and> at_atime ?a = at_atime out \<and> at_ctime ?a = at_ctime out
     | Some t \<Rightarrow> uint (at_mtime ?a) = t mod 2 ^ 64 \<and> uint (at_atime ?a) = t mod 2 ^ 64 \<and> uint (at_ctime ?a) = t mod 2 ^ 64"
    by (cases "modtime h"; simp add: set_attr_from_header_def Let_def uint_word_of_int)
  show "at_nlink ?a = 1" "at_blksize ?a = 4096"
    by (cases "modtime h"; simp add: set_attr_from_header_def Let_def)+
  have size: "at_size (set_attr_from_header out h isdir) = word_of_int (hsize h)"
    "at_blocks (set_attr_from_header out h isdir) = (word_of_int (hsize h) + 511) div 512"
    by (cases "modtime h"; simp add: set_attr_from_header_def Let_def)+
  show "uint (at_size (set_attr_from_header out h isdir)) = hsize h"
    using assms by (simp add: size uint_word_of_int)
  have "uint (word_of_int (hsize h) + 511 :: 64 word) = hsize h + 511"
    using assms by (simp add: uint_word_of_int uint_word_ariths mod_add_left_eq)
  then show "uint (at_blocks (set_attr_from_header out h isdir)) = (hsize h + 511) div 512"
    by (simp add: size uint_div_distrib)
qed

text \<open>The reply to a lookup of a file loses the permission bits: the mode that
  \<open>setAttrFromHeader\<close> has just computed is overwritten by the bare file type (\<open>out.Mode\<close> is the
  field of the embedded \<open>Attr\<close>), while \<open>Getattr\<close> on the same file reports permissions, and
  always some.  Everything else in the two replies agrees.\<close>

theorem lookup_drops_permissions:
  assumes "node_lookup n child out = Some (Inr (ImageFile layers e, m), out')"
  shows "at_mode out' = S_IFREG \<and> at_mode (image_file_getattr e attr) AND 0xFFF \<noteq> 0 \<and>
    at_size out' = at_size (image_file_getattr e attr) \<and> at_uid out' = at_uid (image_file_getattr e attr) \<and>
    at_gid out' = at_gid (image_file_getattr e attr) \<and> at_blocks out' = at_blocks (image_file_getattr e attr)"
proof -
  have out': "out' = (set_attr_from_header out (eheader e) False)\<lparr>at_mode := S_IFREG\<rparr>"
    using assms
    by (cases n) (auto simp: image_dir_lookup_def layer_dir_lookup_def image_meta_lookup_def layers_lookup_def
        layer_meta_lookup_def new_text_file_def entry_mode_def Let_def split: if_splits sum.splits option.splits)
  have "at_mode (image_file_getattr e attr) AND 0xFFF \<noteq> 0"
    by (simp add: image_file_getattr_def attr_mode)
  then show ?thesis
    by (cases "modtime (eheader e)") (simp_all add: out' image_file_getattr_def set_attr_from_header_def Let_def)
qed

section \<open>Walking to an image\<close>

text \<open>The lookups of the kernel for the segments of a path, one after the other, from a node with
  an accumulated path: the next lookup happens while the node is an intermediate one.\<close>

fun walk_segments ::
  "(string \<Rightarrow> string + reference) \<Rightarrow> (string \<Rightarrow> string + platform) \<Rightarrow> ('l, 'f, 'w) services \<Rightarrow> 'f filesystem \<Rightarrow>
   string \<Rightarrow> string list \<Rightarrow> entry_out \<Rightarrow> 'w \<Rightarrow> 'f reply \<times> 'f filesystem \<times> 'w" where
  "walk_segments pr pp sv f acc [] out w = ((Inr (IntermediateNode acc, S_IFDIR), out), f, w)"
| "walk_segments pr pp sv f acc (s # ss) out w =
     (case intermediate_lookup pr pp sv f acc s Map.empty out w of
        ((Inr (IntermediateNode full, m), out1), f1, _, w1) \<Rightarrow>
          (if ss = [] then ((Inr (IntermediateNode full, m), out1), f1, w1)
           else walk_segments pr pp sv f1 full ss out w1)
      | ((r, out1), f1, _, w1) \<Rightarrow> ((r, out1), f1, w1))"

lemma bears_ref_shift: "\<not> bears_ref j s \<Longrightarrow> j = 0 \<or> \<not> contains_any s '':@''"
  by (auto simp: bears_ref_def)

lemma extend_join: "pre \<noteq> [] \<Longrightarrow> \<forall>s \<in> set pre. s \<noteq> [] \<and> slash \<notin> set s \<Longrightarrow>
    extend_path (join_with ''/'' pre) s = join_with ''/'' (pre @ [s])"
  using join_ends(1) [of pre] by (simp add: extend_path_def join_with_append)

lemma extend_join_any:
  assumes "\<forall>s \<in> set pre. s \<noteq> [] \<and> slash \<notin> set s"
  shows "extend_path (join_with ''/'' pre) s = join_with ''/'' (pre @ [s])"
  using assms extend_join [of pre s] by (cases "pre = []") (simp_all add: extend_path_def)

text \<open>A prefix of the path with no reference is an intermediate node.\<close>

lemma classify_prefix:
  assumes "\<forall>s \<in> set (pre @ [s]). s \<noteq> [] \<and> slash \<notin> set s" "\<forall>j < length (pre @ [s]). \<not> bears_ref j ((pre @ [s]) ! j)"
  shows "classify_segment pr pp (join_with ''/'' pre) s =
    Inr (SegIntermediate, None, None, join_with ''/'' (pre @ [s]))"
proof -
  let ?segs = "pre @ [s]"
  have ext: "extend_path (join_with ''/'' pre) s = join_with ''/'' ?segs"
    using assms(1) by (intro extend_join_any) simp
  note segs = Parse_segments [OF assms(1)]
  have "find_ref 0 ?segs = None"
    using assms(2) find_ref_None [of 0 ?segs] by simp
  moreover have "join_with ''/'' ?segs \<noteq> []" using join_ends(1) [OF assms(1)] by simp
  ultimately have "Parse pr pp (join_with ''/'' ?segs) = Inr (zero_parsed\<lparr>p_intermediate := ?segs\<rparr>)"
    using segs by (simp add: Parse_def)
  then show ?thesis by (simp add: classify_segment_def ext zero_parsed_def Let_def)
qed

lemma classify_digest:
  assumes "\<forall>s \<in> set pre. s \<noteq> [] \<and> slash \<notin> set s" "r \<noteq> []" "slash \<notin> set r"
    and "\<forall>j < length pre. \<not> bears_ref j (pre ! j)" "bears_ref (length pre) r"
    and "strip_platform pp r = Inr (seg, plat)" "pr (join_with ''/'' (pre @ [seg])) = Inr (RefDigest c d)"
  shows "classify_segment pr pp (join_with ''/'' pre) r =
    Inr (SegDigestRef, Some (RefDigest c d), plat, join_with ''/'' (pre @ [r]))"
proof -
  let ?segs = "pre @ [r]"
  have good: "\<forall>s \<in> set ?segs. s \<noteq> [] \<and> slash \<notin> set s" using assms(1-3) by simp
  have ext: "extend_path (join_with ''/'' pre) r = join_with ''/'' ?segs"
    using assms(1) by (rule extend_join_any)
  have "find_ref 0 ?segs = Some (length pre)"
    using find_ref_at [OF assms(4,5), of "[]"] by simp
  moreover have "join_with ''/'' ?segs \<noteq> []" using join_ends(1) [OF good] by simp
  ultimately have "Parse pr pp (join_with ''/'' ?segs) =
      Inr \<lparr>p_intermediate = [], p_ref = Some (RefDigest c d), p_in_image = ''/'', p_platform = plat\<rparr>"
    using Parse_segments [OF good] assms(6,7) by (simp add: Parse_def Let_def)
  then show ?thesis by (simp add: classify_segment_def ext Let_def)
qed

lemma walk_prefix:
  assumes "\<forall>s \<in> set (done @ pre). s \<noteq> [] \<and> slash \<notin> set s"
    and "\<forall>j < length (done @ pre). \<not> bears_ref j ((done @ pre) ! j)" "rest \<noteq> []"
  shows "walk_segments pr pp sv f (join_with ''/'' done) (pre @ rest) out w =
    walk_segments pr pp sv f (join_with ''/'' (done @ pre)) rest out w"
  using assms
proof (induction pre arbitrary: "done")
  case (Cons s pre)
  have "\<forall>j < length (done @ [s]). \<not> bears_ref j ((done @ [s]) ! j)"
  proof (intro allI impI)
    fix j assume j: "j < length (done @ [s])"
    then have "\<not> bears_ref j ((done @ s # pre) ! j)" using Cons.prems(2) by simp
    with j show "\<not> bears_ref j ((done @ [s]) ! j)" by (auto simp: nth_append less_Suc_eq split: if_splits)
  qed
  then have cls: "classify_segment pr pp (join_with ''/'' done) s =
      Inr (SegIntermediate, None, None, join_with ''/'' (done @ [s]))"
    using Cons.prems(1) by (intro classify_prefix) simp_all
  have "walk_segments pr pp sv f (join_with ''/'' done) ((s # pre) @ rest) out w =
      walk_segments pr pp sv f (join_with ''/'' (done @ [s])) (pre @ rest) out w"
    using cls Cons.prems(3) by (simp add: intermediate_lookup_def resolve_segment_def)
  also have "\<dots> = walk_segments pr pp sv f (join_with ''/'' (done @ s # pre)) rest out w"
    using Cons.IH [of "done @ [s]"] Cons.prems by simp
  finally show ?case .
qed simp

text \<open>C22. A walk from the mount's root through the segments of a registry and repository prefix and
  then a segment with a digest reference (with or without a platform suffix) makes no request
  on the way, and ends at the root of the image that the reference parser sees in the whole
  path, resolved for the platform of the suffix or the default one; if it cannot be resolved the
  error is \<open>EIO\<close>.\<close>

theorem walk_reaches_image:
  assumes "\<forall>s \<in> set pre. s \<noteq> [] \<and> slash \<notin> set s" "r \<noteq> []" "slash \<notin> set r"
    and "\<forall>j < length pre. \<not> bears_ref j (pre ! j)" "bears_ref (length pre) r"
    and "strip_platform pp r = Inr (seg, plat)" "pr (join_with ''/'' (pre @ [seg])) = Inr (RefDigest c d)"
  shows "walk_segments pr pp sv f [] (pre @ [r]) out w =
    (case resolve_image sv f (RefDigest c d) (platform_or f plat) w of
       (Inl _, f1, w1) \<Rightarrow> ((Inl EIO, out), f1, w1)
     | (Inr ri, f1, w1) \<Rightarrow> ((Inr (ImageDir ri ''/'', S_IFDIR), out\<lparr>at_mode := S_IFDIR OR 0x1ED\<rparr>), f1, w1))"
proof -
  have "walk_segments pr pp sv f [] (pre @ [r]) out w =
      walk_segments pr pp sv f (join_with ''/'' pre) [r] out w"
    using walk_prefix [of "[]" pre "[r]" pr pp sv f out w] assms(1,4) by simp
  also have "\<dots> = (case resolve_image sv f (RefDigest c d) (platform_or f plat) w of
       (Inl _, f1, w1) \<Rightarrow> ((Inl EIO, out), f1, w1)
     | (Inr ri, f1, w1) \<Rightarrow> ((Inr (ImageDir ri ''/'', S_IFDIR), out\<lparr>at_mode := S_IFDIR OR 0x1ED\<rparr>), f1, w1))"
    using classify_digest [of pre r pp seg plat pr c d, OF assms]
    by (simp add: intermediate_lookup_def resolve_segment_def image_root_def split: prod.splits sum.splits)
  finally show ?thesis .
qed

section \<open>Resolved images\<close>

lemma resolve_image_effect:
  assumes "resolve_image sv f ref platform w = (r, f', w')" "images_ok sv f"
  shows "images_ok sv f'" "fs_images f \<subseteq>\<^sub>m fs_images f'"
    "r = Inr ri \<Longrightarrow> fs_images f' (ri_digest ri) = Some ri"
proof -
  have "images_ok sv f' \<and> fs_images f \<subseteq>\<^sub>m fs_images f' \<and>
      (\<forall>ri. r = Inr ri \<longrightarrow> fs_images f' (ri_digest ri) = Some ri)"
  proof (cases "cached_image sv f ref")
    case (Some ri)
    then have "\<exists>h. fs_images f h = Some ri"
      by (auto simp: cached_image_def split: reference.splits sum.splits)
    then show ?thesis using Some assms by (auto simp: resolve_image_def images_ok_def)
  next
    case None
    obtain x w1 where res: "sv_resolve sv ref platform w = (x, w1)" by force
    show ?thesis
    proof (cases x)
      case (Inl e)
      then show ?thesis using None res assms by (auto simp: resolve_image_def)
    next
      case (Inr img)
      show ?thesis
      proof (cases "fs_images f (im_digest img)")
        case (Some ri)
        then have "ri_digest ri = im_digest img" using assms(2) by (simp add: images_ok_def)
        then show ?thesis using None res Inr Some assms by (auto simp: resolve_image_def)
      next
        case new: None
        obtain y w2 where b: "build_image sv img w1 = (y, w2)" by force
        show ?thesis
        proof (cases y)
          case (Inl e)
          then show ?thesis using None res Inr new b assms by (auto simp: resolve_image_def)
        next
          case built: (Inr ri)
          note d = build_image_digest [OF b [unfolded built]]
          have "r = Inr ri" "f' = f\<lparr>fs_images := (fs_images f)(im_digest img \<mapsto> ri)\<rparr>"
            using None res Inr new b built assms(1) by (simp_all add: resolve_image_def insert_image_def)
          then show ?thesis
            using d new assms(2) by (auto simp: images_ok_def map_le_def)
        qed
      qed
    qed
  qed
  then show "images_ok sv f'" "fs_images f \<subseteq>\<^sub>m fs_images f'"
    "r = Inr ri \<Longrightarrow> fs_images f' (ri_digest ri) = Some ri" by blast+
qed

text \<open>An image is fetched once: after it has been resolved, by tag or by digest, resolving its
  digest again returns the same image with the same tree and touches neither the network nor the
  cache, whatever else has been resolved in between.\<close>

theorem image_resolved_once:
  assumes "images_ok sv f" "resolve_image sv f ref platform w = (Inr ri, f1, w1)"
    and "resolve_image sv f1 ref2 platform2 w2 = (r2, f2, w3)"
    and "sv_new_hash sv d = Inr (ri_digest ri)"
  shows "resolve_image sv f2 (RefDigest c d) platform3 w4 = (Inr ri, f2, w4) \<and>
    ri_tree ri = Merge (sv_sort sv) (map ly_entries (ri_layers ri))"
proof -
  note one = resolve_image_effect [OF assms(2,1)]
  note two = resolve_image_effect [OF assms(3) one(1)]
  have "fs_images f1 (ri_digest ri) = Some ri" using one(3) by simp
  then have in2: "fs_images f2 (ri_digest ri) = Some ri"
    using two(2) by (auto simp: map_le_def dom_def)
  then have "cached_image sv f2 (RefDigest c d) = Some ri"
    using assms(4) by (simp add: cached_image_def)
  then show ?thesis
    using in2 two(1) by (simp add: resolve_image_def images_ok_def)
qed

section \<open>Platforms\<close>

lemma add_sibling_other:
  "platform_spec (fst pd) \<noteq> spec \<Longrightarrow>
    add_sibling ref current tag ch pd (path_base (repo_path (ref_context ref)) @ '':'' @ tag @ ''~'' @ spec) =
      ch (path_base (repo_path (ref_context ref)) @ '':'' @ tag @ ''~'' @ spec)"
  by (auto simp: add_sibling_def Let_def)

lemma add_sibling_keeps: "ch nm \<noteq> None \<Longrightarrow> add_sibling ref current tag ch pd nm = ch nm"
  by (auto simp: add_sibling_def Let_def)

lemma add_siblings_first:
  assumes "ps = pre @ (p, d) # post" "\<forall>pd \<in> set pre. platform_spec (fst pd) \<noteq> platform_spec p"
  shows "foldl (add_sibling ref None tag) Map.empty ps
      (path_base (repo_path (ref_context ref)) @ '':'' @ tag @ ''~'' @ platform_spec p) =
    Some (path_base (repo_path (ref_context ref)) @ ''@'' @ hash_string d)"
proof -
  let ?nm = "path_base (repo_path (ref_context ref)) @ '':'' @ tag @ ''~'' @ platform_spec p"
  have pre: "foldl (add_sibling ref None tag) ch xs ?nm = ch ?nm"
    if "\<forall>pd \<in> set xs. platform_spec (fst pd) \<noteq> platform_spec p" for ch xs
    using that
  proof (induction xs arbitrary: ch)
    case (Cons x xs)
    then have "platform_spec (fst x) \<noteq> platform_spec p" by simp
    from add_sibling_other [OF this] Cons show ?case by simp
  qed simp
  have post: "foldl (add_sibling ref None tag) ch xs ?nm = ch ?nm" if "ch ?nm \<noteq> None" for ch xs
    using that by (induction xs arbitrary: ch) (simp_all add: add_sibling_keeps)
  have "add_sibling ref None tag (foldl (add_sibling ref None tag) Map.empty pre) (p, d) ?nm =
      Some (path_base (repo_path (ref_context ref)) @ ''@'' @ hash_string d)"
    using pre [OF assms(2), of Map.empty] by (simp add: add_sibling_def Let_def)
  then show ?thesis using post by (simp add: assms(1))
qed

text \<open>C40. The variant of a platform suffix is ignored by the lookup it is meant for: for an index
  with several manifests of one operating system and architecture, looking up a tag with the
  suffix of any of them gives a symlink to the last one, while the sibling of the same name that
  an earlier lookup of the plain tag leaves in the directory points at the manifest that the
  name describes.\<close>

theorem variant_ignored:
  assumes "sv_get sv ref p w = (Inr \<lparr>rd_is_index = True, rd_digest = h, rd_manifests = Inr ms\<rparr>, w1)"
    and "ref = RefTag c tag" "matching p ms = pre @ [m]" "mf_digest m \<noteq> zero_hash"
    and "platform_pairs ms = before @ (p, d) # after" "\<forall>pd \<in> set before. platform_spec (fst pd) \<noteq> platform_spec p"
  shows "fst (fst (tag_symlink sv f ref (Some p) ch out w)) =
      Inr (MemSymlink (path_base (repo_path c) @ ''@'' @ hash_string (mf_digest m)), S_IFLNK) \<and>
    add_platform_siblings ref None (platform_pairs ms) Map.empty
        (path_base (repo_path c) @ '':'' @ tag @ ''~'' @ platform_spec p) =
      Some (path_base (repo_path c) @ ''@'' @ hash_string d)"
proof
  have "ResolveDigestAndPlatforms (sv_get sv) ref p w = (Inr (mf_digest m, platform_pairs ms), w1)"
    using assms(1,3,4) by (simp add: ResolveDigestAndPlatforms_def pick_manifest_eq)
  then show "fst (fst (tag_symlink sv f ref (Some p) ch out w)) =
      Inr (MemSymlink (path_base (repo_path c) @ ''@'' @ hash_string (mf_digest m)), S_IFLNK)"
    by (simp add: tag_symlink_def platform_or_def tag_symlink_target_def assms(2) Let_def)
  show "add_platform_siblings ref None (platform_pairs ms) Map.empty
        (path_base (repo_path c) @ '':'' @ tag @ ''~'' @ platform_spec p) =
      Some (path_base (repo_path c) @ ''@'' @ hash_string d)"
    using add_siblings_first [OF assms(5,6), of ref tag] by (simp add: add_platform_siblings_def assms(2))
qed

section \<open>Witnesses\<close>

definition demo_file :: tar_header where
  "demo_file = zero_header\<lparr>typeflag := TypeReg, hsize := 1000, hmode := 0x1ED\<rparr>"

definition demo_entries :: "tarfs_entry list" where
  "demo_entries =
     [\<lparr>filename = ''b/'', header = zero_header\<lparr>typeflag := TypeDir, hmode := 0x1ED\<rparr>\<rparr>,
      \<lparr>filename = ''b/x'', header = demo_file\<rparr>]"

definition demo_digest :: hash where
  "demo_digest = \<lparr>hash_algorithm = ''sha256'', hash_hex = ''ab''\<rparr>"

definition demo_layer :: "unit layer" where
  "demo_layer = \<lparr>ly_digest = demo_digest, ly_size = 0, ly_fs = (), ly_entries = demo_entries\<rparr>"

definition demo_image :: "unit resolved_image" where
  "demo_image = \<lparr>ri_digest = demo_digest, ri_layers = [demo_layer],
     ri_tree = Merge (insertion_sort filename) (map ly_entries [demo_layer])\<rparr>"

definition demo_out :: entry_out where
  "demo_out = \<lparr>at_size = 0, at_blocks = 0, at_atime = 0, at_mtime = 0, at_ctime = 0, at_mode = 0, at_nlink = 0,
     at_uid = 0, at_gid = 0, at_blksize = 0, eo_timeout = None\<rparr>"

definition demo_x :: entry where
  "demo_x = \<lparr>epath = ''/b/x'', eheader = demo_file, elayer = 0\<rparr>"

lemma demo_merged: "merged_image demo_image"
  unfolding merged_image_def
  by (intro exI [of _ "insertion_sort filename"]) (simp add: demo_image_def ins.slice_sorter_axioms)

lemma demo_lookups:
  "\<exists>out1. node_lookup (ImageDir demo_image ''/'') ''b'' demo_out = Some (Inr (ImageDir demo_image ''/b'', S_IFDIR), out1)"
  "\<exists>out2. node_lookup (ImageDir demo_image ''/b'') ''x'' demo_out =
     Some (Inr (ImageFile [demo_layer] demo_x, S_IFREG), out2)"
proof -
  have g: "tree_get (ri_tree demo_image) ''/b/x'' = Inr demo_x" by code_simp
  have d: "\<exists>e. tree_get (ri_tree demo_image) ''/b'' = Inr e \<and> is_dir e"
  proof -
    have "isl (tree_get (ri_tree demo_image) ''/b'') = False" "is_dir (projr (tree_get (ri_tree demo_image) ''/b''))"
      by code_simp+
    then show ?thesis by (cases "tree_get (ri_tree demo_image) ''/b''") auto
  qed
  have j: "join_in_image ''/'' ''b'' = ''/b''" "join_in_image ''/b'' ''x'' = ''/b/x''" by code_simp+
  have f: "\<not> is_dir demo_x" "\<not> is_symlink demo_x" by code_simp+
  show "\<exists>out1. node_lookup (ImageDir demo_image ''/'') ''b'' demo_out = Some (Inr (ImageDir demo_image ''/b'', S_IFDIR), out1)"
    using d by (auto simp: image_dir_lookup_def j MetaDirName_def entry_mode_def Let_def)
  have "ri_layers demo_image = [demo_layer]" by (simp add: demo_image_def)
  then show "\<exists>out2. node_lookup (ImageDir demo_image ''/b'') ''x'' demo_out =
      Some (Inr (ImageFile [demo_layer] demo_x, S_IFREG), out2)"
    using g f by (simp add: image_dir_lookup_def j entry_mode_def Let_def)
qed

theorem readdir_lookup_agree_witness:
  "\<exists>n' m' out'. node_lookup (ImageDir demo_image ''/'') ''b'' demo_out = Some (Inr (n', m'), out') \<and> m' = S_IFDIR"
proof -
  have "(''b'', S_IFDIR) \<in> set (image_dir_readdir demo_image ''/'')" "proper ''b''" "''b'' \<noteq> MetaDirName"
    by code_simp+
  then show ?thesis
    using readdir_lookup_agree [OF image_node.root demo_merged, of "image_dir_readdir demo_image ''/''" "''b''"
        demo_out S_IFDIR] by simp
qed

theorem file_layer_in_range_witness:
  "image_file_open (\<lambda>_ nm. if nm = ''b/x'' then Inr nm else Inl ()) [demo_layer] demo_x = Inr ''b/x''"
proof -
  obtain out1 out2 where l:
    "node_lookup (ImageDir demo_image ''/'') ''b'' demo_out = Some (Inr (ImageDir demo_image ''/b'', S_IFDIR), out1)"
    "node_lookup (ImageDir demo_image ''/b'') ''x'' demo_out = Some (Inr (ImageFile [demo_layer] demo_x, S_IFREG), out2)"
    using demo_lookups by blast
  have "proper ''b''" "proper ''x''" by code_simp+
  then have "image_node demo_image (ImageFile [demo_layer] demo_x)"
    using image_node.step [OF image_node.step [OF image_node.root _ l(1)] _ l(2)] by blast
  moreover have "join_with ''/'' (psegs (epath demo_x)) = ''b/x''" by code_simp
  ultimately show ?thesis
    using file_layer_in_range [of demo_image "[demo_layer]" demo_x
        "\<lambda>_ nm. if nm = ''b/x'' then Inr nm else Inl ()"] demo_merged
    by simp
qed

definition owned_file :: tar_header where
  "owned_file = zero_header\<lparr>typeflag := TypeReg, hsize := 1000, hmode := 0x1ED, huid := 1000, hgid := 100, modtime := Some 86400\<rparr>"

theorem attr_from_header_exact_witness:
  "uint (at_blocks (set_attr_from_header demo_out owned_file False)) = 2 \<and>
   at_mode (set_attr_from_header demo_out owned_file False) AND 0xFFF = 0x1ED \<and>
   uint (at_uid (set_attr_from_header demo_out owned_file False)) = 1000 \<and>
   uint (at_gid (set_attr_from_header demo_out owned_file False)) = 100 \<and>
   uint (at_mtime (set_attr_from_header demo_out owned_file False)) = 86400"
  using attr_from_header_exact [of owned_file "set_attr_from_header demo_out owned_file False" demo_out False]
  by (simp add: owned_file_def zero_header_def)

theorem lookup_drops_permissions_witness:
  "\<exists>out2. node_lookup (ImageDir demo_image ''/b'') ''x'' demo_out =
     Some (Inr (ImageFile [demo_layer] demo_x, S_IFREG), out2) \<and> at_mode out2 = S_IFREG"
  using demo_lookups(2) lookup_drops_permissions by blast

definition demo_repo :: repository where
  "demo_repo = \<lparr>repo_scheme = ''https'', repo_registry = ''gcr.io'', repo_path = ''p/img''\<rparr>"

definition demo_services :: "(unit, unit, nat) services" where
  "demo_services =
     \<lparr>sv_new_hash = (\<lambda>_. Inr demo_digest),
      sv_resolve = (\<lambda>ref p w. (Inr \<lparr>im_ref = ref, im_digest = demo_digest, im_layers = [()]\<rparr>, Suc w)),
      sv_layer_digest = (\<lambda>_. Inr demo_digest),
      sv_open_layer = (\<lambda>url l w. (Inr demo_layer, Suc w)),
      sv_get = (\<lambda>ref p w. (Inl ''offline'', w)),
      sv_sort = insertion_sort filename\<rparr>"

definition demo_fs :: "unit filesystem" where
  "demo_fs = \<lparr>fs_platform = \<lparr>plat_os = ''linux'', plat_arch = ''amd64'', plat_variant = []\<rparr>, fs_tag_ttl = 0,
     fs_images = Map.empty\<rparr>"

lemma demo_resolve:
  "resolve_image demo_services demo_fs (RefTag demo_repo ''v1'') p 0 =
    (Inr demo_image, demo_fs\<lparr>fs_images := [demo_digest \<mapsto> demo_image]\<rparr>, 2)"
  by (simp add: resolve_image_def cached_image_def demo_services_def demo_fs_def build_image_def insert_image_def
      demo_image_def)

theorem image_resolved_once_witness:
  "resolve_image demo_services (demo_fs\<lparr>fs_images := [demo_digest \<mapsto> demo_image]\<rparr>) (RefDigest demo_repo ''sha256:ab'') (fs_platform demo_fs) 7 =
    (Inr demo_image, demo_fs\<lparr>fs_images := [demo_digest \<mapsto> demo_image]\<rparr>, 7)"
proof -
  have ok: "images_ok demo_services demo_fs" by (simp add: images_ok_def demo_fs_def)
  have again: "resolve_image demo_services (demo_fs\<lparr>fs_images := [demo_digest \<mapsto> demo_image]\<rparr>) (RefTag demo_repo ''v1'') (fs_platform demo_fs) 3 =
      (Inr demo_image, demo_fs\<lparr>fs_images := [demo_digest \<mapsto> demo_image]\<rparr>, 4)"
    by (simp add: resolve_image_def cached_image_def demo_services_def)
  show ?thesis
    using image_resolved_once [OF ok demo_resolve again, of "''sha256:ab''"] by (simp add: demo_services_def demo_image_def)
qed

theorem walk_reaches_image_witness:
  "fst (fst (walk_segments (\<lambda>s. Inr (RefDigest demo_repo s)) (\<lambda>_. Inl ''no platform'') demo_services demo_fs []
     ([''gcr.io'', ''p''] @ [''img@sha256:ab'']) demo_out 0)) = Inr (ImageDir demo_image ''/'', S_IFDIR)"
proof -
  have r: "resolve_image demo_services demo_fs (RefDigest demo_repo s) p 0 =
      (Inr demo_image, demo_fs\<lparr>fs_images := [demo_digest \<mapsto> demo_image]\<rparr>, 2)" for s p
    by (simp add: resolve_image_def cached_image_def demo_services_def demo_fs_def build_image_def insert_image_def
        demo_image_def)
  have "\<not> bears_ref 0 ''gcr.io''" "\<not> bears_ref 1 ''p''" by code_simp+
  then have "\<forall>j < length [''gcr.io'', ''p'']. \<not> bears_ref j ([''gcr.io'', ''p''] ! j)"
    by (auto simp: less_Suc_eq_0_disj)
  moreover have "bears_ref (length [''gcr.io'', ''p'']) ''img@sha256:ab''" by code_simp
  moreover have "strip_platform (\<lambda>_. Inl ''no platform'') ''img@sha256:ab'' = Inr (''img@sha256:ab'', None)"
    by code_simp
  ultimately show ?thesis
    using walk_reaches_image [of "[''gcr.io'', ''p'']" "''img@sha256:ab''" "\<lambda>_. Inl ''no platform''" "''img@sha256:ab''" None
        "\<lambda>s. Inr (RefDigest demo_repo s)" demo_repo _ demo_services demo_fs demo_out 0]
    by (simp add: r)
qed

definition arm :: "string \<Rightarrow> platform" where
  "arm v = \<lparr>plat_os = ''linux'', plat_arch = ''arm'', plat_variant = v\<rparr>"

definition arm_digest :: "string \<Rightarrow> hash" where
  "arm_digest v = \<lparr>hash_algorithm = ''sha256'', hash_hex = v\<rparr>"

definition arm_manifests :: "manifest list" where
  "arm_manifests = [\<lparr>mf_platform = Some (arm ''v6''), mf_digest = arm_digest ''66''\<rparr>,
     \<lparr>mf_platform = Some (arm ''v7''), mf_digest = arm_digest ''77''\<rparr>]"

definition arm_services :: "(unit, unit, nat) services" where
  "arm_services = demo_services\<lparr>sv_get := (\<lambda>_ _ w.
     (Inr \<lparr>rd_is_index = True, rd_digest = demo_digest, rd_manifests = Inr arm_manifests\<rparr>, Suc w))\<rparr>"

theorem variant_ignored_witness:
  "fst (fst (tag_symlink arm_services demo_fs (RefTag demo_repo ''v1'') (Some (arm ''v6'')) Map.empty demo_out 0)) =
     Inr (MemSymlink ''img@sha256:77'', S_IFLNK) \<and>
   add_platform_siblings (RefTag demo_repo ''v1'') None (platform_pairs arm_manifests) Map.empty
     ''img:v1~linux-arm-v6'' = Some ''img@sha256:66''"
proof -
  let ?v6 = "\<lparr>mf_platform = Some (arm ''v6''), mf_digest = arm_digest ''66''\<rparr>"
  let ?v7 = "\<lparr>mf_platform = Some (arm ''v7''), mf_digest = arm_digest ''77''\<rparr>"
  have got: "sv_get arm_services (RefTag demo_repo ''v1'') (arm ''v6'') 0 =
      (Inr \<lparr>rd_is_index = True, rd_digest = demo_digest, rd_manifests = Inr arm_manifests\<rparr>, 1)"
    by (simp add: arm_services_def)
  have both: "matching (arm ''v6'') arm_manifests = [?v6] @ [?v7]" by code_simp
  have listed: "platform_pairs arm_manifests = [] @ (arm ''v6'', arm_digest ''66'') # [(arm ''v7'', arm_digest ''77'')]"
    by code_simp
  have set: "mf_digest ?v7 \<noteq> zero_hash" by code_simp
  have names: "path_base (repo_path demo_repo) @ ''@'' @ hash_string (mf_digest ?v7) = ''img@sha256:77''"
    "path_base (repo_path demo_repo) @ ''@'' @ hash_string (arm_digest ''66'') = ''img@sha256:66''"
    "path_base (repo_path demo_repo) @ '':'' @ ''v1'' @ ''~'' @ platform_spec (arm ''v6'') = ''img:v1~linux-arm-v6''"
    by code_simp+
  show ?thesis
    using variant_ignored [OF got refl both set listed, of demo_fs Map.empty demo_out] unfolding names by simp
qed

end
