(* ===== verification/Image_Walk.thy ===== *)
theory Image_Walk
  imports Mount_Props Merge_Props
begin

text \<open>
  What a user sees below the root of a mounted image: the kernel walks a path by one lookup per
  segment, and ends where the overlay of the image specification has the path, if the image meets the
  condition under which the merge computes that overlay (\<open>good_image\<close>).
\<close>

section \<open>Walking a path\<close>

text \<open>The kernel's walk from a node: each segment is looked up in the node before it; a node without
  lookups (a file, a symlink) has nothing below it.\<close>

fun walk_image :: "'f node \<Rightarrow> string list \<Rightarrow> entry_out \<Rightarrow> 'f node option" where
  "walk_image n [] out = Some n"
| "walk_image n (s # ss) out =
     (case node_lookup n s out of
        Some (Inr (n', m), out') \<Rightarrow> walk_image n' ss out
      | _ \<Rightarrow> None)"

text \<open>The node that an entry becomes.\<close>

definition file_node :: "'f layer list \<Rightarrow> entry \<Rightarrow> 'f node" where
  "file_node layers e = (if is_symlink e then MemSymlink (linkname (eheader e)) else ImageFile layers e)"

definition entry_node :: "'f resolved_image \<Rightarrow> path \<Rightarrow> entry \<Rightarrow> 'f node" where
  "entry_node ri p e =
     (if is_dir e then ImageDir ri p
      else if is_symlink e then MemSymlink (linkname (eheader e)) else ImageFile (ri_layers ri) e)"

lemma walk_image_snoc:
  "walk_image n (ss @ [s]) out =
    (case walk_image n ss out of None \<Rightarrow> None
     | Some n' \<Rightarrow> (case node_lookup n' s out of Some (Inr (n'', m), out') \<Rightarrow> Some n'' | _ \<Rightarrow> None))"
  by (induction ss arbitrary: n) (auto split: option.splits sum.splits)

lemma walk_image_append:
  "walk_image n (ss @ ss') out = (case walk_image n ss out of None \<Rightarrow> None | Some n' \<Rightarrow> walk_image n' ss' out)"
  by (induction ss arbitrary: n) (auto split: option.splits sum.splits)

section \<open>Directories over a tree\<close>

text \<open>A path that can be walked: every directory on the way is one.\<close>

definition on_way :: "(string list \<Rightarrow> entry option) \<Rightarrow> string list \<Rightarrow> bool" where
  "on_way get p \<longleftrightarrow> (\<forall>q. q \<noteq> [] \<and> strict_prefix q p \<longrightarrow> (\<exists>d. get q = Some d \<and> is_dir d))"

lemma on_way_snoc: "p \<noteq> [] \<Longrightarrow> on_way get (p @ [s]) \<longleftrightarrow> on_way get p \<and> (\<exists>d. get p = Some d \<and> is_dir d)"
  by (auto simp: on_way_def strict_prefix_snoc prefix_order.order_iff_strict)

lemma on_way_single: "on_way get [s]"
  by (auto simp: on_way_def strict_prefix_def prefix_Cons)

text \<open>The interface of a directory node: it has one for each path, a lookup asks the tree for the path
  with the new segment, and nothing can be looked up in a file.\<close>

locale entry_walk =
  fixes dir :: "string list \<Rightarrow> 'f node" and get :: "string list \<Rightarrow> entry option" and leaf :: "entry \<Rightarrow> 'f node"
  assumes lookup: "proper_segs p \<Longrightarrow> p \<noteq> [] \<or> s \<noteq> MetaDirName \<Longrightarrow> \<exists>out'. node_lookup (dir p) s out =
      (case get (p @ [s]) of
         None \<Rightarrow> Some (Inl ENOENT, out)
       | Some e \<Rightarrow> Some (Inr (if is_dir e then dir (p @ [s]) else leaf e, entry_mode e), out'))"
    and leaf_end: "node_lookup (leaf e) s out = None"
begin

lemma step:
  assumes "proper_segs p" "p \<noteq> [] \<or> s \<noteq> MetaDirName"
  shows "(case node_lookup (dir p) s out of Some (Inr (n, m), out') \<Rightarrow> Some n | _ \<Rightarrow> None) =
    map_option (\<lambda>e. if is_dir e then dir (p @ [s]) else leaf e) (get (p @ [s]))"
  using lookup [OF assms, of out] by (auto split: option.splits)

lemma walk:
  assumes "proper_segs p" "p \<noteq> []" "hd p \<noteq> MetaDirName"
  shows "walk_image (dir []) p out =
    (if on_way get p then map_option (\<lambda>e. if is_dir e then dir p else leaf e) (get p) else None)"
  using assms
proof (induction p rule: rev_induct)
  case (snoc s p)
  show ?case
  proof (cases "p = []")
    case True
    then show ?thesis using snoc.prems(3) step [of "[]" s out] walk_image_snoc [of "dir []" "[]" s out]
      by (simp only: True append_Nil) (simp add: on_way_single)
  next
    case False
    then have p: "proper_segs p" "hd p \<noteq> MetaDirName" using snoc.prems by simp_all
    note IH = snoc.IH [OF p(1) False p(2)]
    show ?thesis
    proof (cases "\<exists>d. on_way get p \<and> get p = Some d \<and> is_dir d")
      case True
      then have "walk_image (dir []) p out = Some (dir p)" using IH by auto
      then show ?thesis using True step [OF p(1), of s out] False by (auto simp: walk_image_snoc on_way_snoc)
    next
      case no_dir: False
      have "node_lookup n s out = None" if "walk_image (dir []) p out = Some n" for n
        using that no_dir IH leaf_end by (auto split: if_splits)
      then show ?thesis using no_dir False by (auto simp: walk_image_snoc on_way_snoc split: option.splits)
    qed
  qed
qed simp

end

definition tree_entry :: "tree \<Rightarrow> string list \<Rightarrow> entry option" where
  "tree_entry t p = (case tree_get t (abs_path p) of Inl _ \<Rightarrow> None | Inr e \<Rightarrow> Some e)"

lemma file_node_end: "node_lookup (file_node layers e) s out = None"
  by (simp add: file_node_def)

lemma at_root: "proper_segs p \<Longrightarrow> abs_path p = ''/'' \<longleftrightarrow> p = []"
  by (metis abs_path_root psegs_abs_path)

interpretation image_walk: entry_walk "\<lambda>p. ImageDir ri (abs_path p)" "tree_entry (ri_tree ri)" "file_node (ri_layers ri)"
  for ri :: "'f resolved_image"
  by unfold_locales
    (auto simp: at_root image_dir_lookup_def join_in_image_abs tree_entry_def file_node_def Let_def file_node_end
      split: sum.splits option.splits)

interpretation layer_walk: entry_walk "\<lambda>p. LayerDir ly t (abs_path p)" "tree_entry t" "file_node [ly]"
  for ly :: "'f layer" and t :: tree
  by unfold_locales
    (auto simp: at_root layer_dir_lookup_def join_in_image_abs tree_entry_def file_node_def Let_def file_node_end
      split: sum.splits option.splits)

section \<open>The walk is a lookup in the overlay\<close>

text \<open>A path of the image: every directory on the way is one.\<close>

definition on_path :: "tarfs_entry list list \<Rightarrow> string list \<Rightarrow> bool" where
  "on_path layers p \<longleftrightarrow> (\<forall>q. q \<noteq> [] \<and> strict_prefix q p \<longrightarrow> (\<exists>d. overlay_get layers q = Some d \<and> is_dir d))"

lemma on_path_single: "on_path layers [s]"
  by (auto simp: on_path_def strict_prefix_def prefix_Cons)

lemma proper_strict_prefix: "proper_segs p \<Longrightarrow> strict_prefix q p \<Longrightarrow> proper_segs q"
  by (auto simp: strict_prefix_def prefix_def)

lemma walk_overlay:
  assumes "slice_sorter filename srt" "ri_tree ri = Merge srt (map ly_entries (ri_layers ri))"
    "good_image (map ly_entries (ri_layers ri))"
    and "proper_segs p" "p \<noteq> []" "hd p \<noteq> MetaDirName"
  shows "walk_image (ImageDir ri ''/'') p out =
    (if on_path (map ly_entries (ri_layers ri)) p
     then map_option (entry_node ri (abs_path p)) (overlay_get (map ly_entries (ri_layers ri)) p) else None)"
proof -
  let ?l = "map ly_entries (ri_layers ri)"
  have get: "tree_entry (ri_tree ri) q = overlay_get ?l q" if "proper_segs q" for q
    using Merge_get_overlay [OF assms(1), of ?l "abs_path q"] assms(2,3) that
    by (simp add: tree_entry_def split: option.splits)
  then have "on_way (tree_entry (ri_tree ri)) p \<longleftrightarrow> on_path ?l p"
    using proper_strict_prefix [OF assms(4)] by (auto simp: on_way_def on_path_def)
  moreover have "(\<lambda>e. if is_dir e then ImageDir ri (abs_path p) else file_node (ri_layers ri) e) = entry_node ri (abs_path p)"
    by (simp add: fun_eq_iff entry_node_def file_node_def)
  ultimately show ?thesis using image_walk.walk [OF assms(4-6), of ri out] get [OF assms(4)] by simp
qed

text \<open>C4. A mounted image shows the overlay of its layers that the image specification defines, when the
  image is good (in each layer the markers sort in front of the entries they reach and no path has two
  entries; no layer replaces a directory by a file or a file by a directory without a marker) and the path
  is not below the reserved name \<open>@@meta\<close>: the kernel's walk of a path below the image's root ends
  exactly where the specification has that path below directories only; the node there
  is a directory, symlink or file by the type of the entry that the specification gives, and
  opening a file asks the layer that the entry comes from, at its position, for this path.\<close>

theorem mounted_image_is_overlay:
  assumes "merged_image ri" "good_image (map ly_entries (ri_layers ri))"
    and "proper_segs p" "p \<noteq> []" "hd p \<noteq> MetaDirName"
  shows "walk_image (ImageDir ri ''/'') p out =
      (if on_path (map ly_entries (ri_layers ri)) p
       then map_option (entry_node ri (abs_path p)) (overlay_get (map ly_entries (ri_layers ri)) p) else None) \<and>
    (\<forall>e. walk_image (ImageDir ri ''/'') p out = Some (ImageFile (ri_layers ri) e) \<longrightarrow>
       image_file_open fs_open (ri_layers ri) e =
         (case fs_open (ly_fs (ri_layers ri ! nat (elayer e))) (join_with ''/'' p) of Inl _ \<Rightarrow> Inl EIO | Inr h \<Rightarrow> Inr h))"
proof -
  obtain srt where srt: "slice_sorter filename srt" "ri_tree ri = Merge srt (map ly_entries (ri_layers ri))"
    using assms(1) by (auto simp: merged_image_def)
  note walk = walk_overlay [OF srt assms(2-5), of out]
  have "image_file_open fs_open (ri_layers ri) e =
      (case fs_open (ly_fs (ri_layers ri ! nat (elayer e))) (join_with ''/'' p) of Inl _ \<Rightarrow> Inl EIO | Inr h \<Rightarrow> Inr h)"
    if "walk_image (ImageDir ri ''/'') p out = Some (ImageFile (ri_layers ri) e)" for e
  proof -
    have e: "overlay_get (map ly_entries (ri_layers ri)) p = Some e" "\<not> is_dir e"
      using that walk by (auto simp: entry_node_def split: if_splits)
    then have g: "tree_get (Merge srt (map ly_entries (ri_layers ri))) (abs_path p) = Inr e"
      using Merge_get_overlay [OF srt(1), of "map ly_entries (ri_layers ri)" "abs_path p"] assms(2,3) by simp
    have "epath e = abs_path p" using merged.get_epath [OF g] assms(3) by simp
    then show ?thesis
      using merged_index [OF g e(2)] by (simp add: image_file_open_def trim_root)
  qed
  then show ?thesis using walk by blast
qed

theorem mounted_image_is_overlay_witness:
  "walk_image (ImageDir demo_image ''/'') [''b'', ''x''] demo_out = Some (ImageFile [demo_layer] demo_x) \<and>
   on_path [demo_entries] [''b'', ''x''] \<and> overlay_get [demo_entries] [''b'', ''x''] = Some demo_x \<and>
   image_file_open (\<lambda>_ nm. if nm = ''b/x'' then Inr nm else Inl ()) [demo_layer] demo_x = Inr ''b/x''"
proof -
  have walk: "walk_image (ImageDir demo_image ''/'') [''b'', ''x''] demo_out = Some (ImageFile [demo_layer] demo_x)"
    using demo_lookups by auto
  have layers: "ri_layers demo_image = [demo_layer]" "ly_entries demo_layer = demo_entries"
    by (simp_all add: demo_image_def demo_layer_def)
  have good: "good_image (map ly_entries (ri_layers demo_image))"
    unfolding layers(1) by (simp add: layers(2)) code_simp
  have p: "proper_segs [''b'', ''x'']" "hd [''b'', ''x''] \<noteq> MetaDirName" "join_with ''/'' [''b'', ''x''] = ''b/x''"
    by code_simp+
  note t = mounted_image_is_overlay [OF demo_merged good p(1) _ p(2), of demo_out
    "\<lambda>_ nm. if nm = ''b/x'' then Inr nm else Inl ()", unfolded layers list.map walk p(3)]
  have on: "on_path [demo_entries] [''b'', ''x'']" using t by (auto split: if_splits)
  then have "Some (ImageFile [demo_layer] demo_x) =
      map_option (entry_node demo_image (abs_path [''b'', ''x''])) (overlay_get [demo_entries] [''b'', ''x''])"
    using t by simp
  then have "overlay_get [demo_entries] [''b'', ''x''] = Some demo_x"
    by (cases "overlay_get [demo_entries] [''b'', ''x'']") (simp_all add: entry_node_def split: if_splits)
  then show ?thesis using walk on t by simp
qed

section \<open>The raw layers\<close>

text \<open>What the archive of a layer has at a path: the header of the last entry of that name, or a
  directory that the names of entries imply.\<close>

definition raw_get :: "tarfs_entry list \<Rightarrow> string list \<Rightarrow> entry option" where
  "raw_get es p =
     (case map_of (rev (map (\<lambda>e. (psegs (filename e), header e)) es)) p of
        Some h \<Rightarrow> Some \<lparr>epath = abs_path p, eheader = h, elayer = 0\<rparr>
      | None \<Rightarrow> if p = [] then Some root_entry
                else if list_ex (\<lambda>e. strict_prefix p (psegs (filename e))) es then Some (synthetic_dir (abs_path p))
                else None)"

definition on_raw_path :: "tarfs_entry list \<Rightarrow> string list \<Rightarrow> bool" where
  "on_raw_path es p \<longleftrightarrow> (\<forall>q. q \<noteq> [] \<and> strict_prefix q p \<longrightarrow> (\<exists>d. raw_get es q = Some d \<and> is_dir d))"

definition raw_node :: "'f layer \<Rightarrow> path \<Rightarrow> entry \<Rightarrow> 'f node" where
  "raw_node ly p e = (if is_dir e then LayerDir ly (LayerTree (ly_entries ly)) p else file_node [ly] e)"

lemma walk_raw:
  assumes "proper_segs p" "p \<noteq> []" "hd p \<noteq> MetaDirName"
  shows "walk_image (LayerDir ly (LayerTree (ly_entries ly)) ''/'') p out =
    (if on_raw_path (ly_entries ly) p then map_option (raw_node ly (abs_path p)) (raw_get (ly_entries ly) p) else None)"
proof -
  let ?t = "LayerTree (ly_entries ly)"
  have get: "tree_entry ?t q = raw_get (ly_entries ly) q" if "proper_segs q" for q
    using layer_tree_get [of "ly_entries ly" "abs_path q"] that
    by (simp add: tree_entry_def raw_get_def split: option.splits)
  then have "on_way (tree_entry ?t) p \<longleftrightarrow> on_raw_path (ly_entries ly) p"
    using proper_strict_prefix [OF assms(1)] by (auto simp: on_way_def on_raw_path_def)
  moreover have "(\<lambda>e. if is_dir e then LayerDir ly ?t (abs_path p) else file_node [ly] e) = raw_node ly (abs_path p)"
    by (simp add: fun_eq_iff raw_node_def)
  ultimately show ?thesis using layer_walk.walk [OF assms, of ly ?t out] get [OF assms(1)] by simp
qed

text \<open>C31. The \<open>@@meta\<close> directory of an image shows what its layers are made of: below
  \<open>@@meta/layers\<close> and the digest of a layer, the walk of any path that does not begin with the reserved name
  \<open>@@meta\<close> itself (an entry of that name in the archive cannot be reached) ends exactly where the archive of
  that layer has the path, whiteout markers included, at a node of the right kind; and the digests of the
  image and of the layer can be read as text.\<close>

theorem meta_shows_layers:
  assumes "find_layer (ri_layers ri) d = Some ly" "proper_segs p" "p \<noteq> []" "hd p \<noteq> MetaDirName"
  shows "walk_image (ImageDir ri ''/'') ([MetaDirName, ''layers'', d] @ p) out =
      (if on_raw_path (ly_entries ly) p then map_option (raw_node ly (abs_path p)) (raw_get (ly_entries ly) p) else None) \<and>
    walk_image (ImageDir ri ''/'') [MetaDirName, ''digest''] out = Some (TextFile (hash_string (ri_digest ri) @ newline)) \<and>
    walk_image (ImageDir ri ''/'') [MetaDirName, ''layers'', d, MetaDirName, ''layer-digest''] out =
      Some (TextFile (d @ newline))"
proof -
  have layer: "walk_image (ImageDir ri ''/'') [MetaDirName, ''layers'', d] out = Some (LayerDir ly (LayerTree (ly_entries ly)) ''/'')"
    using assms(1) by (simp add: image_dir_lookup_def image_meta_lookup_def layers_lookup_def)
  then have "walk_image (ImageDir ri ''/'') ([MetaDirName, ''layers'', d] @ p) out =
      walk_image (LayerDir ly (LayerTree (ly_entries ly)) ''/'') p out"
    by (simp only: walk_image_append) simp
  moreover have "walk_image (ImageDir ri ''/'') ([MetaDirName, ''layers'', d] @ [MetaDirName, ''layer-digest'']) out =
      Some (TextFile (d @ newline))"
    using find_layer_in [OF assms(1)]
    by (simp only: walk_image_append layer) (simp add: layer_dir_lookup_def layer_meta_lookup_def new_text_file_def)
  moreover have "walk_image (ImageDir ri ''/'') [MetaDirName, ''digest''] out = Some (TextFile (hash_string (ri_digest ri) @ newline))"
    by (simp add: image_dir_lookup_def image_meta_lookup_def new_text_file_def)
  ultimately show ?thesis using walk_raw [OF assms(2-4), of ly out] by simp
qed

theorem meta_shows_layers_witness:
  "walk_image (ImageDir demo_image ''/'') [MetaDirName, ''layers'', ''sha256:ab'', ''b'', ''x''] demo_out =
     Some (ImageFile [demo_layer] demo_x) \<and>
   walk_image (ImageDir demo_image ''/'') [MetaDirName, ''digest''] demo_out = Some (TextFile (''sha256:ab'' @ newline))"
proof -
  have ly: "find_layer (ri_layers demo_image) ''sha256:ab'' = Some demo_layer" by code_simp
  have p: "proper_segs [''b'', ''x'']" "[''b'', ''x''] \<noteq> []" "hd [''b'', ''x''] \<noteq> MetaDirName" by code_simp+
  have es: "ly_entries demo_layer = demo_entries" by (simp add: demo_layer_def)
  have "raw_get demo_entries [''b''] = Some \<lparr>epath = ''/b'', eheader = zero_header\<lparr>typeflag := TypeDir, hmode := 0x1ED\<rparr>, elayer = 0\<rparr>"
    "raw_get demo_entries [''b'', ''x''] = Some demo_x" by code_simp+
  then have "on_raw_path demo_entries [''b'', ''x'']" "raw_get demo_entries [''b'', ''x''] = Some demo_x"
    by (auto simp: on_raw_path_def strict_prefix_def prefix_Cons is_dir_def)
  moreover have "\<not> is_dir demo_x" "\<not> is_symlink demo_x" "hash_string (ri_digest demo_image) = ''sha256:ab''" by code_simp+
  then have "raw_node demo_layer (abs_path [''b'', ''x'']) demo_x = ImageFile [demo_layer] demo_x"
    "hash_string (ri_digest demo_image) = ''sha256:ab''" by (simp_all add: raw_node_def file_node_def)
  ultimately show ?thesis using meta_shows_layers [OF ly p, of demo_out] es by simp
qed

section \<open>Reading a file\<close>

text \<open>What \<open>io.ReaderAt\<close> promises about a source of the bytes \<open>b\<close>: the count is within the buffer and
  says how much of it holds the bytes at the offset; without an error the buffer is full, and the
  end of the file is reported only there.  Any read may fail with another error.\<close>

definition reads_file :: "string \<Rightarrow> (bytes \<Rightarrow> int \<Rightarrow> bytes \<times> nat \<times> string option) \<Rightarrow> bytes \<Rightarrow> bool" where
  "reads_file eof rd b \<longleftrightarrow> (\<forall>dest off buf n err. 0 \<le> off \<longrightarrow> rd dest off = (buf, n, err) \<longrightarrow>
     n \<le> length dest \<and> take n buf = take n (drop (nat off) b) \<and> n \<le> length (drop (nat off) b) \<and>
     (err = None \<longrightarrow> n = length dest) \<and> (err = Some eof \<longrightarrow> n = length (drop (nat off) b)))"

lemma reads_fileD:
  assumes "reads_file eof rd b" "0 \<le> off" "rd dest off = (buf, n, err)" "err = None \<or> err = Some eof"
  shows "take n buf = take (length dest) (drop (nat off) b)"
proof -
  have r: "n \<le> length dest" "take n buf = take n (drop (nat off) b)" "n \<le> length (drop (nat off) b)"
    "err = None \<Longrightarrow> n = length dest" "err = Some eof \<Longrightarrow> n = length (drop (nat off) b)"
    using assms(1-3) unfolding reads_file_def by blast+
  then show ?thesis using assms(4) by (cases err) auto
qed

text \<open>Reading through the handler: the bytes at the offset, fewer only at the end of the file.\<close>

lemma file_read_window:
  assumes "reader_of h = Some rd" "reads_file eof rd b" "0 \<le> off"
  shows "image_file_read reader_of eof h dest off =
    (if snd (snd (rd dest off)) \<in> {None, Some eof} then Inr (take (length dest) (drop (nat off) b)) else Inl EIO)"
proof -
  obtain buf n err where "rd dest off = (buf, n, err)" by (metis surj_pair)
  then show ?thesis using assms(1) reads_fileD [OF assms(2,3)] by (simp add: image_file_read_def)
qed

text \<open>C5. A mounted file has the bytes of its layer: when, in a good image and outside \<open>@@meta\<close>, the
  walk of a path ends at a file, opening it succeeds if the layer from which the overlay of the image
  specification takes the path has a file of that name in its archive, and reading it at any
  offset returns exactly the bytes there, fewer than asked for only at the end, or fails when the
  reader of the layer fails.\<close>

theorem mounted_file_reads:
  assumes "merged_image ri" "good_image (map ly_entries (ri_layers ri))"
    and "proper_segs p" "p \<noteq> []" "hd p \<noteq> MetaDirName"
    and "walk_image (ImageDir ri ''/'') p out = Some (ImageFile layers e)"
    and "fs_open (ly_fs (ri_layers ri ! nat (elayer e))) (join_with ''/'' p) = Inr h"
    and "reader_of h = Some rd" "reads_file eof rd b" "0 \<le> off"
  shows "overlay_get (map ly_entries (ri_layers ri)) p = Some e \<and> 0 \<le> elayer e \<and> elayer e < int (length (ri_layers ri)) \<and>
    image_file_open fs_open layers e = Inr h \<and>
    image_file_read reader_of eof h dest off =
      (if snd (snd (rd dest off)) \<in> {None, Some eof} then Inr (take (length dest) (drop (nat off) b)) else Inl EIO)"
proof -
  obtain srt where srt: "slice_sorter filename srt" "ri_tree ri = Merge srt (map ly_entries (ri_layers ri))"
    using assms(1) by (auto simp: merged_image_def)
  have e: "overlay_get (map ly_entries (ri_layers ri)) p = Some e" "\<not> is_dir e" "layers = ri_layers ri"
    using assms(6) walk_overlay [OF srt assms(2-5), of out] by (auto simp: entry_node_def split: if_splits)
  then have g: "tree_get (Merge srt (map ly_entries (ri_layers ri))) (abs_path p) = Inr e"
    using Merge_get_overlay [OF srt(1), of "map ly_entries (ri_layers ri)" "abs_path p"] assms(2,3) by simp
  have index: "0 \<le> elayer e" "elayer e < int (length (ri_layers ri))" using merged_index [OF g e(2)] by (auto simp: entry_in_def)
  have "epath e = abs_path p" using merged.get_epath [OF g] assms(3) by simp
  then have "image_file_open fs_open layers e = Inr h"
    using index assms(7) e(3) by (simp add: image_file_open_def trim_root)
  then show ?thesis using e(1) index file_read_window [of reader_of h, OF assms(8-10)] by blast
qed

text \<open>A reader of bytes in memory.\<close>

definition memory_reader :: "bytes \<Rightarrow> bytes \<Rightarrow> int \<Rightarrow> bytes \<times> nat \<times> string option" where
  "memory_reader b dest off =
     (let r = take (length dest) (drop (nat off) b)
      in (r @ drop (length r) dest, length r, if length r < length dest then Some ''EOF'' else None))"

lemma memory_reads: "reads_file ''EOF'' (memory_reader b) b"
  by (auto simp: reads_file_def memory_reader_def Let_def split: if_splits)

theorem mounted_file_reads_witness:
  "image_file_open (\<lambda>_ nm. if nm = ''b/x'' then Inr ''hello'' else Inl ()) [demo_layer] demo_x = Inr ''hello'' \<and>
   image_file_read (\<lambda>h. Some (memory_reader h)) ''EOF'' ''hello'' ''........'' 2 = Inr ''llo''"
proof -
  have layers: "ri_layers demo_image = [demo_layer]" "ly_entries demo_layer = demo_entries"
    by (simp_all add: demo_image_def demo_layer_def)
  have good: "good_image (map ly_entries (ri_layers demo_image))"
    unfolding layers(1) by (simp add: layers(2)) code_simp
  have walk: "walk_image (ImageDir demo_image ''/'') [''b'', ''x''] demo_out = Some (ImageFile [demo_layer] demo_x)"
    using demo_lookups by auto
  have p: "proper_segs [''b'', ''x'']" "[''b'', ''x''] \<noteq> []" "hd [''b'', ''x''] \<noteq> MetaDirName" by code_simp+
  define fs_open where "fs_open = (\<lambda>(_ :: unit) nm. if nm = ''b/x'' then Inr ''hello'' else Inl ())"
  define reader_of where "reader_of = (\<lambda>h. Some (memory_reader h))"
  have opened: "fs_open (ly_fs (ri_layers demo_image ! nat (elayer demo_x))) (join_with ''/'' [''b'', ''x'']) = Inr ''hello''"
    by (simp add: fs_open_def)
  have reader: "reader_of ''hello'' = Some (memory_reader ''hello'')" by (simp add: reader_of_def)
  from mounted_file_reads [where fs_open = fs_open and reader_of = reader_of and off = 2 and dest = "''........''",
      OF demo_merged good p walk opened reader memory_reads]
  have "image_file_open fs_open [demo_layer] demo_x = Inr ''hello''"
    "image_file_read reader_of ''EOF'' ''hello'' ''........'' 2 = Inr ''llo''"
    by (simp_all add: memory_reader_def)
  then show ?thesis by (simp add: fs_open_def reader_of_def)
qed

section \<open>Hard links\<close>

lemma overlay_get_epath:
  fixes srt :: "tarfs_entry list \<Rightarrow> tarfs_entry list"
  assumes "slice_sorter filename srt" "good_image layers" "proper_segs p" "overlay_get layers p = Some e"
  shows "epath e = abs_path p"
proof -
  have "tree_get (Merge srt layers) (abs_path p) = Inr e"
    using Merge_get_overlay [OF assms(1,2), of "abs_path p"] assms(3,4) by simp
  then show ?thesis using merged.get_epath assms(3) by simp
qed

lemma file_attr_size: "at_size (image_file_getattr e attr) = word_of_int (hsize (eheader e))"
  by (simp add: image_file_getattr_def set_attr_from_header_def Let_def split: option.split)

text \<open>A hard link of an image is an empty file: the entry that a tar archive has for a further
  name of a file carries no data, only the first name; the walk ends at a regular file of its
  own for it, with size 0 and one link, whatever the file that it names holds, and that file,
  when it has a size, reports it.\<close>

theorem hard_link_is_empty:
  assumes "merged_image ri" "good_image (map ly_entries (ri_layers ri))"
    and "proper_segs p" "p \<noteq> []" "hd p \<noteq> MetaDirName" "on_path (map ly_entries (ri_layers ri)) p"
    and "overlay_get (map ly_entries (ri_layers ri)) p = Some e" "is_hardlink e" "hsize (eheader e) = 0"
    and "overlay_get (map ly_entries (ri_layers ri)) (psegs (linkname (eheader e))) = Some t"
    and "0 < hsize (eheader t)" "hsize (eheader t) < 2 ^ 63"
  shows "walk_image (ImageDir ri ''/'') p out = Some (ImageFile (ri_layers ri) e) \<and>
    at_size (image_file_getattr e attr) = 0 \<and> at_nlink (image_file_getattr e attr) = 1 \<and>
    uint (at_size (image_file_getattr t attr)) = hsize (eheader t)"
proof -
  obtain srt where srt: "slice_sorter filename srt" "ri_tree ri = Merge srt (map ly_entries (ri_layers ri))"
    using assms(1) by (auto simp: merged_image_def)
  have "epath e = abs_path p" using overlay_get_epath [OF srt(1) _ assms(3,7)] assms(2) by simp
  then have "\<not> is_dir e" "\<not> is_symlink e"
    using assms(3,4,8) by (auto simp: is_dir_def is_symlink_def is_hardlink_def abs_path_root)
  then have "walk_image (ImageDir ri ''/'') p out = Some (ImageFile (ri_layers ri) e)"
    using walk_overlay [OF srt assms(2-5), of out] assms(6,7) by (simp add: entry_node_def)
  moreover have "at_nlink (image_file_getattr e attr) = 1"
    by (simp add: image_file_getattr_def set_attr_from_header_def Let_def)
  moreover have "hsize (eheader t) mod 2 ^ 64 = hsize (eheader t)" using assms(11,12) by simp
  ultimately show ?thesis using assms(9) by (simp add: file_attr_size uint_word_of_int)
qed

text \<open>Two names of one file, as in an image whose programs are links to one binary.\<close>

definition link_entries :: "tarfs_entry list" where
  "link_entries = [\<lparr>filename = ''a'', header = demo_file\<rparr>,
     \<lparr>filename = ''b'', header = zero_header\<lparr>typeflag := TypeLink, linkname := ''a'', hmode := 0x1ED\<rparr>\<rparr>]"

definition link_image :: "unit resolved_image" where
  "link_image = (let ly = \<lparr>ly_digest = demo_digest, ly_size = 0, ly_fs = (), ly_entries = link_entries\<rparr>
     in \<lparr>ri_digest = demo_digest, ri_layers = [ly], ri_tree = Merge (insertion_sort filename) [link_entries]\<rparr>)"

theorem hard_link_is_empty_witness:
  "\<exists>e t. walk_image (ImageDir link_image ''/'') [''b''] demo_out = Some (ImageFile (ri_layers link_image) e) \<and>
     linkname (eheader e) = ''a'' \<and> (\<forall>attr. at_size (image_file_getattr e attr) = 0) \<and>
     overlay_get [link_entries] [''a''] = Some t \<and> (\<forall>attr. uint (at_size (image_file_getattr t attr)) = 1000)"
proof -
  have layers: "map ly_entries (ri_layers link_image) = [link_entries]" by (simp add: link_image_def Let_def)
  have merged: "merged_image link_image"
    unfolding merged_image_def
    by (intro exI [of _ "insertion_sort filename"]) (simp add: link_image_def Let_def ins.slice_sorter_axioms)
  have good: "good_image [link_entries]" by code_simp
  let ?e = "\<lparr>epath = ''/b'', eheader = zero_header\<lparr>typeflag := TypeLink, linkname := ''a'', hmode := 0x1ED\<rparr>, elayer = 0\<rparr>"
  let ?t = "\<lparr>epath = ''/a'', eheader = demo_file, elayer = 0\<rparr>"
  have "tree_get (Merge (insertion_sort filename) [link_entries]) ''/b'' = Inr ?e"
    "tree_get (Merge (insertion_sort filename) [link_entries]) ''/a'' = Inr ?t"
    "psegs ''/b'' = [''b'']" "psegs ''/a'' = [''a'']" "psegs ''a'' = [''a'']"
    by code_simp+
  then have get: "overlay_get [link_entries] [''b''] = Some ?e" "overlay_get [link_entries] (psegs (linkname (eheader ?e))) = Some ?t"
    using Merge_get_overlay [OF ins.slice_sorter_axioms good, of "''/b''"]
      Merge_get_overlay [OF ins.slice_sorter_axioms good, of "''/a''"]
    by (auto split: option.splits)
  have p: "proper_segs [''b'']" "[''b''] \<noteq> []" "hd [''b''] \<noteq> MetaDirName" by code_simp+
  have sizes: "is_hardlink ?e" "hsize (eheader ?e) = 0" "0 < hsize (eheader ?t)" "hsize (eheader ?t) < 2 ^ 63"
    "hsize (eheader ?t) = 1000" by code_simp+
  from hard_link_is_empty [OF merged _ p, unfolded layers, OF good on_path_single get(1) sizes(1,2) get(2) sizes(3,4)]
  have "walk_image (ImageDir link_image ''/'') [''b''] demo_out = Some (ImageFile (ri_layers link_image) ?e)"
    "at_size (image_file_getattr ?e attr) = 0" "uint (at_size (image_file_getattr ?t attr)) = hsize (eheader ?t)" for attr
    by blast+
  then show ?thesis using get \<open>psegs ''a'' = [''a'']\<close> sizes(5) by (intro exI [of _ ?e] exI [of _ ?t]) simp
qed

end
