(* ===== verification/Indexer.thy ===== *)
theory Indexer
  imports Disk_Props ChunkCache Layer
begin

text \<open>
  \<open>internal/layer/layer.go\<close>: opening a layer, either from the two index files of the disk cache
  or by one pass over the layer that builds and stores them.  The packages \<open>gsip\<close>, \<open>tarfs\<close> and
  \<open>ranger\<close>, the JSON encoder and the accessors of a registry layer are parameters, collected in a
  record; their calls act on a world.
\<close>

section \<open>Data\<close>

text \<open>The reader of compressed bytes: requests to the registry, or the chunk cache in front.\<close>

datatype 'w index_reader = Ranged "'w reader_at" | Chunked "'w layer_view"

record ('l, 'z, 'f, 'w) targz =
  tz_digest :: "'l \<Rightarrow> string + hash"
  tz_size :: "'l \<Rightarrow> string + int"
  tz_ranger :: "string \<Rightarrow> 'w reader_at"
  tz_new_reader :: "'w index_reader \<Rightarrow> int \<Rightarrow> 'w \<Rightarrow> (string + 'z) \<times> 'w"
  tz_index :: "'z \<Rightarrow> 'w \<Rightarrow> (string + tarfs_entry list) \<times> 'z \<times> 'w"
  tz_encode_toc :: "tarfs_entry list \<Rightarrow> string + bytes"
  tz_encode :: "'z \<Rightarrow> bytes \<times> string option"
  tz_decode :: "'w index_reader \<Rightarrow> int \<Rightarrow> handle \<Rightarrow> 'w \<Rightarrow> (string + 'z) \<times> 'w"
  tz_decode_toc :: "bytes \<Rightarrow> string + tarfs_entry list"
  tz_tarfs :: "'z \<Rightarrow> bytes \<Rightarrow> string + 'f"

text \<open>An indexer: its disk cache, and whether it has a chunk cache.\<close>

record indexer =
  ix_cache :: cache
  ix_chunks :: bool

definition new_indexer :: "cache \<Rightarrow> bool \<Rightarrow> indexer" where
  "new_indexer c chunks = \<lparr>ix_cache = c, ix_chunks = chunks\<rparr>"

datatype index_error = LibError string | DiskError os_error

section \<open>Loading\<close>

definition read_all :: "cache \<Rightarrow> string \<Rightarrow> disk \<Rightarrow> (os_error + bytes) \<times> disk" where
  "read_all c key d = (case cache_open c key d of
     (Inl e, d1) \<Rightarrow> (Inl e, d1)
   | (Inr h, d1) \<Rightarrow> os_read h d1)"

definition has_indexes :: "cache \<Rightarrow> string \<Rightarrow> string \<Rightarrow> disk \<Rightarrow> bool \<times> disk" where
  "has_indexes c gkey tkey d = (case cache_has c gkey d of
     (False, d1) \<Rightarrow> (False, d1)
   | (True, d1) \<Rightarrow> cache_has c tkey d1)"

text \<open>What follows when both files were there; another goroutine may have come in between.\<close>

definition load_indexes ::
  "('l, 'z, 'f, 'w) targz \<Rightarrow> cache \<Rightarrow> 'w index_reader \<Rightarrow> int \<Rightarrow> string \<Rightarrow> string \<Rightarrow> disk \<Rightarrow> 'w \<Rightarrow>
   (index_error + ('f \<times> tarfs_entry list) option) \<times> disk \<times> 'w" where
  "load_indexes tz c rra sz gkey tkey d w =
     (case cache_open c gkey d of
        (Inl e, d1) \<Rightarrow> (if e = NotExist then Inr None else Inl (DiskError e), d1, w)
      | (Inr gz, d1) \<Rightarrow>
          (case tz_decode tz rra sz gz w of
             (Inl e, w1) \<Rightarrow> (Inl (LibError e), d1, w1)
           | (Inr zr, w1) \<Rightarrow>
               (case read_all c tkey d1 of
                  (Inl e, d2) \<Rightarrow> (Inl (DiskError e), d2, w1)
                | (Inr toc, d2) \<Rightarrow>
                    (case tz_decode_toc tz toc of
                       Inl e \<Rightarrow> (Inl (LibError e), d2, w1)
                     | Inr es \<Rightarrow>
                         (case tz_tarfs tz zr toc of
                            Inl e \<Rightarrow> (Inl (LibError e), d2, w1)
                          | Inr fsys \<Rightarrow> (Inr (Some (fsys, es)), d2, w1))))))"

definition load_layer ::
  "('l, 'z, 'f, 'w) targz \<Rightarrow> cache \<Rightarrow> 'w index_reader \<Rightarrow> int \<Rightarrow> string \<Rightarrow> string \<Rightarrow> disk \<Rightarrow> 'w \<Rightarrow>
   (index_error + ('f \<times> tarfs_entry list) option) \<times> disk \<times> 'w" where
  "load_layer tz c rra sz gkey tkey d w =
     (case has_indexes c gkey tkey d of
        (False, d1) \<Rightarrow> (Inr None, d1, w)
      | (True, d1) \<Rightarrow> load_indexes tz c rra sz gkey tkey d1 w)"

section \<open>Building\<close>

text \<open>The callbacks of the two writes: the encoded entries, and what the reader encodes itself to.\<close>

definition write_index ::
  "(evict_entry list \<Rightarrow> evict_entry list) \<Rightarrow> string \<Rightarrow> bytes \<Rightarrow> string option \<Rightarrow> cache \<times> disk \<Rightarrow>
   os_error option \<times> cache \<times> disk" where
  "write_index srt key out err s =
     (case cache_write srt (fst s) key out (map_option OSError err) (snd s) of ((e, c'), d') \<Rightarrow> (e, c', d'))"

definition build_layer ::
  "('l, 'z, 'f, 'w) targz \<Rightarrow> (evict_entry list \<Rightarrow> evict_entry list) \<Rightarrow> hash \<Rightarrow> int \<Rightarrow> 'w index_reader \<Rightarrow>
   string \<Rightarrow> string \<Rightarrow> cache \<times> disk \<Rightarrow> 'w \<Rightarrow> (index_error + 'f layer) \<times> (cache \<times> disk) \<times> 'w" where
  "build_layer tz srt digest sz rra gkey tkey s w =
     (case tz_new_reader tz rra sz w of
        (Inl e, w1) \<Rightarrow> (Inl (LibError e), s, w1)
      | (Inr zr, w1) \<Rightarrow>
          (case tz_index tz zr w1 of
             (Inl e, _, w2) \<Rightarrow> (Inl (LibError e), s, w2)
           | (Inr es, zr1, w2) \<Rightarrow>
               (case tz_encode_toc tz es of
                  Inl e \<Rightarrow> (Inl (LibError e), s, w2)
                | Inr toc \<Rightarrow>
                    (case write_index srt tkey toc None s of
                       (Some e, s1) \<Rightarrow> (Inl (DiskError e), s1, w2)
                     | (None, s1) \<Rightarrow>
                         (case write_index srt gkey (fst (tz_encode tz zr1)) (snd (tz_encode tz zr1)) s1 of
                            (Some e, s2) \<Rightarrow> (Inl (DiskError e), s2, w2)
                          | (None, s2) \<Rightarrow>
                              (case tz_tarfs tz zr1 toc of
                                 Inl e \<Rightarrow> (Inl (LibError e), s2, w2)
                               | Inr fsys \<Rightarrow>
                                   (Inr \<lparr>ly_digest = digest, ly_size = sz, ly_fs = fsys, ly_entries = es\<rparr>,
                                    s2, w2)))))))"

section \<open>Opening a layer\<close>

definition layer_reader ::
  "('l, 'z, 'f, 'w) targz \<Rightarrow> bool \<Rightarrow> string \<Rightarrow> hash \<Rightarrow> int \<Rightarrow> 'w index_reader" where
  "layer_reader tz chunks url digest sz =
     (if chunks then Chunked (for_layer digest (tz_ranger tz url) sz) else Ranged (tz_ranger tz url))"

definition open_layer ::
  "('l, 'z, 'f, 'w) targz \<Rightarrow> (evict_entry list \<Rightarrow> evict_entry list) \<Rightarrow> indexer \<Rightarrow> string \<Rightarrow> 'l \<Rightarrow> disk \<Rightarrow> 'w \<Rightarrow>
   (index_error + 'f layer) \<times> (indexer \<times> disk) \<times> 'w" where
  "open_layer tz srt ix url l d w =
     (case tz_digest tz l of
        Inl e \<Rightarrow> (Inl (LibError e), (ix, d), w)
      | Inr digest \<Rightarrow>
          (case tz_size tz l of
             Inl e \<Rightarrow> (Inl (LibError e), (ix, d), w)
           | Inr sz \<Rightarrow>
               (let rra = layer_reader tz (ix_chunks ix) url digest sz;
                    gkey = gsip_key digest;
                    tkey = toc_key digest
                in case load_layer tz (ix_cache ix) rra sz gkey tkey d w of
                     (Inl e, d1, w1) \<Rightarrow> (Inl e, (ix, d1), w1)
                   | (Inr (Some (fsys, es)), d1, w1) \<Rightarrow>
                       (Inr \<lparr>ly_digest = digest, ly_size = sz, ly_fs = fsys, ly_entries = es\<rparr>, (ix, d1), w1)
                   | (Inr None, d1, w1) \<Rightarrow>
                       (case build_layer tz srt digest sz rra gkey tkey (ix_cache ix, d1) w1 of
                          (r, (c, d2), w2) \<Rightarrow> (r, (ix\<lparr>ix_cache := c\<rparr>, d2), w2)))))"

end
