(* ===== verification/Indexer_Props.thy ===== *)
theory Indexer_Props
  imports Indexer Oci ChunkCache_Read
begin

text \<open>
  What opening a layer leaves on the disk and finds there: the index files are complete and
  belong to the layer's digest whatever fails, a layer that was indexed is opened again without
  touching the registry, and loading genuine indexes does not fail.
\<close>

section \<open>The files of the indexes\<close>

definition hash_wf :: "hash \<Rightarrow> bool" where
  "hash_wf h \<longleftrightarrow> proper (hash_algorithm h) \<and> proper (hash_hex h)"

lemma index_base:
  assumes "has_prefix dir ''/''" "proper nm"
  shows "path_base (path_join [dir, index_key h nm]) = nm"
  using psegs_snoc [OF assms(2), of "dir @ ''/layers/'' @ hash_algorithm h @ ''/'' @ hash_hex h"]
    path_join_rooted [OF assms(1), of "index_key h nm"] proper_psegs [of "dir @ ''/'' @ index_key h nm"]
  by (simp add: index_key_def path_base_abs_path)

lemma index_path:
  assumes "has_prefix dir ''/''" "hash_wf h" "proper nm"
  shows "path_join [dir, index_key h nm] = abs_path (psegs dir @ [''layers'', hash_algorithm h, hash_hex h, nm])"
proof -
  have alg: "proper (hash_algorithm h)" "proper (hash_hex h)" using assms(2) by (simp_all add: hash_wf_def)
  have "proper ''layers''" by code_simp
  then have "psegs (dir @ slash # ''layers'') = psegs dir @ [''layers'']" by (rule psegs_snoc)
  then show ?thesis
    using psegs_snoc [OF alg(1), of "dir @ slash # ''layers''"]
      psegs_snoc [OF alg(2), of "(dir @ slash # ''layers'') @ slash # hash_algorithm h"]
      psegs_snoc [OF assms(3), of "((dir @ slash # ''layers'') @ slash # hash_algorithm h) @ slash # hash_hex h"]
      path_join_rooted [OF assms(1), of "index_key h nm"]
    by (simp add: index_key_def)
qed

lemma index_path_inj:
  assumes "has_prefix dir ''/''" "hash_wf h" "hash_wf h'" "proper nm" "proper nm'"
    and "path_join [dir, index_key h nm] = path_join [dir, index_key h' nm']"
  shows "h = h' \<and> nm = nm'"
proof -
  have l: "proper ''layers''" by code_simp
  have "proper_segs (psegs dir @ [''layers'', hash_algorithm h, hash_hex h, nm])"
    "proper_segs (psegs dir @ [''layers'', hash_algorithm h', hash_hex h', nm'])"
    using assms(2-5) l by (simp_all add: hash_wf_def)
  then show ?thesis
    using assms(6) by (simp add: index_path [OF assms(1,2,4)] index_path [OF assms(1,3,5)] abs_path_inj)
qed

text \<open>The two file names.\<close>

lemma index_names [simp]: "proper ''gsip.idx''" "proper ''tarfs.toc''"
  by code_simp+

lemma valid_index_key:
  assumes "has_prefix dir ''/''"
  shows "valid_key dir (gsip_key h)" "valid_key dir (toc_key h)"
    "path_join [dir, gsip_key h] \<noteq> path_join [dir, toc_key h']"
  using index_base [OF assms, of "''gsip.idx''" h] index_base [OF assms, of "''tarfs.toc''" h]
    index_base [OF assms, of "''tarfs.toc''" h']
  by (auto simp: valid_key_def temp_prefix_def has_prefix_iff)

section \<open>Writing an index file\<close>

lemma write_index_cases:
  assumes "write_index srt k out err s = (e, s')"
  shows "cache_write srt (fst s) k out (map_option OSError err) (snd s) = ((e, fst s'), snd s')"
  using assms by (auto simp: write_index_def split: prod.splits)

lemma write_index_inv:
  assumes "write_index srt k out err s = (e, s')"
  shows "disk_inv dir s \<Longrightarrow> disk_inv dir s'" "ca_dir (fst s') = ca_dir (fst s)" "no_faults (snd s) \<Longrightarrow> no_faults (snd s')"
  using cache_write_env [OF write_index_cases [OF assms]]
  by (auto simp: disk_inv_def plain_rand_def disk_env_def no_faults_def)

text \<open>After any write, a valid key holds what it held or, when it names the same file and the
  content was produced without an error, the content.\<close>

lemma write_index_lookup:
  assumes "disk_inv dir s" "valid_key dir k'" "write_index srt k out err s = (e, s')" "disk_lookup s' k' = Some v"
  shows "disk_lookup s k' = Some v \<or> path_join [dir, k'] = path_join [dir, k] \<and> v = out \<and> err = None"
proof (cases err)
  case None
  have "disk_store srt k out s = s'"
    using write_index_cases [OF assms(3)] None by (simp add: disk_store_def)
  then show ?thesis using disk_lookup_store [OF assms(1,2), of srt k out] assms(4) None by auto
next
  case (Some x)
  let ?p = "path_join [dir, k]" and ?q = "path_join [dir, k']"
  have dir: "cache_path (fst s) k = ?p" "cache_path (fst s) k' = ?q" "cache_path (fst s') k' = ?q"
    using assms(1) write_index_inv(2) [OF assms(3)] by (simp_all add: disk_inv_def cache_path_def)
  have q: "?q \<notin> temp_names (snd s) ?p"
    using valid_key_temp [of dir "fst s" "snd s"] assms(1,2) by simp
  from write_index_cases [OF assms(3)] have "dk_file (snd s') ?q = dk_file (snd s) ?q"
  proof (cases rule: cache_write_cases)
    case (failed old d1 tmp e1 d2)
    have d1: "dk_file d1 = dk_file (snd s)" "temp_names d1 ?p = temp_names (snd s) ?p"
      using old_size_effect [OF failed(1)] by (simp_all add: dk_file_def temp_names_def same_env_def)
    then show ?thesis
      using write_files_error [OF failed(2) [unfolded dir(1)], of ?q] q failed(5) by simp
  next
    case (stored old d1 tmp d2 d3)
    from stored(2) show ?thesis using Some by (cases rule: store_file_cases) simp_all
  qed
  then show ?thesis using assms(4) dir by (simp add: disk_lookup_def)
qed

text \<open>A write keeps any property of the contents of keys that the content has under its key.\<close>

lemma write_index_coherent:
  assumes "disk_inv dir s" "disk.coherent dir P s" "disk.addr_only dir P" "write_index srt k out err s = (e, s')"
    and "err = None \<Longrightarrow> P k out"
  shows "disk_inv dir s' \<and> disk.coherent dir P s'"
proof -
  have "P k' v" if k': "valid_key dir k'" "disk_lookup s' k' = Some v" for k' v
    using write_index_lookup [OF assms(1) k'(1) assms(4) k'(2)] disk.coherentD [OF assms(2) k'(1)] assms(3,5) k'(1)
    by (auto simp: disk.addr_only_def)
  then show ?thesis
    using write_index_inv(1) [OF assms(4,1)] by (simp add: disk.coherent_def)
qed

text \<open>A successful write to an unbounded cache.\<close>

lemma write_index_stored:
  assumes "disk_inv dir s" "valid_key dir k" "write_index srt k out err s = (None, s')" "ca_cap (fst s) \<le> 0"
  shows "disk_lookup s' k = Some out" "fst s' = fst s"
    "valid_key dir k' \<Longrightarrow> path_join [dir, k'] \<noteq> path_join [dir, k] \<Longrightarrow> disk_lookup s' k' = disk_lookup s k'"
proof -
  let ?p = "path_join [dir, k]"
  have dir: "cache_path (fst s) j = path_join [dir, j]" "cache_path (fst s') j = path_join [dir, j]" for j
    using assms(1) write_index_inv(2) [OF assms(3)] by (simp_all add: disk_inv_def cache_path_def)
  have temp: "path_join [dir, j] \<notin> temp_names (snd s) ?p" if "valid_key dir j" for j
    using valid_key_temp [of dir "fst s" "snd s" j k] assms(1) that by simp
  note w = write_index_cases [OF assms(3)]
  note atomic = cache_write_atomic [OF w dir(1) [symmetric] temp [OF assms(2)]]
  show "disk_lookup s' k = Some out"
    using atomic assms(4) by (simp add: disk_lookup_def dir)
  show "valid_key dir k' \<Longrightarrow> path_join [dir, k'] \<noteq> ?p \<Longrightarrow> disk_lookup s' k' = disk_lookup s k'"
    using atomic temp [of k'] assms(4) by (simp add: disk_lookup_def dir)
  from w show "fst s' = fst s"
    by (cases rule: cache_write_cases) (use assms(4) account_file_unbounded in auto)
qed

section \<open>Loading\<close>

lemma cache_has_effect:
  "cache_has c k d = (b, d') \<Longrightarrow> dk_files d' = dk_files d \<and> dk_dirs d' = dk_dirs d \<and> same_env d d'"
  using os_stat_effect [of "cache_path c k" d] by (auto simp: cache_has_def split: prod.splits sum.splits)

lemma cache_has_lookup:
  "cache_has c k d = (b, d') \<Longrightarrow> disk_lookup (c', d') = disk_lookup (c', d) \<and> (no_faults d \<longrightarrow> no_faults d')"
  using cache_has_effect [of c k d b d'] no_faults_env by (auto simp: disk_lookup_def dk_file_def fun_eq_iff)

lemma cache_has_present:
  "no_faults d \<Longrightarrow> disk_lookup (c, d) k \<noteq> None \<Longrightarrow> \<exists>d'. cache_has c k d = (True, d')"
  using os_stat_file [of d "cache_path c k"]
  by (fastforce simp: cache_has_def disk_lookup_def no_faults_def split: prod.splits sum.splits)

lemma cache_open_lookup:
  "cache_open c k d = (r, d') \<Longrightarrow> disk_lookup (c', d') = disk_lookup (c', d) \<and> same_env d d'"
  using cache_open_effect(1,2) [of c k d r d'] by (auto simp: disk_lookup_def fun_eq_iff)

lemma cache_open_present:
  "no_faults d \<Longrightarrow> disk_lookup (c, d) k = Some b \<Longrightarrow> \<exists>d'. cache_open c k d = (Inr (FileHandle b), d')"
  by (auto simp: disk_lookup_def cache_open_def os_open_def os_call_def no_faults_def Let_def)

lemma has_indexes_effect:
  assumes "has_indexes c gkey tkey d = (b, d')"
  shows "disk_lookup (c', d') = disk_lookup (c', d)" "same_env d d'" "dk_dirs d' = dk_dirs d"
proof -
  obtain b1 d1 where h: "cache_has c gkey d = (b1, d1)" by force
  have "d' = d1 \<or> cache_has c tkey d1 = (b, d')"
    using assms h by (cases b1) (simp_all add: has_indexes_def)
  then have "dk_files d' = dk_files d" "dk_dirs d' = dk_dirs d" "same_env d d'"
    using cache_has_effect [OF h] cache_has_effect [of c tkey d1 b d'] same_env_trans by auto
  then show "disk_lookup (c', d') = disk_lookup (c', d)" "same_env d d'" "dk_dirs d' = dk_dirs d"
    by (simp_all add: disk_lookup_def dk_file_def fun_eq_iff)
qed

lemma has_indexes_files: "has_indexes c gkey tkey d = (b, d') \<Longrightarrow> dk_file d' = dk_file d"
  using cache_has_effect [of c gkey d] cache_has_effect [of c tkey]
  by (fastforce simp: has_indexes_def dk_file_def split: prod.splits bool.splits)

lemma cache_open_dirs: "cache_open c k d = (r, d') \<Longrightarrow> dk_dirs d' = dk_dirs d"
  by (auto simp: cache_open_def os_open_def os_chtimes_def os_call_def Let_def
      split: prod.splits sum.splits option.splits if_splits)

lemma read_all_effect:
  assumes "read_all c k d = (r, d')"
  shows "disk_lookup (c', d') = disk_lookup (c', d)" "same_env d d'" "r = Inr b \<Longrightarrow> disk_lookup (c, d) k = Some b"
proof -
  obtain q d1 where o: "cache_open c k d = (q, d1)" by force
  note opened = cache_open_lookup [OF o] cache_open_effect(3) [OF o]
  have "disk_lookup (c', d') = disk_lookup (c', d) \<and> same_env d d' \<and> (r = Inr b \<longrightarrow> disk_lookup (c, d) k = Some b)" for c' b
  proof (cases q)
    case (Inl e)
    then show ?thesis using assms o opened by (auto simp: read_all_def)
  next
    case (Inr h)
    then have rd: "os_read h d1 = (r, d')" using assms o by (simp add: read_all_def)
    note e = os_read_effect [OF rd]
    have "disk_lookup (c', d') = disk_lookup (c', d)"
      using conjunct1 [OF opened(1) [of c']] e(1) by (simp add: disk_lookup_def dk_file_def fun_eq_iff)
    then show ?thesis using opened(1) [of c'] opened(2) e(3,4) Inr same_env_trans by (auto simp: disk_lookup_def)
  qed
  then show "disk_lookup (c', d') = disk_lookup (c', d)" "same_env d d'" "r = Inr b \<Longrightarrow> disk_lookup (c, d) k = Some b"
    by blast+
qed

lemma read_all_present:
  assumes "no_faults d" "disk_lookup (c, d) k = Some b"
  shows "\<exists>d'. read_all c k d = (Inr b, d')"
proof -
  obtain d1 where o: "cache_open c k d = (Inr (FileHandle b), d1)" using cache_open_present [OF assms] by blast
  then have "no_faults d1" using cache_open_lookup [OF o] no_faults_env assms(1) by blast
  then show ?thesis using os_read_ok [of d1 b] o by (auto simp: read_all_def no_faults_def)
qed

text \<open>Loading changes no content.\<close>

lemma load_layer_lookup:
  assumes "load_layer tz c rra sz gkey tkey d w = (r, d', w')"
  shows "disk_lookup (c', d') = disk_lookup (c', d)" "same_env d d'"
proof -
  obtain b d1 where h: "has_indexes c gkey tkey d = (b, d1)" by force
  note h1 = has_indexes_effect [OF h]
  obtain r1 d2 where o1: "cache_open c gkey d1 = (r1, d2)" by force
  obtain r2 d3 where o2: "read_all c tkey d2 = (r2, d3)" by force
  have "d' = d1 \<or> d' = d2 \<or> d' = d3"
    using assms h o1 o2
    by (auto simp: load_layer_def load_indexes_def split: bool.splits sum.splits prod.splits)
  then show "disk_lookup (c', d') = disk_lookup (c', d)" "same_env d d'"
    using h1 cache_open_lookup [OF o1] read_all_effect(1,2) [OF o2] same_env_trans by metis+
qed

text \<open>Loading two files that are there, on a disk that does not fail.\<close>

lemma load_present:
  assumes "no_faults d" "disk_lookup (c, d) gkey = Some g" "disk_lookup (c, d) tkey = Some t"
    and "tz_decode tz rra sz (FileHandle g) w = (Inr z, w1)" "tz_decode_toc tz t = Inr es" "tz_tarfs tz z t = Inr fsys"
  shows "\<exists>d'. load_layer tz c rra sz gkey tkey d w = (Inr (Some (fsys, es)), d', w1)"
proof -
  obtain d1 where h1: "cache_has c gkey d = (True, d1)" using cache_has_present assms(1,2) by blast
  have d1: "disk_lookup (c, d1) = disk_lookup (c, d)" "no_faults d1"
    using cache_has_lookup [OF h1, of c] assms(1) by simp_all
  then obtain d2 where h2: "cache_has c tkey d1 = (True, d2)" using cache_has_present assms(3) by (metis option.distinct(1))
  have d2: "disk_lookup (c, d2) = disk_lookup (c, d)" "no_faults d2"
    using cache_has_lookup [OF h2, of c] d1 by simp_all
  obtain d3 where o1: "cache_open c gkey d2 = (Inr (FileHandle g), d3)"
    using cache_open_present [OF d2(2)] d2(1) assms(2) by metis
  have d3: "disk_lookup (c, d3) = disk_lookup (c, d)" "no_faults d3"
    using cache_open_lookup [OF o1] d2 no_faults_env by auto
  obtain d4 where o2: "read_all c tkey d3 = (Inr t, d4)"
    using read_all_present [OF d3(2)] d3(1) assms(3) by metis
  have "has_indexes c gkey tkey d = (True, d2)" using h1 h2 by (simp add: has_indexes_def)
  then show ?thesis
    using o1 o2 assms(4-6) by (simp add: load_layer_def load_indexes_def)
qed

section \<open>Building\<close>

text \<open>The steps of a build that succeeds.\<close>

lemma build_layer_ok:
  assumes "build_layer tz srt h sz rra gkey tkey s w = (Inr ly, s2, w2)"
  obtains z0 w1 es z t s1 where "tz_new_reader tz rra sz w = (Inr z0, w1)" "tz_index tz z0 w1 = (Inr es, z, w2)"
    "tz_encode_toc tz es = Inr t" "write_index srt tkey t None s = (None, s1)"
    "write_index srt gkey (fst (tz_encode tz z)) (snd (tz_encode tz z)) s1 = (None, s2)"
    "tz_tarfs tz z t = Inr (ly_fs ly)" "ly = \<lparr>ly_digest = h, ly_size = sz, ly_fs = ly_fs ly, ly_entries = es\<rparr>"
  using assms
  by (fastforce simp: build_layer_def split: prod.splits sum.splits option.splits)

lemma open_layer_step:
  assumes "tz_digest tz l = Inr h" "tz_size tz l = Inr sz"
  shows "open_layer tz srt ix url l d w =
    (case load_layer tz (ix_cache ix) (layer_reader tz (ix_chunks ix) url h sz) sz (gsip_key h) (toc_key h) d w of
       (Inl e, d1, w1) \<Rightarrow> (Inl e, (ix, d1), w1)
     | (Inr (Some (fsys, es)), d1, w1) \<Rightarrow>
         (Inr \<lparr>ly_digest = h, ly_size = sz, ly_fs = fsys, ly_entries = es\<rparr>, (ix, d1), w1)
     | (Inr None, d1, w1) \<Rightarrow>
         (case build_layer tz srt h sz (layer_reader tz (ix_chunks ix) url h sz) (gsip_key h) (toc_key h)
                 (ix_cache ix, d1) w1 of
            (r, (c, d2), w2) \<Rightarrow> (r, (ix\<lparr>ix_cache := c\<rparr>, d2), w2)))"
  using assms by (simp add: open_layer_def Let_def)

section \<open>Opening again\<close>

text \<open>The documented behaviour of the two codecs: what they encode, they decode to the same value,
  a \<open>gsip\<close> index with the reader it was made with and without a request.\<close>

definition toc_codec :: "('l, 'z, 'f, 'w) targz \<Rightarrow> bool" where
  "toc_codec tz \<longleftrightarrow> (\<forall>es t. tz_encode_toc tz es = Inr t \<longrightarrow> tz_decode_toc tz t = Inr es)"

definition gsip_codec :: "('l, 'z, 'f, 'w) targz \<Rightarrow> bool" where
  "gsip_codec tz \<longleftrightarrow> (\<forall>r sz w z0 w1 es z w2 g w'. tz_new_reader tz r sz w = (Inr z0, w1) \<longrightarrow>
     tz_index tz z0 w1 = (Inr es, z, w2) \<longrightarrow> tz_encode tz z = (g, None) \<longrightarrow>
     tz_decode tz r sz (FileHandle g) w' = (Inr z, w'))"

text \<open>A layer that is ready: its two files are there and decode to it without a request.\<close>

definition ready :: "('l, 'z, 'f, 'w) targz \<Rightarrow> indexer \<Rightarrow> disk \<Rightarrow> string \<Rightarrow> 'l \<Rightarrow> 'f layer \<Rightarrow> bool" where
  "ready tz ix d url l ly \<longleftrightarrow> (\<exists>h sz g t z. tz_digest tz l = Inr h \<and> tz_size tz l = Inr sz \<and>
     disk_lookup (ix_cache ix, d) (gsip_key h) = Some g \<and> disk_lookup (ix_cache ix, d) (toc_key h) = Some t \<and>
     (\<forall>w. tz_decode tz (layer_reader tz (ix_chunks ix) url h sz) sz (FileHandle g) w = (Inr z, w)) \<and>
     tz_decode_toc tz t = Inr (ly_entries ly) \<and> tz_tarfs tz z t = Inr (ly_fs ly) \<and> ly_digest ly = h \<and> ly_size ly = sz)"

lemma ready_cong:
  "ready tz ix d url l ly \<Longrightarrow> tz_digest tz l = Inr h \<Longrightarrow>
    disk_lookup (ix_cache ix, d') (gsip_key h) = disk_lookup (ix_cache ix, d) (gsip_key h) \<Longrightarrow>
    disk_lookup (ix_cache ix, d') (toc_key h) = disk_lookup (ix_cache ix, d) (toc_key h) \<Longrightarrow> ready tz ix d' url l ly"
  by (auto simp: ready_def)

lemma ready_open:
  assumes "ready tz ix d url l ly" "no_faults d"
  shows "\<exists>d'. open_layer tz srt ix url l d w = (Inr ly, (ix, d'), w) \<and> no_faults d' \<and>
    disk_lookup (ix_cache ix, d') = disk_lookup (ix_cache ix, d)"
proof -
  obtain h sz g t z where r: "tz_digest tz l = Inr h" "tz_size tz l = Inr sz"
      "disk_lookup (ix_cache ix, d) (gsip_key h) = Some g" "disk_lookup (ix_cache ix, d) (toc_key h) = Some t"
      "tz_decode tz (layer_reader tz (ix_chunks ix) url h sz) sz (FileHandle g) w = (Inr z, w)"
      "tz_decode_toc tz t = Inr (ly_entries ly)" "tz_tarfs tz z t = Inr (ly_fs ly)" "ly_digest ly = h" "ly_size ly = sz"
    using assms(1) unfolding ready_def by blast
  obtain d' where ld: "load_layer tz (ix_cache ix) (layer_reader tz (ix_chunks ix) url h sz) sz (gsip_key h) (toc_key h) d w =
      (Inr (Some (ly_fs ly, ly_entries ly)), d', w)"
    using load_present [OF assms(2) r(3-7)] by blast
  have "\<lparr>ly_digest = h, ly_size = sz, ly_fs = ly_fs ly, ly_entries = ly_entries ly\<rparr> = ly" using r(8,9) by simp
  then have "open_layer tz srt ix url l d w = (Inr ly, (ix, d'), w)"
    unfolding open_layer_step [OF r(1,2)] ld by simp
  then show ?thesis
    using load_layer_lookup [OF ld] no_faults_env assms(2) by blast
qed

text \<open>What a successful build leaves in an unbounded cache: the layer is ready, and no file of
  another digest has changed.\<close>

lemma build_ready:
  assumes "disk_inv dir (ix_cache ix, d)" "ca_cap (ix_cache ix) \<le> 0" "toc_codec tz" "gsip_codec tz"
    and "tz_digest tz l = Inr h" "tz_size tz l = Inr sz" "rra = layer_reader tz (ix_chunks ix) url h sz"
    and "build_layer tz srt h sz rra (gsip_key h) (toc_key h) (ix_cache ix, d) w = (Inr ly, (c, d1), w1)"
  shows "c = ix_cache ix" "ready tz ix d1 url l ly" "disk_inv dir (ix_cache ix, d1)" "no_faults d \<Longrightarrow> no_faults d1"
    "valid_key dir k \<Longrightarrow> path_join [dir, k] \<noteq> path_join [dir, gsip_key h] \<Longrightarrow>
       path_join [dir, k] \<noteq> path_join [dir, toc_key h] \<Longrightarrow>
       disk_lookup (ix_cache ix, d1) k = disk_lookup (ix_cache ix, d) k"
proof -
  let ?c = "ix_cache ix"
  have dir: "has_prefix dir ''/''" using assms(1) by (simp add: disk_inv_def)
  note keys = valid_index_key [OF dir, of h]
  from assms(8) obtain z0 v1 es z t s1 where b: "tz_new_reader tz rra sz w = (Inr z0, v1)"
      "tz_index tz z0 v1 = (Inr es, z, w1)" "tz_encode_toc tz es = Inr t"
      "write_index srt (toc_key h) t None (?c, d) = (None, s1)"
      "write_index srt (gsip_key h) (fst (tz_encode tz z)) (snd (tz_encode tz z)) s1 = (None, (c, d1))"
      "tz_tarfs tz z t = Inr (ly_fs ly)" "ly = \<lparr>ly_digest = h, ly_size = sz, ly_fs = ly_fs ly, ly_entries = es\<rparr>"
    by (rule build_layer_ok)
  note toc = write_index_stored [OF assms(1) keys(2) b(4)]
  have s1: "fst s1 = ?c" "disk_inv dir s1" "ca_cap (fst s1) \<le> 0"
    using toc(2) write_index_inv(1) [OF b(4) assms(1)] assms(2) by simp_all
  note gsip = write_index_stored [OF s1(2) keys(1) b(5) s1(3)]
  show c: "c = ?c" using gsip(2) s1(1) by simp
  have noerr: "snd (tz_encode tz z) = None"
    using cache_write_atomic [OF write_index_cases [OF b(5)] refl]
      valid_key_temp [of dir "fst s1" "snd s1", OF _ keys(1)] s1(2)
    by (simp add: disk_inv_def cache_path_def)
  have files: "disk_lookup (?c, d1) (gsip_key h) = Some (fst (tz_encode tz z))" "disk_lookup (?c, d1) (toc_key h) = Some t"
    using gsip(1) gsip(3) [OF keys(2) keys(3) [symmetric]] toc(1) assms(2) c by auto
  have dec: "tz_decode tz rra sz (FileHandle (fst (tz_encode tz z))) w' = (Inr z, w')" "tz_decode_toc tz t = Inr es" for w'
    using assms(3,4) b(1-3) noerr unfolding gsip_codec_def toc_codec_def by (metis prod.collapse)+
  have ly: "ly_entries ly = es" "ly_digest ly = h" "ly_size ly = sz" by (subst b(7), simp)+
  show "ready tz ix d1 url l ly"
    unfolding ready_def using assms(5-7) files dec b(6) ly by auto
  show "disk_inv dir (ix_cache ix, d1)" using write_index_inv(1) [OF b(5) s1(2)] c by simp
  show "no_faults d \<Longrightarrow> no_faults d1" using write_index_inv(3) [OF b(4)] write_index_inv(3) [OF b(5)] by simp
  show "valid_key dir k \<Longrightarrow> path_join [dir, k] \<noteq> path_join [dir, gsip_key h] \<Longrightarrow>
      path_join [dir, k] \<noteq> path_join [dir, toc_key h] \<Longrightarrow> disk_lookup (?c, d1) k = disk_lookup (?c, d) k"
    using gsip(3) [of k] toc(3) [of k] assms(2) c by auto
qed

text \<open>A layer is indexed once: after an open that had to build the index of a layer, in an
  unbounded cache, opening it again returns the same layer, from the two files alone: nothing is
  requested from the registry and no file's content changes.\<close>

theorem index_reopen:
  assumes "disk_inv dir (ix_cache ix, d)" "ca_cap (ix_cache ix) \<le> 0" "no_faults d"
    and "tz_digest tz l = Inr h" "toc_codec tz" "gsip_codec tz"
    and "\<not> fst (cache_has (ix_cache ix) (gsip_key h) d)"
    and "open_layer tz srt ix url l d w = (Inr ly, (ix1, d1), w1)"
  shows "ix1 = ix \<and> (\<exists>d2. open_layer tz srt ix1 url l d1 w' = (Inr ly, (ix1, d2), w') \<and>
    (\<forall>k. disk_lookup (ix_cache ix, d2) k = disk_lookup (ix_cache ix, d1) k))"
proof -
  obtain d0 where miss: "cache_has (ix_cache ix) (gsip_key h) d = (False, d0)"
    using assms(7) by (metis (full_types) prod.collapse)
  have d0: "disk_inv dir (ix_cache ix, d0)" "no_faults d0"
    using cache_has_effect [OF miss] assms(1,3) no_faults_env
    by (auto simp: disk_inv_def plain_rand_def same_env_def)
  obtain sz where sz: "tz_size tz l = Inr sz"
    using assms(4,8) by (cases "tz_size tz l") (simp_all add: open_layer_def)
  have "load_layer tz (ix_cache ix) (layer_reader tz (ix_chunks ix) url h sz) sz (gsip_key h) (toc_key h) d w =
      (Inr None, d0, w)"
    using miss by (simp add: load_layer_def has_indexes_def)
  then obtain c2 where built: "build_layer tz srt h sz (layer_reader tz (ix_chunks ix) url h sz) (gsip_key h) (toc_key h)
      (ix_cache ix, d0) w = (Inr ly, (c2, d1), w1)" and ix1: "ix1 = ix\<lparr>ix_cache := c2\<rparr>"
    using assms(8) unfolding open_layer_step [OF assms(4) sz] by (auto split: prod.splits)
  note r = build_ready [OF d0(1) assms(2,5,6,4) sz refl built]
  then have "ix1 = ix" using ix1 by simp
  then show ?thesis using ready_open [OF r(2) r(4) [OF d0(2)], of srt w'] by auto
qed

section \<open>Genuine indexes\<close>

text \<open>The result of scanning a blob with a given digest at a blob URL of that digest: the entries, and
  the reader with its checkpoints; and what index files of that digest hold.\<close>

definition scanned :: "('l, 'z, 'f, 'w) targz \<Rightarrow> hash \<Rightarrow> tarfs_entry list \<Rightarrow> 'z \<Rightarrow> bool" where
  "scanned tz h es z \<longleftrightarrow> (\<exists>l ref chunks sz w z0 w1 w2. tz_digest tz l = Inr h \<and> tz_size tz l = Inr sz \<and>
     tz_new_reader tz (layer_reader tz chunks (blob_url ref h) h sz) sz w = (Inr z0, w1) \<and>
     tz_index tz z0 w1 = (Inr es, z, w2))"

lemma scannedI:
  "tz_digest tz l = Inr h \<Longrightarrow> tz_size tz l = Inr sz \<Longrightarrow>
    tz_new_reader tz (layer_reader tz chunks (blob_url ref h) h sz) sz w = (Inr z0, w1) \<Longrightarrow>
    tz_index tz z0 w1 = (Inr es, z, w2) \<Longrightarrow> scanned tz h es z"
  unfolding scanned_def by blast

text \<open>What the packages document.  A registry serves blobs by digest: ranges that are read at the blob
  endpoint of a repository, \<open>/v2/<name>/blobs/<digest>\<close>, are ranges of the content with that digest, unless the read
  fails, and the size of a layer is that of its content.  A scan of a reader that delivers the ranges of some content, or
  of one through the chunk cache, whose chunks are windows of that content, lists the entries of
  the content's archive, unless it fails.\<close>

definition serves_blobs :: "('l, 'z, 'f, 'w) targz \<Rightarrow> (hash \<Rightarrow> bytes) \<Rightarrow> bool" where
  "serves_blobs tz blobs \<longleftrightarrow>
     (\<forall>scheme host name h. hash_wf h \<longrightarrow>
        honest (tz_ranger tz (scheme @ ''://'' @ host @ ''/v2/'' @ name @ ''/blobs/'' @ hash_string h)) (blobs h)) \<and>
     (\<forall>l h sz. tz_digest tz l = Inr h \<longrightarrow> tz_size tz l = Inr sz \<longrightarrow> sz = int (length (blobs h)))"

fun reads_blob :: "(hash \<Rightarrow> bytes) \<Rightarrow> hash \<Rightarrow> 'w index_reader \<Rightarrow> bool" where
  "reads_blob blobs h (Ranged rd) = honest rd (blobs h)"
| "reads_blob blobs h (Chunked v) = (lv_layer v = h \<and> view_ok blobs v)"

definition scans_archive :: "('l, 'z, 'f, 'w) targz \<Rightarrow> (hash \<Rightarrow> bytes) \<Rightarrow> (bytes \<Rightarrow> tarfs_entry list) \<Rightarrow> bool" where
  "scans_archive tz blobs archive \<longleftrightarrow> (\<forall>h r w z0 w1 es z w2. reads_blob blobs h r \<longrightarrow>
     tz_new_reader tz r (int (length (blobs h))) w = (Inr z0, w1) \<longrightarrow> tz_index tz z0 w1 = (Inr es, z, w2) \<longrightarrow>
     es = archive (blobs h))"

lemma scanned_archive:
  assumes "serves_blobs tz blobs" "scans_archive tz blobs archive" "hash_wf h" "scanned tz h es z"
  shows "es = archive (blobs h)"
proof -
  obtain l ref chunks sz w z0 w1 w2 where s: "tz_digest tz l = Inr h" "tz_size tz l = Inr sz"
    "tz_new_reader tz (layer_reader tz chunks (blob_url ref h) h sz) sz w = (Inr z0, w1)"
    "tz_index tz z0 w1 = (Inr es, z, w2)"
    using assms(4) unfolding scanned_def by blast
  have sz: "sz = int (length (blobs h))" and rd: "honest (tz_ranger tz (blob_url ref h)) (blobs h)"
    using assms(1,3) s(1,2) unfolding serves_blobs_def blob_url_def Let_def by blast+
  have "reads_blob blobs h (layer_reader tz chunks (blob_url ref h) h sz)"
    using rd sz by (simp add: layer_reader_def for_layer_def view_ok_def)
  then show ?thesis using assms(2) s(3,4) unfolding sz scans_archive_def by blast
qed

definition gsip_file :: "('l, 'z, 'f, 'w) targz \<Rightarrow> hash \<Rightarrow> bytes \<Rightarrow> bool" where
  "gsip_file tz h g \<longleftrightarrow> (\<exists>es z. scanned tz h es z \<and> tz_encode tz z = (g, None))"

definition toc_file :: "('l, 'z, 'f, 'w) targz \<Rightarrow> hash \<Rightarrow> bytes \<Rightarrow> bool" where
  "toc_file tz h t \<longleftrightarrow> (\<exists>es z. scanned tz h es z \<and> tz_encode_toc tz es = Inr t)"

text \<open>What the cache may hold under a key that names the file of an index.\<close>

definition index_genuine :: "('l, 'z, 'f, 'w) targz \<Rightarrow> path \<Rightarrow> string \<Rightarrow> bytes \<Rightarrow> bool" where
  "index_genuine tz dir k v \<longleftrightarrow> (\<forall>h. hash_wf h \<longrightarrow>
     (path_join [dir, k] = path_join [dir, gsip_key h] \<longrightarrow> gsip_file tz h v) \<and>
     (path_join [dir, k] = path_join [dir, toc_key h] \<longrightarrow> toc_file tz h v))"

definition index_ok :: "('l, 'z, 'f, 'w) targz \<Rightarrow> path \<Rightarrow> cache \<times> disk \<Rightarrow> bool" where
  "index_ok tz dir s \<longleftrightarrow> disk_inv dir s \<and> disk.coherent dir (index_genuine tz dir) s"

lemma index_okD:
  assumes "index_ok tz dir s" "hash_wf h"
  shows "disk_lookup s (gsip_key h) = Some g \<Longrightarrow> gsip_file tz h g" "disk_lookup s (toc_key h) = Some t \<Longrightarrow> toc_file tz h t"
  using assms valid_index_key [of dir h] disk.coherentD [of dir "index_genuine tz dir" s]
  by (auto simp: index_ok_def disk_inv_def index_genuine_def)

lemma index_genuine_keys:
  assumes "has_prefix dir ''/''" "hash_wf h"
  shows "gsip_file tz h v \<Longrightarrow> index_genuine tz dir (gsip_key h) v" "toc_file tz h v \<Longrightarrow> index_genuine tz dir (toc_key h) v"
  using index_path_inj [OF assms(1,2) _ index_names(1,1)] index_path_inj [OF assms(1,2) _ index_names(2,2)]
    valid_index_key(3) [OF assms(1)]
  by (auto simp: index_genuine_def) metis+

lemma index_genuine_addr: "disk.addr_only dir (index_genuine tz dir)"
  by (simp add: disk.addr_only_def index_genuine_def)

lemma index_ok_write:
  assumes "index_ok tz dir s" "write_index srt k out err s = (e, s')" "err = None \<Longrightarrow> index_genuine tz dir k out"
  shows "index_ok tz dir s'"
  using write_index_coherent [OF _ _ index_genuine_addr assms(2,3)] assms(1) by (simp add: index_ok_def)

lemma index_ok_cong:
  "index_ok tz dir (c, d) \<Longrightarrow> disk_lookup (c, d') = disk_lookup (c, d) \<Longrightarrow> same_env d d' \<Longrightarrow> index_ok tz dir (c, d')"
  by (simp add: index_ok_def disk.coherent_def disk_inv_def plain_rand_def same_env_def)

lemma build_layer_index_ok:
  assumes "index_ok tz dir s" "hash_wf h" "tz_digest tz l = Inr h" "tz_size tz l = Inr sz"
    and "rra = layer_reader tz chunks (blob_url ref h) h sz"
    and "build_layer tz srt h sz rra (gsip_key h) (toc_key h) s w = (r, s', w')"
  shows "index_ok tz dir s'" "r = Inr ly \<Longrightarrow> ly_digest ly = h \<and> (\<exists>z. scanned tz h (ly_entries ly) z)"
proof -
  have dir: "has_prefix dir ''/''" using assms(1) by (simp add: index_ok_def disk_inv_def)
  note genuine = index_genuine_keys [OF dir assms(2), of tz]
  show "index_ok tz dir s'"
  proof (cases "tz_new_reader tz rra sz w")
    case zr: (Pair zr w1)
    obtain er z w2 where ix: "tz_index tz (projr zr) w1 = (er, z, w2)" by (metis surj_pair)
    show ?thesis
    proof (cases "\<exists>z0 es t. zr = Inr z0 \<and> er = Inr es \<and> tz_encode_toc tz es = Inr t")
      case False
      then have "s' = s"
        using assms(6) zr ix by (cases zr; cases er; cases "tz_encode_toc tz (projr er)") (auto simp: build_layer_def)
      then show ?thesis using assms(1) by simp
    next
      case True
      then obtain z0 es t where ok: "zr = Inr z0" "er = Inr es" "tz_encode_toc tz es = Inr t" by blast
      have scan: "scanned tz h es z" using scannedI [OF assms(3,4)] zr ix ok assms(5) by simp
      obtain e1 s1 where t: "write_index srt (toc_key h) t None s = (e1, s1)" by (metis surj_pair)
      obtain e2 s2 where g: "write_index srt (gsip_key h) (fst (tz_encode tz z)) (snd (tz_encode tz z)) s1 = (e2, s2)"
        by (metis surj_pair)
      have s1: "index_ok tz dir s1"
        using index_ok_write [OF assms(1) t] genuine(2) scan ok(3) by (auto simp: toc_file_def)
      have "index_ok tz dir s2"
        using index_ok_write [OF s1 g] genuine(1) scan unfolding gsip_file_def by (metis prod.collapse)
      moreover have "s' = s1 \<or> s' = s2"
        using assms(6) zr ix ok t g
        by (cases e1; cases e2; cases "tz_tarfs tz z t") (auto simp: build_layer_def)
      ultimately show ?thesis using s1 by auto
    qed
  qed
  assume "r = Inr ly"
  then have "build_layer tz srt h sz rra (gsip_key h) (toc_key h) s w = (Inr ly, s', w')" using assms(6) by simp
  then show "ly_digest ly = h \<and> (\<exists>z. scanned tz h (ly_entries ly) z)"
  proof (rule build_layer_ok)
    fix z0 v1 es za ta s1a
    assume b: "tz_new_reader tz rra sz w = (Inr z0, v1)" "tz_index tz z0 v1 = (Inr es, za, w')"
      "ly = \<lparr>ly_digest = h, ly_size = sz, ly_fs = ly_fs ly, ly_entries = es\<rparr>"
    have "scanned tz h es za" using scannedI [OF assms(3,4)] b(1,2) assms(5) by simp
    then show ?thesis using b(3) by (metis layer.select_convs(1,4))
  qed
qed

lemma load_layer_entries:
  assumes "load_layer tz c rra sz gkey tkey d w = (Inr (Some (fsys, es)), d', w')"
  shows "\<exists>t. disk_lookup (c, d) tkey = Some t \<and> tz_decode_toc tz t = Inr es"
proof -
  obtain b d1 where h: "has_indexes c gkey tkey d = (b, d1)" by force
  obtain r1 d2 where o1: "cache_open c gkey d1 = (r1, d2)" by force
  obtain r2 d3 where o2: "read_all c tkey d2 = (r2, d3)" by force
  have "\<exists>t. r2 = Inr t \<and> tz_decode_toc tz t = Inr es"
    using assms h o1 o2
    by (auto simp: load_layer_def load_indexes_def split: bool.splits sum.splits prod.splits if_splits)
  then obtain t where t: "r2 = Inr t" "tz_decode_toc tz t = Inr es" by blast
  have "disk_lookup (c, d2) tkey = Some t" using read_all_effect(3) [OF o2 t(1)] .
  then show ?thesis
    using t(2) cache_open_lookup [OF o1, of c] has_indexes_effect(1) [OF h, of c] by auto
qed

lemma open_layer_genuine:
  assumes "index_ok tz dir (ix_cache ix, d)" "tz_digest tz l = Inr h" "hash_wf h" "toc_codec tz"
    and "open_layer tz srt ix (blob_url ref h) l d w = (r, (ix1, d1), w1)"
  shows "index_ok tz dir (ix_cache ix1, d1) \<and>
    (\<forall>ly. r = Inr ly \<longrightarrow> ly_digest ly = h \<and> (\<exists>z. scanned tz h (ly_entries ly) z))"
proof (cases "tz_size tz l")
  case (Inl e)
  then show ?thesis using assms by (auto simp: open_layer_def)
next
  case (Inr sz)
  let ?rra = "layer_reader tz (ix_chunks ix) (blob_url ref h) h sz"
  note step = open_layer_step [OF assms(2) Inr]
  obtain q d0 v where ld: "load_layer tz (ix_cache ix) ?rra sz (gsip_key h) (toc_key h) d w = (q, d0, v)"
    by (metis surj_pair)
  have ok0: "index_ok tz dir (ix_cache ix, d0)"
    using index_ok_cong [OF assms(1)] load_layer_lookup [OF ld] by blast
  consider (err) e where "q = Inl e" | (miss) "q = Inr None" | (hit) fsys es where "q = Inr (Some (fsys, es))"
    by (metis old.sum.exhaust option.exhaust surj_pair)
  then show ?thesis
  proof cases
    case err
    then show ?thesis using assms(5) ok0 unfolding step ld by auto
  next
    case miss
    obtain r' c2 d2 v2 where b: "build_layer tz srt h sz ?rra (gsip_key h) (toc_key h) (ix_cache ix, d0) v =
        (r', (c2, d2), v2)" by (metis surj_pair)
    have res: "r = r'" "ix1 = ix\<lparr>ix_cache := c2\<rparr>" "d1 = d2" using assms(5) miss b unfolding step ld by simp_all
    show ?thesis
      using build_layer_index_ok [OF ok0 assms(3,2) Inr refl b] res by simp
  next
    case hit
    obtain t where t: "disk_lookup (ix_cache ix, d) (toc_key h) = Some t" "tz_decode_toc tz t = Inr es"
      using load_layer_entries [OF ld [unfolded hit]] by blast
    obtain es' z where "scanned tz h es' z" "tz_encode_toc tz es' = Inr t"
      using index_okD(2) [OF assms(1,3) t(1)] by (auto simp: toc_file_def)
    moreover from this have "es' = es" using assms(4) t(2) by (simp add: toc_codec_def)
    ultimately show ?thesis using assms(5) hit ok0 unfolding step ld by auto
  qed
qed

text \<open>What other clients of the cache rely on: opening a layer keeps any property of the contents of
  keys that every content has under the layer's two keys.\<close>

lemma build_layer_coherent:
  assumes "disk_inv dir s" "disk.coherent dir P s" "disk.addr_only dir P" "\<And>v. P gkey v" "\<And>v. P tkey v"
    and "build_layer tz srt h sz rra gkey tkey s w = (r, s', w')"
  shows "disk_inv dir s' \<and> disk.coherent dir P s'"
proof -
  obtain zr w1 where zr: "tz_new_reader tz rra sz w = (zr, w1)" by force
  obtain er z w2 where ix: "tz_index tz (projr zr) w1 = (er, z, w2)" by (metis surj_pair)
  obtain e1 s1 where t: "write_index srt tkey (projr (tz_encode_toc tz (projr er))) None s = (e1, s1)" by (metis surj_pair)
  obtain e2 s2 where g: "write_index srt gkey (fst (tz_encode tz z)) (snd (tz_encode tz z)) s1 = (e2, s2)" by (metis surj_pair)
  have s1: "disk_inv dir s1" "disk.coherent dir P s1"
    using write_index_coherent [OF assms(1-3) t] assms(5) by simp_all
  have s2: "disk_inv dir s2 \<and> disk.coherent dir P s2"
    using write_index_coherent [OF s1 assms(3) g] assms(4) by simp
  have "s' = s \<or> s' = s1 \<or> s' = s2"
    using assms(6) zr ix t g
    by (cases zr; cases er; cases "tz_encode_toc tz (projr er)"; cases e1; cases e2;
        cases "tz_tarfs tz z (projr (tz_encode_toc tz (projr er)))") (auto simp: build_layer_def)
  then show ?thesis using assms(1,2) s1 s2 by auto
qed

lemma open_layer_coherent:
  assumes "disk_inv dir (ix_cache ix, d)" "disk.coherent dir P (ix_cache ix, d)" "disk.addr_only dir P"
    and "\<And>h v. P (gsip_key h) v" "\<And>h v. P (toc_key h) v"
    and "open_layer tz srt ix url l d w = (r, (ix1, d1), w1)"
  shows "disk_inv dir (ix_cache ix1, d1) \<and> disk.coherent dir P (ix_cache ix1, d1) \<and> ix_chunks ix1 = ix_chunks ix"
proof (cases "\<exists>h sz. tz_digest tz l = Inr h \<and> tz_size tz l = Inr sz")
  case False
  then have "ix1 = ix" "d1 = d"
    using assms(6) by (cases "tz_digest tz l"; cases "tz_size tz l"; auto simp: open_layer_def)+
  then show ?thesis using assms(1,2) by simp
next
  case True
  then obtain h sz where hs: "tz_digest tz l = Inr h" "tz_size tz l = Inr sz" by blast
  let ?rra = "layer_reader tz (ix_chunks ix) url h sz"
  note step = open_layer_step [OF hs]
  obtain q d0 v where ld: "load_layer tz (ix_cache ix) ?rra sz (gsip_key h) (toc_key h) d w = (q, d0, v)"
    by (metis surj_pair)
  have c0: "disk_inv dir (ix_cache ix, d0)" "disk.coherent dir P (ix_cache ix, d0)"
    using assms(1,2) load_layer_lookup [OF ld]
    by (simp_all add: disk.coherent_def disk_inv_def plain_rand_def same_env_def)
  obtain r' c2 d2 v2 where b: "build_layer tz srt h sz ?rra (gsip_key h) (toc_key h) (ix_cache ix, d0) v =
      (r', (c2, d2), v2)" by (metis surj_pair)
  have "ix1 = ix \<and> d1 = d0 \<or> ix1 = ix\<lparr>ix_cache := c2\<rparr> \<and> d1 = d2"
    using assms(6) b unfolding step ld by (auto split: sum.splits option.splits prod.splits)
  then show ?thesis using c0 build_layer_coherent [OF c0 assms(3-5) b] by auto
qed

text \<open>The index files are genuine, whatever fails: if every index file in the cache is the
  complete encoding of a scan of the blob with the digest in its path, the same holds after
  opening any layer at the blob URL of its digest, under any pattern of failing calls and whatever the eviction removes; and a
  layer that is opened has the digest asked for and the entries of a scan of a layer with that
  digest.\<close>

theorem index_files_genuine:
  assumes "index_ok tz dir (ix_cache ix, d)" "tz_digest tz l = Inr h" "hash_wf h" "toc_codec tz"
    and "open_layer tz srt ix (blob_url ref h) l d w = (r, (ix1, d1), w1)"
  shows "index_ok tz dir (ix_cache ix1, d1) \<and>
    (\<forall>ly. r = Inr ly \<longrightarrow> ly_digest ly = h \<and> (\<exists>z. scanned tz h (ly_entries ly) z))"
  by (rule open_layer_genuine [OF assms])

section \<open>Loading genuine indexes\<close>

text \<open>Any reader of a layer can take up the checkpoints of any scan of a layer with that digest,
  and the entries of any such scan.\<close>

definition decodes :: "('l, 'z, 'f, 'w) targz \<Rightarrow> bool" where
  "decodes tz \<longleftrightarrow> toc_codec tz \<and> (\<forall>h g t r sz w. gsip_file tz h g \<longrightarrow> toc_file tz h t \<longrightarrow>
     (\<exists>z fsys. tz_decode tz r sz (FileHandle g) w = (Inr z, w) \<and> tz_tarfs tz z t = Inr fsys))"

lemma cache_has_absent:
  assumes "no_faults d" "disk_lookup (c, d) k = None" "cache_path c k \<notin> set (dk_dirs d)"
  shows "\<exists>d'. cache_has c k d = (False, d')"
  using assms by (auto simp: cache_has_def os_stat_def os_call_def no_faults_def disk_lookup_def)

text \<open>Loading genuine indexes is exact: on a disk that does not fail, looking for a layer's
  indexes returns no error and requests nothing; it finds the layer exactly when both of its
  files are there.\<close>

theorem index_load_exact:
  assumes "index_ok tz dir (c, d)" "hash_wf h" "decodes tz" "no_faults d"
    and "cache_path c (gsip_key h) \<notin> set (dk_dirs d)" "cache_path c (toc_key h) \<notin> set (dk_dirs d)"
    and "load_layer tz c rra sz (gsip_key h) (toc_key h) d w = (r, d', w')"
  shows "w' = w \<and> (\<exists>found. r = Inr found \<and>
    (found = None \<longleftrightarrow> disk_lookup (c, d) (gsip_key h) = None \<or> disk_lookup (c, d) (toc_key h) = None))"
proof (cases "disk_lookup (c, d) (gsip_key h)")
  case None
  then obtain d1 where "cache_has c (gsip_key h) d = (False, d1)" using cache_has_absent assms(4,5) by blast
  then show ?thesis using None assms(7) by (simp add: load_layer_def has_indexes_def)
next
  case g: (Some g)
  obtain d1 where h1: "cache_has c (gsip_key h) d = (True, d1)" using cache_has_present assms(4) g by (metis option.distinct(1))
  have d1: "disk_lookup (c, d1) = disk_lookup (c, d)" "no_faults d1" "dk_dirs d1 = dk_dirs d"
    using cache_has_lookup [OF h1, of c] cache_has_effect [OF h1] assms(4) by simp_all
  show ?thesis
  proof (cases "disk_lookup (c, d) (toc_key h)")
    case None
    then obtain d2 where "cache_has c (toc_key h) d1 = (False, d2)"
      using cache_has_absent [OF d1(2)] d1(1,3) assms(6) by metis
    then show ?thesis using None h1 assms(7) by (simp add: load_layer_def has_indexes_def)
  next
    case t: (Some t)
    note files = index_okD [OF assms(1,2)]
    obtain z fsys where dec: "tz_decode tz rra sz (FileHandle g) w = (Inr z, w)" "tz_tarfs tz z t = Inr fsys"
      using assms(3) files(1) [OF g] files(2) [OF t] unfolding decodes_def by meson
    obtain es where es: "tz_decode_toc tz t = Inr es"
      using assms(3) files(2) [OF t] by (auto simp: decodes_def toc_codec_def toc_file_def)
    show ?thesis using load_present [OF assms(4) g t dec(1) es dec(2)] assms(7) g t by auto
  qed
qed

lemma os_remove_present: "no_faults d \<Longrightarrow> dk_file d p \<noteq> None \<Longrightarrow> \<exists>d'. os_remove p d = (Inr (), d')"
  using os_remove_ok [of d p] by (simp add: no_faults_def) (metis prod.collapse)

section \<open>An index that is evicted while it is loaded\<close>

text \<open>A lost entry list is an error instead of a miss: when another goroutine's eviction removes
  the file of the entry list after both files were seen and before it is read, loading fails
  with \<open>ErrNotExist\<close>, although the layer could be indexed again; when it removes the other file
  at that point, loading reports a miss.\<close>

theorem evicted_toc_is_error:
  assumes "disk_wf d" "no_faults d" "has_indexes c gkey tkey d = (True, d1)"
    and "disk_lookup (c, d) gkey = Some g" "disk_lookup (c, d) tkey = Some t" "cache_path c gkey \<noteq> cache_path c tkey"
    and "tz_decode tz rra sz (FileHandle g) w = (Inr z, w1)"
    and "os_remove (cache_path c tkey) d1 = (Inr u, d2)" "os_remove (cache_path c gkey) d1 = (Inr u', d3)"
  shows "fst (load_indexes tz c rra sz gkey tkey d2 w) = Inl (DiskError NotExist) \<and>
    fst (load_indexes tz c rra sz gkey tkey d3 w) = Inr None"
proof
  have d1: "dk_file d1 = dk_file d" "no_faults d1" "dk_dirs d1 = dk_dirs d"
    using has_indexes_effect [OF assms(3)] has_indexes_files [OF assms(3)] no_faults_env assms(2) by auto
  have miss: "\<exists>d'. cache_open c k e = (Inl NotExist, d')"
    if "no_faults e" "dk_file e (cache_path c k) = None" "cache_path c k \<notin> set (dk_dirs e)" for k e
    using that by (auto simp: cache_open_def os_open_def os_call_def no_faults_def)
  have present: "dk_file d1 (cache_path c gkey) \<noteq> None" "dk_file d1 (cache_path c tkey) \<noteq> None"
    "cache_path c gkey \<notin> set (dk_dirs d1)" "cache_path c tkey \<notin> set (dk_dirs d1)"
    using assms(4,5) disk_wf_parent [OF assms(1)] d1 by (auto simp: disk_lookup_def)
  note r2 = os_remove_effect(1,5) [OF assms(8)] and r3 = os_remove_effect(1,5) [OF assms(9)]
  have d2: "dk_file d2 = (dk_file d)(cache_path c tkey := None)" "dk_dirs d2 = dk_dirs d1" "no_faults d2"
    using r2(2) [OF present(2) refl] r2(1) d1 no_faults_env by (auto simp: dk_file_def disk_simps)
  have d3: "dk_file d3 = (dk_file d)(cache_path c gkey := None)" "dk_dirs d3 = dk_dirs d1" "no_faults d3"
    using r3(2) [OF present(1) refl] r3(1) d1 no_faults_env by (auto simp: dk_file_def disk_simps)
  have "disk_lookup (c, d2) gkey = Some g" using assms(4,6) d2(1) by (simp add: disk_lookup_def)
  then obtain d4 where o: "cache_open c gkey d2 = (Inr (FileHandle g), d4)" using cache_open_present d2(3) by blast
  have "disk_lookup (c, d2) tkey = None" using d2(1) by (simp add: disk_lookup_def)
  then have "disk_lookup (c, d4) tkey = None" using cache_open_lookup [OF o, of c] by simp
  then have d4: "dk_file d4 (cache_path c tkey) = None" "dk_dirs d4 = dk_dirs d2" "no_faults d4"
    using cache_open_dirs [OF o] conjunct2 [OF cache_open_lookup [OF o]] no_faults_env d2(3)
    by (simp add: disk_lookup_def, simp, blast)
  have "cache_path c tkey \<notin> set (dk_dirs d4)" using present(4) d2(2) d4(2) by simp
  then obtain d5 where "cache_open c tkey d4 = (Inl NotExist, d5)" using miss d4 by blast
  then show "fst (load_indexes tz c rra sz gkey tkey d2 w) = Inl (DiskError NotExist)"
    using o assms(7) by (simp add: load_indexes_def read_all_def)
  obtain d6 where "cache_open c gkey d3 = (Inl NotExist, d6)"
    using miss [OF d3(3), of gkey] d3(1,2) present(3) by auto
  then show "fst (load_indexes tz c rra sz gkey tkey d3 w) = Inr None"
    by (simp add: load_indexes_def)
qed

section \<open>Witnesses\<close>

definition index_hash :: hash where
  "index_hash = \<lparr>hash_algorithm = ''sha256'', hash_hex = ''ab''\<rparr>"

text \<open>The blob of a hash is its text, and so is what is behind a URL that ends in it; the archive in a blob
  holds one file of that name.\<close>

definition hash_archive :: "bytes \<Rightarrow> tarfs_entry list" where
  "hash_archive b = [\<lparr>filename = b, header = zero_header\<rparr>]"

definition url_blob :: "string \<Rightarrow> bytes" where
  "url_blob url = last (split_on slash url)"

definition index_blob :: bytes where
  "index_blob = ''sha256:ab''"

text \<open>Packages that read and index such blobs, and know one layer; the world counts requests.\<close>

definition read_blob :: "nat index_reader \<Rightarrow> int \<Rightarrow> nat \<Rightarrow> (string + bytes) \<times> nat" where
  "read_blob r sz w =
     (case (case r of Ranged rd \<Rightarrow> rd 0 (nat sz) w | Chunked v \<Rightarrow> lv_under v 0 (nat sz) w) of
        ((buf, n, err), w') \<Rightarrow> (if err = None \<or> err = Some EOF then Inr (take n buf) else Inl ''read'', w'))"

definition one_layer :: "(unit, bytes, bytes, nat) targz" where
  "one_layer =
     \<lparr>tz_digest = (\<lambda>_. Inr index_hash), tz_size = (\<lambda>_. Inr 9),
      tz_ranger = (\<lambda>url. bytes_reader (url_blob url)),
      tz_new_reader = read_blob,
      tz_index = (\<lambda>z w. (Inr (hash_archive z), z, Suc w)),
      tz_encode_toc = (\<lambda>es. case es of [e] \<Rightarrow> if header e = zero_header then Inr (filename e) else Inl ''header'' | _ \<Rightarrow> Inl ''entries''),
      tz_encode = (\<lambda>z. (z, None)),
      tz_decode = (\<lambda>r sz h w. (case h of FileHandle b \<Rightarrow> Inr b | DirHandle \<Rightarrow> Inl ''directory'', w)),
      tz_decode_toc = (\<lambda>t. Inr (hash_archive t)),
      tz_tarfs = (\<lambda>z t. Inr (z @ t))\<rparr>"

definition index_url :: string where
  "index_url = blob_url (RefTag \<lparr>repo_scheme = ''https'', repo_registry = ''gcr.io'', repo_path = ''p/img''\<rparr> ''v1'') index_hash"

definition one_indexer :: indexer where
  "one_indexer = \<lparr>ix_cache = demo_cache 0, ix_chunks = True\<rparr>"

definition index_disk :: disk where
  "index_disk = (demo_disk (\<lambda>_. None))\<lparr>
     dk_files := [(''/c/layers/sha256/ab/gsip.idx'', \<lparr>f_bytes = index_blob, f_mtime = 1\<rparr>),
                  (''/c/layers/sha256/ab/tarfs.toc'', \<lparr>f_bytes = index_blob, f_mtime = 2\<rparr>)],
     dk_dirs := [''/'', ''/c'', ''/c/layers'', ''/c/layers/sha256'', ''/c/layers/sha256/ab'']\<rparr>"

lemma index_hash_wf: "hash_wf index_hash"
  by code_simp

lemma index_paths:
  "path_join [''/c'', gsip_key index_hash] = ''/c/layers/sha256/ab/gsip.idx''"
  "path_join [''/c'', toc_key index_hash] = ''/c/layers/sha256/ab/tarfs.toc''"
  by code_simp+

lemma demo_disk_inv: "disk_inv ''/c'' (demo_cache cap, demo_disk fl)" "disk_inv ''/c'' (demo_cache cap, index_disk)"
  by (simp_all add: disk_inv_def demo_cache_def demo_disk_def index_disk_def plain_rand_def has_prefix_iff)

lemma one_layer_codecs: "toc_codec one_layer" "gsip_codec one_layer" "decodes one_layer"
  by (auto simp: toc_codec_def gsip_codec_def decodes_def one_layer_def hash_archive_def split: list.splits if_splits)

lemma one_serves: "serves_blobs one_layer hash_string"
proof -
  have "url_blob (scheme @ ''://'' @ host @ ''/v2/'' @ name @ ''/blobs/'' @ hash_string h) = hash_string h"
    if "hash_wf h" for scheme host name h
  proof -
    have "slash \<notin> set (hash_string h)" using that by (auto simp: hash_wf_def proper_def hash_string_def)
    then show ?thesis
      using split_on_append_sep [of slash "scheme @ ''://'' @ host @ ''/v2/'' @ name @ ''/blobs''" "hash_string h"]
      by (simp add: url_blob_def split_on_free)
  qed
  moreover have "length (hash_string index_hash) = 9" by code_simp
  ultimately show ?thesis using honest_bytes_reader by (simp add: serves_blobs_def one_layer_def)
qed

lemma one_scans: "scans_archive one_layer hash_string hash_archive"
proof -
  have "es = hash_archive (hash_string h)"
    if r: "reads_blob hash_string h r" "read_blob r (int (length (hash_string h))) w = (Inr z0, w1)"
      "tz_index one_layer z0 w1 = (Inr es, z, w2)" for h r w z0 w1 es z w2
  proof -
    obtain rd buf n err v where rd: "honest rd (hash_string h)" "rd 0 (length (hash_string h)) w = ((buf, n, err), v)"
      "err = None \<or> err = Some EOF" "z0 = take n buf"
      using r(1,2) by (cases r) (auto simp: read_blob_def view_ok_def split: prod.splits if_splits)
    have "n = length (hash_string h) \<and> buf = take (length (hash_string h)) (drop 0 (hash_string h))"
      using honestD(3) [OF rd(1) _ _ rd(2)] rd(3) by simp
    then have "z0 = hash_string h" using rd(4) by simp
    then show ?thesis using r(3) by (auto simp: one_layer_def)
  qed
  then show ?thesis unfolding scans_archive_def by (auto simp: one_layer_def)
qed

lemma one_scan: "scanned one_layer index_hash (hash_archive index_blob) index_blob"
proof -
  let ?ref = "RefTag \<lparr>repo_scheme = ''https'', repo_registry = ''gcr.io'', repo_path = ''p/img''\<rparr> ''v1''"
  have "tz_new_reader one_layer (layer_reader one_layer False (blob_url ?ref index_hash) index_hash 9) 9 0 = (Inr index_blob, 1)"
    by code_simp
  then show ?thesis
    by (rule scannedI [of one_layer "()" index_hash 9 False ?ref 0, rotated 2]) (simp_all add: one_layer_def)
qed

lemma index_disk_ok: "index_ok one_layer ''/c'' (demo_cache 0, index_disk)"
proof -
  have "gsip_file one_layer index_hash index_blob"
    unfolding gsip_file_def using one_scan
    by (intro exI [of _ "hash_archive index_blob"] exI [of _ index_blob]) (simp add: one_layer_def)
  moreover have "toc_file one_layer index_hash index_blob"
    unfolding toc_file_def using one_scan
    by (intro exI [of _ "hash_archive index_blob"] exI [of _ index_blob]) (simp add: one_layer_def hash_archive_def)
  ultimately have "index_genuine one_layer ''/c'' (gsip_key index_hash) index_blob"
    "index_genuine one_layer ''/c'' (toc_key index_hash) index_blob"
    using index_genuine_keys [OF _ index_hash_wf, of "''/c''"] by (simp_all add: has_prefix_iff)
  then have "index_genuine one_layer ''/c'' k v" if "disk_lookup (demo_cache 0, index_disk) k = Some v" for k v
    using that unfolding index_genuine_def index_paths
    by (auto simp: disk_lookup_def cache_path_def demo_cache_def index_disk_def dk_file_def demo_disk_def split: if_splits)
  then show ?thesis
    using demo_disk_inv(2) by (simp add: index_ok_def disk.coherent_def)
qed

lemma demo_disk_ok: "index_ok one_layer ''/c'' (demo_cache 0, demo_disk fl)"
proof -
  have "index_genuine one_layer ''/c'' k v" if "disk_lookup (demo_cache 0, demo_disk fl) k = Some v" for k v
  proof -
    have "path_join [''/c'', k] = ''/c/old''"
      using that by (auto simp: disk_lookup_def cache_path_def demo_cache_def demo_disk_def dk_file_def split: if_splits)
    moreover have "path_base ''/c/old'' = ''old''" by code_simp
    ultimately have "path_join [''/c'', k] \<noteq> path_join [''/c'', index_key h nm]" if "proper nm" "nm \<noteq> ''old''" for h nm
      using index_base [OF _ that(1), of "''/c''" h] that(2) by (auto simp: has_prefix_iff)
    then show ?thesis by (simp add: index_genuine_def)
  qed
  then show ?thesis
    using demo_disk_inv(1) by (simp add: index_ok_def disk.coherent_def)
qed

lemma one_indexer_simps [simp]: "ix_cache one_indexer = demo_cache 0" "tz_digest one_layer l = Inr index_hash"
  by (simp_all add: one_indexer_def one_layer_def)

theorem index_reopen_witness:
  "\<exists>ly d1 d2 w1. open_layer one_layer (insertion_sort ev_mtime) one_indexer index_url () (demo_disk (\<lambda>_. None)) 0 =
       (Inr ly, (one_indexer, d1), w1) \<and>
     open_layer one_layer (insertion_sort ev_mtime) one_indexer index_url () d1 7 = (Inr ly, (one_indexer, d2), 7)"
proof -
  let ?o = "open_layer one_layer (insertion_sort ev_mtime) one_indexer index_url () (demo_disk (\<lambda>_. None)) 0"
  have "\<not> isl (fst ?o)" by code_simp
  then obtain ly ix1 d1 w1 where o: "?o = (Inr ly, (ix1, d1), w1)" by (metis not_isl_Inr prod.collapse)
  have "\<not> fst (cache_has (demo_cache 0) (gsip_key index_hash) (demo_disk (\<lambda>_. None)))" by code_simp
  then show ?thesis
    using index_reopen [OF _ _ _ _ one_layer_codecs(1,2) _ o, of "''/c''" index_hash 7] demo_disk_inv(1) o
    by (auto simp: demo_cache_def no_faults_def demo_disk_def)
qed

theorem index_files_genuine_witness:
  "\<exists>ix1 d1 w1. open_layer one_layer (insertion_sort ev_mtime) one_indexer index_url () (demo_disk rename_fails) 0 =
       (Inl (DiskError (OSError ''EIO'')), (ix1, d1), w1) \<and> index_ok one_layer ''/c'' (ix_cache ix1, d1)"
proof -
  let ?o = "open_layer one_layer (insertion_sort ev_mtime) one_indexer index_url () (demo_disk rename_fails) 0"
  have "isl (fst ?o) \<and> projl (fst ?o) = DiskError (OSError ''EIO'')" by code_simp
  then obtain ix1 d1 w1 where o: "?o = (Inl (DiskError (OSError ''EIO'')), (ix1, d1), w1)"
    by (cases ?o) (auto simp: isl_def)
  then show ?thesis
    using index_files_genuine [OF _ _ index_hash_wf one_layer_codecs(1) o [unfolded index_url_def], of "''/c''"] demo_disk_ok by simp
qed

theorem index_load_exact_witness:
  "\<exists>fsys d'. load_layer one_layer (demo_cache 0) (Ranged (tz_ranger one_layer index_url)) 10 (gsip_key index_hash)
      (toc_key index_hash) index_disk 3 = (Inr (Some fsys), d', 3)"
proof -
  obtain r d' w' where ld: "load_layer one_layer (demo_cache 0) (Ranged (tz_ranger one_layer index_url)) 10
      (gsip_key index_hash) (toc_key index_hash) index_disk 3 = (r, d', w')" by (metis surj_pair)
  have "disk_lookup (demo_cache 0, index_disk) (gsip_key index_hash) = Some index_blob"
    "disk_lookup (demo_cache 0, index_disk) (toc_key index_hash) = Some index_blob"
    by code_simp+
  moreover have "cache_path (demo_cache 0) (gsip_key index_hash) \<notin> set (dk_dirs index_disk)"
    "cache_path (demo_cache 0) (toc_key index_hash) \<notin> set (dk_dirs index_disk)"
    by code_simp+
  ultimately show ?thesis
    using index_load_exact [OF index_disk_ok index_hash_wf one_layer_codecs(3) _ _ _ ld] ld
    by (auto simp: no_faults_def index_disk_def demo_disk_def)
qed

theorem evicted_toc_is_error_witness:
  "\<exists>d1 d2. has_indexes (demo_cache 0) (gsip_key index_hash) (toc_key index_hash) index_disk = (True, d1) \<and>
     os_remove (cache_path (demo_cache 0) (toc_key index_hash)) d1 = (Inr (), d2) \<and>
     fst (load_indexes one_layer (demo_cache 0) (Ranged (tz_ranger one_layer index_url)) 10 (gsip_key index_hash)
       (toc_key index_hash) d2 3) = Inl (DiskError NotExist)"
proof -
  let ?g = "gsip_key index_hash" and ?t = "toc_key index_hash" and ?c = "demo_cache 0"
  have "fst (has_indexes ?c ?g ?t index_disk)" by code_simp
  then obtain d1 where h: "has_indexes ?c ?g ?t index_disk = (True, d1)" by (metis (full_types) prod.collapse)
  have path_dirs: "path_dir ''/c/layers/sha256/ab/gsip.idx'' = ''/c/layers/sha256/ab''"
    "path_dir ''/c/layers/sha256/ab/tarfs.toc'' = ''/c/layers/sha256/ab''"
    by code_simp+
  have wf: "disk_wf index_disk" "no_faults index_disk"
    using path_dirs by (simp_all add: no_faults_def index_disk_def demo_disk_def disk_wf_def akeys_def)
  have files: "disk_lookup (?c, index_disk) ?g = Some index_blob" "disk_lookup (?c, index_disk) ?t = Some index_blob"
    "cache_path ?c ?g \<noteq> cache_path ?c ?t"
    by code_simp+
  have "dk_file d1 (cache_path ?c ?t) \<noteq> None" "dk_file d1 (cache_path ?c ?g) \<noteq> None" "no_faults d1"
    using files(1,2) has_indexes_files [OF h] has_indexes_effect(2) [OF h] no_faults_env wf(2)
    by (auto simp: disk_lookup_def)
  then obtain d2 d3 where rm: "os_remove (cache_path ?c ?t) d1 = (Inr (), d2)" "os_remove (cache_path ?c ?g) d1 = (Inr (), d3)"
    using os_remove_present by meson
  have dec: "tz_decode one_layer (Ranged (tz_ranger one_layer index_url)) 10 (FileHandle index_blob) 3 = (Inr index_blob, 3)"
    by (simp add: one_layer_def)
  show ?thesis
    using evicted_toc_is_error [OF wf h files dec rm] h rm by blast
qed

end
