(* ===== verification/Remount.thy ===== *)
theory Remount
  imports Mount_Props Indexer_Props
begin

text \<open>
  The mount and the indexer together: the layers of an image that was opened once are opened
  again, by another process on the same cache directory, without a request for a blob.
\<close>

section \<open>The indexer as the mount uses it\<close>

text \<open>\<open>ix.Open\<close> as \<open>openLayers\<close> calls it; an error becomes a text.\<close>

definition index_open ::
  "('l, 'z, 'f, 'w) targz \<Rightarrow> (evict_entry list \<Rightarrow> evict_entry list) \<Rightarrow> (index_error \<Rightarrow> string) \<Rightarrow> string \<Rightarrow> 'l \<Rightarrow>
   (indexer \<times> disk) \<times> 'w \<Rightarrow> (string + 'f layer) \<times> (indexer \<times> disk) \<times> 'w" where
  "index_open tz srt txt url l s =
     (case open_layer tz srt (fst (fst s)) url l (snd (fst s)) (snd s) of
        (Inl e, s', w') \<Rightarrow> (Inl (txt e), s', w')
      | (Inr ly, s', w') \<Rightarrow> (Inr ly, s', w'))"

lemma index_open_step:
  "index_open tz srt txt url l ((ix, d), w) =
     (case open_layer tz srt ix url l d w of
        (Inl e, s', w') \<Rightarrow> (Inl (txt e), s', w')
      | (Inr ly, s', w') \<Rightarrow> (Inr ly, s', w'))"
  by (simp add: index_open_def)

text \<open>Decoding an index requests nothing, whatever the file holds, and fails on a directory.\<close>

definition decode_local :: "('l, 'z, 'f, 'w) targz \<Rightarrow> bool" where
  "decode_local tz \<longleftrightarrow> (\<forall>r sz h. \<exists>x. \<forall>w. tz_decode tz r sz h w = (x, w)) \<and>
     (\<forall>r sz w z w'. tz_decode tz r sz DirHandle w \<noteq> (Inr z, w'))"

text \<open>The documented behaviour of the third-party codecs, together.\<close>

definition codecs_ok :: "('l, 'z, 'f, 'w) targz \<Rightarrow> bool" where
  "codecs_ok tz \<longleftrightarrow> toc_codec tz \<and> gsip_codec tz \<and> decode_local tz"

text \<open>An unbounded cache on a disk that does not fail.\<close>

definition calm :: "path \<Rightarrow> indexer \<Rightarrow> disk \<Rightarrow> bool" where
  "calm dir ix d \<longleftrightarrow> disk_inv dir (ix_cache ix, d) \<and> ca_cap (ix_cache ix) \<le> 0 \<and> no_faults d"

lemma calm_cong: "calm dir ix d \<Longrightarrow> same_env d d' \<Longrightarrow> calm dir ix d'"
  by (auto simp: calm_def disk_inv_def plain_rand_def no_faults_def same_env_def)

section \<open>One layer\<close>

lemma load_ready:
  assumes "load_layer tz (ix_cache ix) (layer_reader tz (ix_chunks ix) url h sz) sz (gsip_key h) (toc_key h) d w =
      (Inr (Some (fsys, es)), d', w')"
    and "decode_local tz" "tz_digest tz l = Inr h" "tz_size tz l = Inr sz"
  shows "ready tz ix d url l \<lparr>ly_digest = h, ly_size = sz, ly_fs = fsys, ly_entries = es\<rparr>" "w' = w"
proof -
  let ?c = "ix_cache ix" and ?rra = "layer_reader tz (ix_chunks ix) url h sz"
  obtain b d1 where h: "has_indexes ?c (gsip_key h) (toc_key h) d = (b, d1)" by force
  obtain r1 d2 where o1: "cache_open ?c (gsip_key h) d1 = (r1, d2)" by force
  obtain r2 d3 where o2: "read_all ?c (toc_key h) d2 = (r2, d3)" by force
  have "\<exists>gz z t. r1 = Inr gz \<and> tz_decode tz ?rra sz gz w = (Inr z, w') \<and> r2 = Inr t \<and>
      tz_decode_toc tz t = Inr es \<and> tz_tarfs tz z t = Inr fsys"
    using assms(1) h o1 o2
    by (auto simp: load_layer_def load_indexes_def split: bool.splits sum.splits prod.splits if_splits)
  then obtain gz z t where f: "r1 = Inr gz" "tz_decode tz ?rra sz gz w = (Inr z, w')" "r2 = Inr t"
      "tz_decode_toc tz t = Inr es" "tz_tarfs tz z t = Inr fsys" by blast
  obtain g where g: "gz = FileHandle g" using f(2) assms(2) by (cases gz) (auto simp: decode_local_def)
  obtain x where x: "\<And>v. tz_decode tz ?rra sz gz v = (x, v)" using assms(2) unfolding decode_local_def by meson
  then have dec: "tz_decode tz ?rra sz (FileHandle g) v = (Inr z, v)" for v using f(2) g by simp
  show "w' = w" using x f(2) by simp
  have "disk_lookup (?c, d1) (gsip_key h) = Some g" "disk_lookup (?c, d2) (toc_key h) = Some t"
    using cache_open_effect(3) [OF o1, of g] read_all_effect(3) [OF o2 f(3)] f(1) g by (simp_all add: disk_lookup_def)
  then have "disk_lookup (?c, d) (gsip_key h) = Some g" "disk_lookup (?c, d) (toc_key h) = Some t"
    using cache_open_lookup [OF o1, of ?c] has_indexes_effect(1) [OF h, of ?c] by auto
  then show "ready tz ix d url l \<lparr>ly_digest = h, ly_size = sz, ly_fs = fsys, ly_entries = es\<rparr>"
    using assms(3,4) dec f(4,5) by (auto simp: ready_def)
qed

lemma load_found:
  assumes "load_layer tz c rra sz gkey tkey d w = (Inr None, d', w')" "no_faults d"
  shows "disk_lookup (c, d) gkey = None \<or> disk_lookup (c, d) tkey = None"
proof (rule ccontr)
  assume "\<not> ?thesis"
  then obtain g t where f: "disk_lookup (c, d) gkey = Some g" "disk_lookup (c, d) tkey = Some t" by auto
  then obtain d1 where h1: "cache_has c gkey d = (True, d1)" using cache_has_present assms(2) by (metis option.distinct(1))
  have d1: "disk_lookup (c, d1) = disk_lookup (c, d)" "no_faults d1"
    using cache_has_lookup [OF h1, of c] assms(2) by simp_all
  then obtain d2 where h2: "cache_has c tkey d1 = (True, d2)" using cache_has_present f(2) by (metis option.distinct(1))
  have d2: "disk_lookup (c, d2) gkey = Some g" "no_faults d2"
    using cache_has_lookup [OF h2, of c] d1 f(1) by simp_all
  then obtain d3 where "cache_open c gkey d2 = (Inr (FileHandle g), d3)" using cache_open_present by blast
  then show False
    using assms(1) h1 h2 by (auto simp: load_layer_def has_indexes_def load_indexes_def split: sum.splits prod.splits)
qed

text \<open>Opening a layer makes it ready and keeps every other layer ready.\<close>

lemma open_ready:
  assumes "calm dir ix d" "codecs_ok tz" "tz_digest tz l = Inr h" "open_layer tz srt ix url l d w = (Inr ly, (ix1, d1), w1)"
  shows "ix1 = ix" "calm dir ix d1" "ready tz ix d1 url l ly"
    "hash_wf h \<Longrightarrow> tz_digest tz l' = Inr h' \<Longrightarrow> hash_wf h' \<Longrightarrow> ready tz ix d url' l' ly' \<Longrightarrow> ready tz ix d1 url' l' ly'"
proof -
  have dir: "has_prefix dir ''/''" "disk_inv dir (ix_cache ix, d)" "no_faults d" "ca_cap (ix_cache ix) \<le> 0"
    using assms(1) by (simp_all add: calm_def disk_inv_def)
  obtain sz where sz: "tz_size tz l = Inr sz"
    using assms(3,4) by (cases "tz_size tz l") (simp_all add: open_layer_def)
  let ?rra = "layer_reader tz (ix_chunks ix) url h sz"
  note step = open_layer_step [OF assms(3) sz]
  obtain q d0 v where ld: "load_layer tz (ix_cache ix) ?rra sz (gsip_key h) (toc_key h) d w = (q, d0, v)"
    by (metis surj_pair)
  note l0 = load_layer_lookup [OF ld]
  have calm0: "calm dir ix d0" using calm_cong assms(1) l0(2) by blast
  consider (err) e where "q = Inl e" | (miss) "q = Inr None" | (hit) fsys es where "q = Inr (Some (fsys, es))"
    by (metis old.sum.exhaust option.exhaust surj_pair)
  then have "ix1 = ix \<and> calm dir ix d1 \<and> ready tz ix d1 url l ly \<and>
    (\<forall>l' h' url' ly'. hash_wf h \<longrightarrow> tz_digest tz l' = Inr h' \<longrightarrow> hash_wf h' \<longrightarrow> ready tz ix d url' l' ly' \<longrightarrow>
      ready tz ix d1 url' l' ly')"
  proof cases
    case err
    then show ?thesis using assms(4) unfolding step ld by simp
  next
    case hit
    then have r: "ready tz ix d url l ly" "ix1 = ix" "d1 = d0"
      using load_ready(1) [OF ld [unfolded hit] _ assms(3) sz] assms(2,4) unfolding step ld by (auto simp: codecs_ok_def)
    then show ?thesis using calm0 ready_cong l0(1) assms(3) by metis
  next
    case miss
    then obtain c2 where built: "build_layer tz srt h sz ?rra (gsip_key h) (toc_key h) (ix_cache ix, d0) v =
        (Inr ly, (c2, d1), w1)" and ix1: "ix1 = ix\<lparr>ix_cache := c2\<rparr>"
      using assms(4) unfolding step ld by (auto split: prod.splits)
    have inv0: "disk_inv dir (ix_cache ix, d0)" "no_faults d0" using calm0 by (simp_all add: calm_def)
    have codecs: "toc_codec tz" "gsip_codec tz" using assms(2) by (simp_all add: codecs_ok_def)
    note b = build_ready [OF inv0(1) dir(4) codecs assms(3) sz refl built]
    have keep: "ready tz ix d1 url' l' ly'"
      if "hash_wf h" and l': "tz_digest tz l' = Inr h'" "hash_wf h'" "ready tz ix d url' l' ly'" for l' h' url' ly'
    proof -
      have "h' \<noteq> h"
        using load_found [OF ld [unfolded miss] dir(3)] l'(1,3) by (auto simp: ready_def)
      then have "path_join [dir, index_key h' nm'] \<noteq> path_join [dir, index_key h nm]" if "proper nm" "proper nm'" for nm nm'
        using index_path_inj [OF dir(1) l'(2) \<open>hash_wf h\<close> that(2,1)] by blast
      then have "disk_lookup (ix_cache ix, d1) k = disk_lookup (ix_cache ix, d) k" if "k = gsip_key h' \<or> k = toc_key h'" for k
        using that b(5) [of k] valid_index_key(1,2) [OF dir(1), of h'] l0(1) [of "ix_cache ix"] by auto
      then show ?thesis using ready_cong [OF l'(3,1)] by simp
    qed
    show ?thesis
      using b(1-3) b(4) [OF inv0(2)] ix1 dir(4) keep by (auto simp: calm_def)
  qed
  then show "ix1 = ix" "calm dir ix d1" "ready tz ix d1 url l ly"
    "hash_wf h \<Longrightarrow> tz_digest tz l' = Inr h' \<Longrightarrow> hash_wf h' \<Longrightarrow> ready tz ix d url' l' ly' \<Longrightarrow> ready tz ix d1 url' l' ly'"
    by blast+
qed

section \<open>The layers of an image\<close>

lemma ready_lookup:
  "ready tz ix d url l ly \<Longrightarrow> disk_lookup (ix_cache ix, d') = disk_lookup (ix_cache ix, d) \<Longrightarrow> ready tz ix d' url l ly"
  by (simp add: ready_def)

definition digest_wf :: "('l, 'z, 'f, 'w) targz \<Rightarrow> 'l \<Rightarrow> bool" where
  "digest_wf tz l \<longleftrightarrow> (\<exists>h. tz_digest tz l = Inr h \<and> hash_wf h)"

abbreviation layer_ready where
  "layer_ready tz ix d ref l ly \<equiv> ready tz ix d (blob_url ref (projr (tz_digest tz l))) l ly"

lemma open_layers_ready:
  assumes "calm dir ix d" "codecs_ok tz" "\<forall>l \<in> set ls. digest_wf tz l"
    and "open_layers (tz_digest tz) (index_open tz srt txt) ref ls ((ix, d), w) = (Inr lys, ((ix1, d1), w1))"
  shows "ix1 = ix \<and> calm dir ix d1 \<and> list_all2 (layer_ready tz ix d1 ref) ls lys \<and>
    (\<forall>l' url' ly'. digest_wf tz l' \<longrightarrow> ready tz ix d url' l' ly' \<longrightarrow> ready tz ix d1 url' l' ly')"
  using assms(1,3,4)
proof (induction ls arbitrary: d w lys)
  case Nil
  then show ?case by simp
next
  case (Cons l ls)
  obtain h where h: "tz_digest tz l = Inr h" "hash_wf h" using Cons.prems(2) by (auto simp: digest_wf_def)
  obtain r ixa da wa where o: "open_layer tz srt ix (blob_url ref h) l d w = (r, (ixa, da), wa)" by (metis surj_pair)
  from Cons.prems(3) o h(1) obtain ly lys' where r: "r = Inr ly" "lys = ly # lys'"
    "open_layers (tz_digest tz) (index_open tz srt txt) ref ls ((ixa, da), wa) = (Inr lys', ((ix1, d1), w1))"
    by (cases r) (auto simp: index_open_step split: prod.splits sum.splits)
  note one = open_ready [OF Cons.prems(1) assms(2) h(1) o [unfolded r(1)]]
  have rest: "ix1 = ix" "calm dir ix d1" "list_all2 (layer_ready tz ix d1 ref) ls lys'"
    "digest_wf tz l' \<Longrightarrow> ready tz ix da url' l' ly' \<Longrightarrow> ready tz ix d1 url' l' ly'" for l' url' ly'
    using Cons.IH [OF one(2), of wa lys'] Cons.prems(2) r(3) one(1) by auto
  have "ready tz ix d1 (blob_url ref h) l ly"
    using rest(4) [OF _ one(3)] h by (auto simp: digest_wf_def)
  moreover have "ready tz ix d1 url' l' ly'" if "digest_wf tz l'" "ready tz ix d url' l' ly'" for l' url' ly'
    using rest(4) [OF that(1)] one(4) [OF h(2)] that by (auto simp: digest_wf_def)
  ultimately show ?case using rest(1-3) h(1) r(2) by simp
qed

lemma ready_open_layers:
  assumes "list_all2 (layer_ready tz ix d ref) ls lys" "no_faults d"
  shows "\<exists>d'. open_layers (tz_digest tz) (index_open tz srt txt) ref ls ((ix, d), w) = (Inr lys, ((ix, d'), w))"
  using assms
proof (induction ls arbitrary: lys d)
  case (Cons l ls)
  obtain ly lys' where lys: "lys = ly # lys'" "layer_ready tz ix d ref l ly" "list_all2 (layer_ready tz ix d ref) ls lys'"
    using Cons.prems(1) by (auto simp: list_all2_Cons1)
  obtain h where h: "tz_digest tz l = Inr h" using lys(2) by (auto simp: ready_def)
  then have "ready tz ix d (blob_url ref h) l ly" using lys(2) by simp
  from ready_open [OF this Cons.prems(2)]
  obtain d1 where o: "open_layer tz srt ix (blob_url ref h) l d w = (Inr ly, (ix, d1), w)" "no_faults d1"
      "disk_lookup (ix_cache ix, d1) = disk_lookup (ix_cache ix, d)" by blast
  have "list_all2 (layer_ready tz ix d1 ref) ls lys'"
    using lys(3) ready_lookup [OF _ o(3)] by (metis (mono_tags, lifting) list_all2_mono)
  then obtain d2 where "open_layers (tz_digest tz) (index_open tz srt txt) ref ls ((ix, d1), w) = (Inr lys', ((ix, d2), w))"
    using Cons.IH o(2) by blast
  then show ?case using h o(1) lys(1) by (simp add: index_open_step)
qed simp

text \<open>C29. Mounting an image again needs no blob: after an image was built from its layers with a disk cache that has
  no limit and while no system call fails, building it again, with whatever registry there is by then, gives the same
  merged tree and layers from the index files alone: nothing is requested, and each layer's position, content and
  entries are the same.  A cache with a limit may have evicted an index file in between; then the layer is indexed again.\<close>

theorem remount_from_disk:
  assumes "calm dir ix d" "codecs_ok tz" "\<forall>l \<in> set (im_layers img). digest_wf tz l"
    and "sv_layer_digest sv = tz_digest tz" "sv_open_layer sv = index_open tz srt txt"
    and "build_image sv img ((ix, d), w) = (Inr ri, ((ix1, d1), w1))"
  shows "ix1 = ix \<and> (\<exists>d2. build_image sv img ((ix1, d1), w') = (Inr ri, ((ix1, d2), w')))"
proof -
  obtain lys where o: "open_layers (tz_digest tz) (index_open tz srt txt) (im_ref img) (im_layers img) ((ix, d), w) =
      (Inr lys, ((ix1, d1), w1))"
    and ri: "ri = \<lparr>ri_digest = im_digest img, ri_layers = lys, ri_tree = Merge (sv_sort sv) (map ly_entries lys)\<rparr>"
    using assms(6) by (auto simp: build_image_def assms(4,5) split: prod.splits sum.splits)
  have r: "ix1 = ix" "calm dir ix d1" "list_all2 (layer_ready tz ix d1 (im_ref img)) (im_layers img) lys"
    using open_layers_ready [OF assms(1-3) o] by simp_all
  obtain d2 where "open_layers (tz_digest tz) (index_open tz srt txt) (im_ref img) (im_layers img) ((ix, d1), w') =
      (Inr lys, ((ix, d2), w'))"
    using ready_open_layers [OF r(3)] r(2) unfolding calm_def by blast
  then show ?thesis using r(1) ri by (auto simp: build_image_def assms(4,5))
qed

section \<open>Witness\<close>

definition one_services :: "(unit, bytes, (indexer \<times> disk) \<times> nat) services" where
  "one_services =
     \<lparr>sv_new_hash = (\<lambda>_. Inr index_hash), sv_resolve = (\<lambda>ref p w. (Inl ''offline'', w)),
      sv_layer_digest = tz_digest one_layer,
      sv_open_layer = index_open one_layer (insertion_sort ev_mtime) (\<lambda>_. ''index''),
      sv_get = (\<lambda>ref p w. (Inl ''offline'', w)), sv_sort = insertion_sort filename\<rparr>"

definition one_image :: "unit oci_image" where
  "one_image = \<lparr>im_ref = RefTag demo_repo ''v1'', im_digest = index_hash, im_layers = [(), ()]\<rparr>"

theorem remount_from_disk_witness:
  "\<exists>ri d1 d2 w1. build_image one_services one_image ((one_indexer, demo_disk (\<lambda>_. None)), 0) =
       (Inr ri, ((one_indexer, d1), w1)) \<and>
     build_image one_services one_image ((one_indexer, d1), 9) = (Inr ri, ((one_indexer, d2), 9))"
proof -
  let ?b = "build_image one_services one_image ((one_indexer, demo_disk (\<lambda>_. None)), 0)"
  have "\<not> isl (fst ?b)" by code_simp
  then obtain ri ix1 d1 w1 where b: "?b = (Inr ri, ((ix1, d1), w1))" by (metis not_isl_Inr prod.collapse)
  have calm: "calm ''/c'' one_indexer (demo_disk (\<lambda>_. None))"
    using demo_disk_inv(1) by (simp add: calm_def demo_cache_def no_faults_def demo_disk_def)
  have codecs: "codecs_ok one_layer"
    using one_layer_codecs by (auto simp: codecs_ok_def decode_local_def one_layer_def)
  have wf: "\<forall>l \<in> set (im_layers one_image). digest_wf one_layer l"
    using index_hash_wf by (simp add: digest_wf_def)
  show ?thesis
    using remount_from_disk [OF calm codecs wf _ _ b, where w' = 9] b by (auto simp: one_services_def)
qed

end
