(* ===== verification/Singleflight.thy ===== *)
theory Singleflight
  imports Prelude
begin

text \<open>
  What the two groups of \<open>internal/mount/mount.go\<close> (\<open>sf\<close> and \<open>tagSF\<close>) rely on of \<open>singleflight\<close>: the calls of
  a key wait for its flight, and the flight that lands gives all of them its result.  The contract
  is a locale, interpreted on concurrent resolutions of images and on concurrent lookups of tags.
\<close>

section \<open>Calls\<close>

text \<open>Calls are numbered; each call that has reached the group (\<open>N\<close>) either waits, for a key with a
  flight, or has one result.\<close>

definition group_ok :: "string set \<Rightarrow> (nat \<times> string) list \<Rightarrow> (nat \<times> 'r) list \<Rightarrow> nat set \<Rightarrow> bool" where
  "group_ok fl wt rs N \<longleftrightarrow> distinct (map fst wt) \<and> distinct (map fst rs) \<and> fst ` set wt \<inter> fst ` set rs = {} \<and>
     fst ` set wt \<union> fst ` set rs = N \<and> snd ` set wt \<subseteq> fl"

lemma group_okD:
  assumes "group_ok fl wt rs N"
  shows "(c, key) \<in> set wt \<Longrightarrow> c \<in> N \<and> key \<in> fl" "(c, r) \<in> set rs \<Longrightarrow> c \<in> N"
    "(c, key) \<in> set wt \<Longrightarrow> (c, r) \<notin> set rs"
proof -
  have parts: "fst ` set wt \<union> fst ` set rs = N" "snd ` set wt \<subseteq> fl" "fst ` set wt \<inter> fst ` set rs = {}"
    using assms by (simp_all add: group_ok_def)
  have wait: "c \<in> fst ` set wt \<and> key \<in> snd ` set wt" if "(c, key) \<in> set wt" for c key using that by force
  have res: "c \<in> fst ` set rs" if "(c, r) \<in> set rs" for c r using that by force
  show "(c, key) \<in> set wt \<Longrightarrow> c \<in> N \<and> key \<in> fl" using wait [of c key] parts(1,2) by blast
  show "(c, r) \<in> set rs \<Longrightarrow> c \<in> N" using res [of c r] parts(1) by blast
  show "(c, key) \<in> set wt \<Longrightarrow> (c, r) \<notin> set rs" using wait [of c key] res [of c r] parts(3) by blast
qed

lemma group_ok_none: "group_ok {} [] [] {}"
  by (simp add: group_ok_def)

lemma group_ok_mono: "group_ok fl wt rs N \<Longrightarrow> fl \<subseteq> fl' \<Longrightarrow> group_ok fl' wt rs N"
  by (auto simp: group_ok_def)

lemma group_ok_call:
  assumes "group_ok fl wt rs N" "n \<notin> N"
  shows "group_ok (insert key fl) ((n, key) # wt) rs (insert n N)" "group_ok fl wt ((n, r) # rs) (insert n N)"
proof -
  have parts: "distinct (map fst wt)" "distinct (map fst rs)" "fst ` set wt \<inter> fst ` set rs = {}"
    "fst ` set wt \<union> fst ` set rs = N" "snd ` set wt \<subseteq> fl"
    using assms(1) by (simp_all add: group_ok_def)
  then have "n \<notin> fst ` set wt" "n \<notin> fst ` set rs" "insert n (fst ` set wt \<union> fst ` set rs) = insert n N"
    using assms(2) by auto
  then show "group_ok (insert key fl) ((n, key) # wt) rs (insert n N)" "group_ok fl wt ((n, r) # rs) (insert n N)"
    using parts by (auto simp: group_ok_def)
qed

lemma distinct_fst_filter: "distinct (map fst xs) \<Longrightarrow> distinct (map fst (filter P xs))"
  by (induction xs) auto

lemma fst_filter_disjoint:
  "distinct (map fst xs) \<Longrightarrow> fst ` set (filter P xs) \<inter> fst ` set (filter (\<lambda>x. \<not> P x) xs) = {}"
  by (induction xs) auto

lemma group_ok_land:
  assumes "group_ok fl wt rs N"
  shows "group_ok (fl - {key}) (filter (\<lambda>x. snd x \<noteq> key) wt) (map (\<lambda>x. (fst x, r)) (filter (\<lambda>x. snd x = key) wt) @ rs) N"
proof -
  let ?stay = "fst ` set (filter (\<lambda>x. snd x \<noteq> key) wt)" and ?go = "fst ` set (filter (\<lambda>x. snd x = key) wt)"
  have parts: "distinct (map fst wt)" "distinct (map fst rs)" "fst ` set wt \<inter> fst ` set rs = {}"
    "fst ` set wt \<union> fst ` set rs = N" "snd ` set wt \<subseteq> fl"
    using assms by (simp_all add: group_ok_def)
  have split: "?stay \<union> ?go = fst ` set wt" "?stay \<inter> ?go = {}"
    using fst_filter_disjoint [OF parts(1), of "\<lambda>x. snd x \<noteq> key"] by auto
  let ?rs = "map (\<lambda>x. (fst x, r)) (filter (\<lambda>x. snd x = key) wt) @ rs"
  have rs: "map fst ?rs = map fst (filter (\<lambda>x. snd x = key) wt) @ map fst rs" by (simp add: comp_def)
  then have sets: "fst ` set ?rs = ?go \<union> fst ` set rs" by (metis list.set_map set_append)
  have total: "?stay \<union> (?go \<union> fst ` set rs) = N" using parts(4) split(1) by (simp add: Un_assoc [symmetric])
  have "snd ` set (filter (\<lambda>x. snd x \<noteq> key) wt) \<subseteq> fl - {key}" using parts(5) by auto
  then show ?thesis
    unfolding group_ok_def sets rs using parts(2,3) split total distinct_fst_filter [OF parts(1)] by auto
qed

section \<open>The contract\<close>

locale singleflight =
  fixes flying :: "'s \<Rightarrow> string set" and waiting :: "'s \<Rightarrow> (nat \<times> string) list"
    and results :: "'s \<Rightarrow> (nat \<times> 'r) list" and called :: "'s \<Rightarrow> nat set" and land :: "string \<Rightarrow> 'r \<Rightarrow> 's \<Rightarrow> 's"
  assumes land_flying: "flying (land key r s) = flying s - {key}"
    and land_waiting: "waiting (land key r s) = filter (\<lambda>x. snd x \<noteq> key) (waiting s)"
    and land_results: "results (land key r s) =
      map (\<lambda>x. (fst x, r)) (filter (\<lambda>x. snd x = key) (waiting s)) @ results s"
    and land_called: "called (land key r s) = called s"
begin

abbreviation ok :: "'s \<Rightarrow> bool" where
  "ok s \<equiv> group_ok (flying s) (waiting s) (results s) (called s)"

lemma land_ok: "ok s \<Longrightarrow> ok (land key r s)"
  using group_ok_land by (simp add: land_flying land_waiting land_results land_called)

text \<open>Everybody who waits gets the result.\<close>

lemma land_result: "(c, key) \<in> set (waiting s) \<Longrightarrow> (c, r) \<in> set (results (land key r s))"
  by (force simp: land_results)

lemma land_result_cases:
  "(c, x) \<in> set (results (land key r s)) \<longleftrightarrow> (c, x) \<in> set (results s) \<or> (c, key) \<in> set (waiting s) \<and> x = r"
  by (force simp: land_results)

text \<open>When nothing flies, every call has returned, once.\<close>

lemma all_returned:
  assumes "ok s" "flying s = {}"
  shows "waiting s = []" "distinct (map fst (results s))" "fst ` set (results s) = called s"
proof -
  have "snd ` set (waiting s) \<subseteq> {}" using assms by (simp add: group_ok_def)
  then show "waiting s = []" by simp
  then show "distinct (map fst (results s))" "fst ` set (results s) = called s"
    using assms(1) by (simp_all add: group_ok_def)
qed

end

end
