(* ===== verification/Resolve_Steps.thy ===== *)
theory Resolve_Steps
  imports Mount_Lemmas Singleflight
begin

text \<open>
  Concurrent calls of \<open>Filesystem.resolveImage\<close> (\<open>internal/mount/mount.go\<close>) as a step relation, with
  the mutex \<open>f.mu\<close> in the state: taking it, the look at the image map or the store into it, and releasing it are
  steps of their own.  A call for a digest first looks into the image map; if that does not answer it, it
  joins, some time later, the flight of its key or starts one (\<open>singleflight\<close>: one execution per key at a time,
  every caller that waits gets its result).  A flight resolves the reference, looks into the map again, opens
  the layers, looks a last time and stores the image if there is none by then.  The steps of calls and of flights for
  different keys interleave in any order.
\<close>

section \<open>States\<close>

text \<open>Where a flight is, by the statement it executes next.  After \<open>Looking\<close> and \<open>Checking\<close> each of the two branches has
  its own \<open>Unlock\<close>.\<close>

datatype ('l, 'f) phase =
    Resolving
  | Fetched "'l oci_image"
  | Looking "'l oci_image"
  | Found "'f resolved_image"
  | Missed "'l oci_image"
  | Opening "'l oci_image"
  | Built "'f resolved_image"
  | Checking "'f resolved_image"
  | Existing "'f resolved_image"
  | Storing "'f resolved_image"
  | Stored "'f resolved_image"
  | Returning "string + 'f resolved_image"

text \<open>Where a call is that has not reached \<open>sf.Do\<close>.\<close>

datatype 'f call_phase = CallLocking hash | CallLooking hash | CallUnlocking "'f resolved_image option" | CallJoining

datatype goroutine = ByCall nat | ByFlight string

text \<open>A call comes with the key of its reference and platform; \<open>rv_called\<close> numbers the calls made, \<open>rv_waiting\<close> are those
  that wait in \<open>sf.Do\<close>.\<close>

record ('l, 'f) resolver =
  rv_fs :: "'f filesystem"
  rv_lock :: "goroutine option"
  rv_calls :: "(nat \<times> string \<times> 'f call_phase) list"
  rv_flights :: "(string \<times> ('l, 'f) phase) list"
  rv_waiting :: "(nat \<times> string) list"
  rv_results :: "(nat \<times> (string + 'f resolved_image)) list"
  rv_called :: nat

text \<open>The end of a flight: its result goes to every waiting call of its key.\<close>

definition land :: "string \<Rightarrow> string + 'f resolved_image \<Rightarrow> ('l, 'f) resolver \<Rightarrow> ('l, 'f) resolver" where
  "land key r v = v\<lparr>rv_flights := filter (\<lambda>x. fst x \<noteq> key) (rv_flights v),
     rv_waiting := filter (\<lambda>x. snd x \<noteq> key) (rv_waiting v),
     rv_results := map (\<lambda>x. (fst x, r)) (filter (\<lambda>x. snd x = key) (rv_waiting v)) @ rv_results v\<rparr>"

definition set_phase :: "string \<Rightarrow> ('l, 'f) phase \<Rightarrow> ('l, 'f) resolver \<Rightarrow> ('l, 'f) resolver" where
  "set_phase key p v = v\<lparr>rv_flights := AList.update key p (rv_flights v)\<rparr>"

definition set_call :: "nat \<Rightarrow> string \<Rightarrow> 'f call_phase \<Rightarrow> ('l, 'f) resolver \<Rightarrow> ('l, 'f) resolver" where
  "set_call c key p v = v\<lparr>rv_calls := AList.update c (key, p) (rv_calls v)\<rparr>"

definition leave_calls :: "nat \<Rightarrow> ('l, 'f) resolver \<Rightarrow> ('l, 'f) resolver" where
  "leave_calls c v = v\<lparr>rv_calls := filter (\<lambda>x. fst x \<noteq> c) (rv_calls v)\<rparr>"

text \<open>A call returns from the first look, or enters \<open>sf.Do\<close>.\<close>

definition return_hit :: "nat \<Rightarrow> 'f resolved_image \<Rightarrow> ('l, 'f) resolver \<Rightarrow> ('l, 'f) resolver" where
  "return_hit c ri v = (leave_calls c v)\<lparr>rv_results := (c, Inr ri) # rv_results v\<rparr>"

definition join_flight :: "nat \<Rightarrow> string \<Rightarrow> ('l, 'f) resolver \<Rightarrow> ('l, 'f) resolver" where
  "join_flight c key v =
     (let v1 = (leave_calls c v)\<lparr>rv_waiting := (c, key) # rv_waiting v\<rparr>
      in if map_of (rv_flights v) key = None then set_phase key Resolving v1 else v1)"

text \<open>A new call: only one for a digest looks into the map first.\<close>

definition first_phase :: "('l, 'f, 'w) services \<Rightarrow> reference \<Rightarrow> 'f call_phase" where
  "first_phase sv ref =
     (case ref of
        RefTag _ _ \<Rightarrow> CallJoining
      | RefDigest _ d \<Rightarrow> (case sv_new_hash sv d of Inl _ \<Rightarrow> CallJoining | Inr h \<Rightarrow> CallLocking h))"

definition call :: "('l, 'f, 'w) services \<Rightarrow> reference \<Rightarrow> string \<Rightarrow> ('l, 'f) resolver \<Rightarrow> ('l, 'f) resolver" where
  "call sv ref key v =
     v\<lparr>rv_called := Suc (rv_called v), rv_calls := (rv_called v, key, first_phase sv ref) # rv_calls v\<rparr>"

section \<open>Steps\<close>

text \<open>A step of a flight, on the image map and the mutex.  The outcomes of the registry and of opening layers are
  arbitrary: they depend on the world at that time.\<close>

inductive flight_step ::
  "('l, 'f, 'w) services \<Rightarrow> goroutine \<Rightarrow> ('l, 'f) phase \<times> 'f filesystem \<times> goroutine option \<Rightarrow>
   ('l, 'f) phase \<times> 'f filesystem \<times> goroutine option \<Rightarrow> bool"
  for sv :: "('l, 'f, 'w) services" and me where
  failed: "flight_step sv me (Resolving, f, k) (Returning (Inl e), f, k)"
| resolved: "flight_step sv me (Resolving, f, k) (Fetched img, f, k)"
| look_locks: "flight_step sv me (Fetched img, f, None) (Looking img, f, Some me)"
| found: "fs_images f (im_digest img) = Some ri \<Longrightarrow> flight_step sv me (Looking img, f, k) (Found ri, f, k)"
| missed: "fs_images f (im_digest img) = None \<Longrightarrow> flight_step sv me (Looking img, f, k) (Missed img, f, k)"
| found_unlocks: "flight_step sv me (Found ri, f, k) (Returning (Inr ri), f, None)"
| missed_unlocks: "flight_step sv me (Missed img, f, k) (Opening img, f, None)"
| unopened: "flight_step sv me (Opening img, f, k) (Returning (Inl e), f, k)"
| opened: "build_image sv img w = (Inr ri, w') \<Longrightarrow> flight_step sv me (Opening img, f, k) (Built ri, f, k)"
| check_locks: "flight_step sv me (Built ri, f, None) (Checking ri, f, Some me)"
| existing: "fs_images f (ri_digest ri) = Some ri' \<Longrightarrow> flight_step sv me (Checking ri, f, k) (Existing ri', f, k)"
| absent: "fs_images f (ri_digest ri) = None \<Longrightarrow> flight_step sv me (Checking ri, f, k) (Storing ri, f, k)"
| existing_unlocks: "flight_step sv me (Existing ri, f, k) (Returning (Inr ri), f, None)"
| stored: "flight_step sv me (Storing ri, f, k) (Stored ri, f\<lparr>fs_images := (fs_images f)(ri_digest ri \<mapsto> ri)\<rparr>, k)"
| stored_unlocks: "flight_step sv me (Stored ri, f, k) (Returning (Inr ri), f, None)"

inductive resolve_step :: "('l, 'f, 'w) services \<Rightarrow> ('l, 'f) resolver \<Rightarrow> ('l, 'f) resolver \<Rightarrow> bool" for sv where
  call_locks: "map_of (rv_calls v) c = Some (key, CallLocking h) \<Longrightarrow> rv_lock v = None \<Longrightarrow>
    resolve_step sv v (set_call c key (CallLooking h) (v\<lparr>rv_lock := Some (ByCall c)\<rparr>))"
| call_looks: "map_of (rv_calls v) c = Some (key, CallLooking h) \<Longrightarrow>
    resolve_step sv v (set_call c key (CallUnlocking (fs_images (rv_fs v) h)) v)"
| call_hits: "map_of (rv_calls v) c = Some (key, CallUnlocking (Some ri)) \<Longrightarrow>
    resolve_step sv v (return_hit c ri (v\<lparr>rv_lock := None\<rparr>))"
| call_misses: "map_of (rv_calls v) c = Some (key, CallUnlocking None) \<Longrightarrow>
    resolve_step sv v (set_call c key CallJoining (v\<lparr>rv_lock := None\<rparr>))"
| call_joins: "map_of (rv_calls v) c = Some (key, CallJoining) \<Longrightarrow> resolve_step sv v (join_flight c key v)"
| flies: "map_of (rv_flights v) key = Some p \<Longrightarrow> flight_step sv (ByFlight key) (p, rv_fs v, rv_lock v) (p', f', k') \<Longrightarrow>
    resolve_step sv v (set_phase key p' (v\<lparr>rv_fs := f', rv_lock := k'\<rparr>))"
| lands: "map_of (rv_flights v) key = Some (Returning r) \<Longrightarrow> resolve_step sv v (land key r v)"

inductive resolve_trace :: "('l, 'f, 'w) services \<Rightarrow> ('l, 'f) resolver \<Rightarrow> ('l, 'f) resolver \<Rightarrow> bool" for sv where
  start: "resolve_trace sv v v"
| called: "resolve_trace sv v v' \<Longrightarrow> resolve_trace sv v (call sv ref key v')"
| stepped: "resolve_trace sv v v' \<Longrightarrow> resolve_step sv v' v'' \<Longrightarrow> resolve_trace sv v v''"

inductive_cases resolve_stepE: "resolve_step sv v v'"
inductive_cases flight_stepE: "flight_step sv me (p, f, k) (p', f', k')"

inductive_simps flight_step_simps:
  "flight_step sv me (Resolving, f, k) (p', f', k')" "flight_step sv me (Fetched img, f, k) (p', f', k')"
  "flight_step sv me (Looking img, f, k) (p', f', k')" "flight_step sv me (Found ri, f, k) (p', f', k')"
  "flight_step sv me (Missed img, f, k) (p', f', k')" "flight_step sv me (Opening img, f, k) (p', f', k')"
  "flight_step sv me (Built ri, f, k) (p', f', k')" "flight_step sv me (Checking ri, f, k) (p', f', k')"
  "flight_step sv me (Existing ri, f, k) (p', f', k')" "flight_step sv me (Storing ri, f, k) (p', f', k')"
  "flight_step sv me (Stored ri, f, k) (p', f', k')" "flight_step sv me (Returning r, f, k) (p', f', k')"

section \<open>The fields that the updates change\<close>

lemma set_phase_fields [simp]:
  "rv_fs (set_phase key p v) = rv_fs v" "rv_lock (set_phase key p v) = rv_lock v" "rv_calls (set_phase key p v) = rv_calls v"
  "rv_waiting (set_phase key p v) = rv_waiting v" "rv_results (set_phase key p v) = rv_results v"
  "rv_called (set_phase key p v) = rv_called v"
  "map_of (rv_flights (set_phase key p v)) = (map_of (rv_flights v))(key \<mapsto> p)"
  by (simp_all add: set_phase_def update_conv')

lemma set_call_fields [simp]:
  "rv_fs (set_call c key p v) = rv_fs v" "rv_lock (set_call c key p v) = rv_lock v"
  "rv_flights (set_call c key p v) = rv_flights v" "rv_waiting (set_call c key p v) = rv_waiting v"
  "rv_results (set_call c key p v) = rv_results v" "rv_called (set_call c key p v) = rv_called v"
  "map_of (rv_calls (set_call c key p v)) = (map_of (rv_calls v))(c \<mapsto> (key, p))"
  by (simp_all add: set_call_def update_conv')

lemma leave_calls_fields [simp]:
  "rv_fs (leave_calls c v) = rv_fs v" "rv_lock (leave_calls c v) = rv_lock v"
  "rv_flights (leave_calls c v) = rv_flights v" "rv_waiting (leave_calls c v) = rv_waiting v"
  "rv_results (leave_calls c v) = rv_results v" "rv_called (leave_calls c v) = rv_called v"
  "map_of (rv_calls (leave_calls c v)) = (map_of (rv_calls v))(c := None)"
  by (simp_all add: leave_calls_def map_of_filter_fst [of "\<lambda>k. k \<noteq> c"] fun_eq_iff)

lemma return_hit_fields [simp]:
  "rv_fs (return_hit c ri v) = rv_fs v" "rv_lock (return_hit c ri v) = rv_lock v"
  "rv_flights (return_hit c ri v) = rv_flights v" "rv_waiting (return_hit c ri v) = rv_waiting v"
  "rv_results (return_hit c ri v) = (c, Inr ri) # rv_results v" "rv_called (return_hit c ri v) = rv_called v"
  "map_of (rv_calls (return_hit c ri v)) = (map_of (rv_calls v))(c := None)"
  by (simp_all add: return_hit_def)

lemma join_flight_fields [simp]:
  "rv_fs (join_flight c key v) = rv_fs v" "rv_lock (join_flight c key v) = rv_lock v"
  "map_of (rv_flights (join_flight c key v)) =
     (if map_of (rv_flights v) key = None then (map_of (rv_flights v))(key \<mapsto> Resolving) else map_of (rv_flights v))"
  "rv_waiting (join_flight c key v) = (c, key) # rv_waiting v"
  "rv_results (join_flight c key v) = rv_results v" "rv_called (join_flight c key v) = rv_called v"
  "map_of (rv_calls (join_flight c key v)) = (map_of (rv_calls v))(c := None)"
  by (simp_all add: join_flight_def Let_def)

lemma land_fields [simp]:
  "rv_fs (land key r v) = rv_fs v" "rv_lock (land key r v) = rv_lock v" "rv_calls (land key r v) = rv_calls v"
  "rv_called (land key r v) = rv_called v"
  "map_of (rv_flights (land key r v)) = (map_of (rv_flights v))(key := None)"
  by (simp_all add: land_def map_of_filter_fst [of "\<lambda>k. k \<noteq> key"] fun_eq_iff)

lemma call_fields [simp]:
  "rv_fs (call sv ref key v) = rv_fs v" "rv_lock (call sv ref key v) = rv_lock v"
  "rv_flights (call sv ref key v) = rv_flights v" "rv_waiting (call sv ref key v) = rv_waiting v"
  "rv_results (call sv ref key v) = rv_results v" "rv_called (call sv ref key v) = Suc (rv_called v)"
  "map_of (rv_calls (call sv ref key v)) = (map_of (rv_calls v))(rv_called v \<mapsto> (key, first_phase sv ref))"
  by (simp_all add: call_def)

section \<open>Who holds the mutex\<close>

fun holds :: "('l, 'f) phase \<Rightarrow> bool" where
  "holds (Looking _) = True" | "holds (Found _) = True" | "holds (Missed _) = True"
| "holds (Checking _) = True" | "holds (Existing _) = True" | "holds (Storing _) = True" | "holds (Stored _) = True"
| "holds _ = False"

fun call_holds :: "'f call_phase \<Rightarrow> bool" where
  "call_holds (CallLooking _) = True" | "call_holds (CallUnlocking _) = True" | "call_holds _ = False"

text \<open>The holder is one that stands between a \<open>Lock\<close> and the next \<open>Unlock\<close>, and nobody else does.\<close>

definition lock_ok :: "('l, 'f) resolver \<Rightarrow> bool" where
  "lock_ok v \<longleftrightarrow>
     (\<forall>key p. map_of (rv_flights v) key = Some p \<longrightarrow> (holds p \<longleftrightarrow> rv_lock v = Some (ByFlight key))) \<and>
     (\<forall>c key p. map_of (rv_calls v) c = Some (key, p) \<longrightarrow> (call_holds p \<longleftrightarrow> rv_lock v = Some (ByCall c))) \<and>
     (\<forall>key. rv_lock v = Some (ByFlight key) \<longrightarrow> map_of (rv_flights v) key \<noteq> None) \<and>
     (\<forall>c. rv_lock v = Some (ByCall c) \<longrightarrow> map_of (rv_calls v) c \<noteq> None)"

lemma lock_okD:
  assumes "lock_ok v"
  shows "map_of (rv_flights v) key = Some p \<Longrightarrow> holds p \<longleftrightarrow> rv_lock v = Some (ByFlight key)"
    "map_of (rv_calls v) c = Some (key, q) \<Longrightarrow> call_holds q \<longleftrightarrow> rv_lock v = Some (ByCall c)"
    "rv_lock v = Some (ByFlight key) \<Longrightarrow> \<exists>p. map_of (rv_flights v) key = Some p \<and> holds p"
    "rv_lock v = Some (ByCall c) \<Longrightarrow> \<exists>key p. map_of (rv_calls v) c = Some (key, p) \<and> call_holds p"
proof -
  have l: "\<And>key p. map_of (rv_flights v) key = Some p \<Longrightarrow> holds p \<longleftrightarrow> rv_lock v = Some (ByFlight key)"
    "\<And>c key p. map_of (rv_calls v) c = Some (key, p) \<Longrightarrow> call_holds p \<longleftrightarrow> rv_lock v = Some (ByCall c)"
    "\<And>key. rv_lock v = Some (ByFlight key) \<Longrightarrow> map_of (rv_flights v) key \<noteq> None"
    "\<And>c. rv_lock v = Some (ByCall c) \<Longrightarrow> map_of (rv_calls v) c \<noteq> None"
    using assms unfolding lock_ok_def by blast+
  show "map_of (rv_flights v) key = Some p \<Longrightarrow> holds p \<longleftrightarrow> rv_lock v = Some (ByFlight key)" by (rule l(1))
  show "map_of (rv_calls v) c = Some (key, q) \<Longrightarrow> call_holds q \<longleftrightarrow> rv_lock v = Some (ByCall c)" by (rule l(2))
  show "rv_lock v = Some (ByFlight key) \<Longrightarrow> \<exists>p. map_of (rv_flights v) key = Some p \<and> holds p"
    using l(1,3) by blast
  show "rv_lock v = Some (ByCall c) \<Longrightarrow> \<exists>key p. map_of (rv_calls v) c = Some (key, p) \<and> call_holds p"
    using l(2,4) by (metis option.exhaust surj_pair)
qed

text \<open>A flight takes the mutex when it is free, and releases it only when it holds it.\<close>

lemma flight_step_lock:
  assumes "flight_step sv me (p, f, k) (p', f', k')" "holds p \<longleftrightarrow> k = Some me"
  shows "holds p' \<longleftrightarrow> k' = Some me" "k' = k \<or> k = None \<and> k' = Some me \<or> k = Some me \<and> k' = None"
  using assms by (auto elim!: flight_stepE)

lemma lock_ok_flies:
  assumes "lock_ok v" "map_of (rv_flights v) key = Some p"
    and "flight_step sv (ByFlight key) (p, rv_fs v, rv_lock v) (p', f', k')"
  shows "lock_ok (set_phase key p' (v\<lparr>rv_fs := f', rv_lock := k'\<rparr>))"
proof -
  note f = flight_step_lock [OF assms(3) lock_okD(1) [OF assms(1,2)]]
  have l: "\<forall>key p. map_of (rv_flights v) key = Some p \<longrightarrow> (holds p \<longleftrightarrow> rv_lock v = Some (ByFlight key))"
    "\<forall>c key p. map_of (rv_calls v) c = Some (key, p) \<longrightarrow> (call_holds p \<longleftrightarrow> rv_lock v = Some (ByCall c))"
    "\<forall>key. rv_lock v = Some (ByFlight key) \<longrightarrow> map_of (rv_flights v) key \<noteq> None"
    "\<forall>c. rv_lock v = Some (ByCall c) \<longrightarrow> map_of (rv_calls v) c \<noteq> None"
    using assms(1) by (simp_all add: lock_ok_def)
  from f(2) show ?thesis
  proof (elim disjE conjE)
    assume "k' = rv_lock v"
    then show ?thesis using l f(1) by (simp add: lock_ok_def)
  next
    assume "rv_lock v = None" "k' = Some (ByFlight key)"
    then show ?thesis using l f(1) by (auto simp: lock_ok_def)
  next
    assume "rv_lock v = Some (ByFlight key)" "k' = None"
    then show ?thesis using l f(1) by (auto simp: lock_ok_def)
  qed
qed

lemma mutex_step: "resolve_step sv v v' \<Longrightarrow> lock_ok v \<Longrightarrow> lock_ok v'"
proof (induction rule: resolve_step.induct)
  case (flies v key p p' f' k')
  then show ?case by (intro lock_ok_flies)
next
  case (lands v key r)
  then have "rv_lock v \<noteq> Some (ByFlight key)" using lock_okD(1) [OF lands(2,1)] by simp
  then show ?case using lands by (auto simp: lock_ok_def)
next
  case (call_locks v c key h)
  then show ?case by (auto simp: lock_ok_def)
next
  case (call_looks v c key h)
  then have "rv_lock v = Some (ByCall c)" using lock_okD(2) [OF call_looks(2,1)] by simp
  then show ?case using call_looks by (auto simp: lock_ok_def)
next
  case (call_hits v c key ri)
  then have "rv_lock v = Some (ByCall c)" using lock_okD(2) [OF call_hits(2,1)] by simp
  then show ?case using call_hits by (auto simp: lock_ok_def)
next
  case (call_misses v c key)
  then have "rv_lock v = Some (ByCall c)" using lock_okD(2) [OF call_misses(2,1)] by simp
  then show ?case using call_misses by (auto simp: lock_ok_def)
next
  case (call_joins v c key)
  then have "rv_lock v \<noteq> Some (ByCall c)" using lock_okD(2) [OF call_joins(2,1)] by simp
  then show ?case using call_joins by (auto simp: lock_ok_def)
qed

section \<open>Calls, flights and results\<close>

text \<open>Flights and calls have distinct keys and numbers; each call made has yet to reach \<open>sf.Do\<close>, waits there for a flight or
  has one result.\<close>

definition flights_ok :: "('l, 'f) resolver \<Rightarrow> bool" where
  "flights_ok v \<longleftrightarrow> distinct (akeys (rv_flights v)) \<and> distinct (akeys (rv_calls v)) \<and>
     set (akeys (rv_calls v)) \<subseteq> {..<rv_called v}"

definition joined :: "('l, 'f) resolver \<Rightarrow> nat set" where
  "joined v = {..<rv_called v} - set (akeys (rv_calls v))"

interpretation resolves: singleflight "\<lambda>v. set (akeys (rv_flights v))" rv_waiting rv_results joined land
  by unfold_locales (auto simp: land_def akeys_def joined_def)

definition calls_ok :: "('l, 'f) resolver \<Rightarrow> bool" where
  "calls_ok v \<longleftrightarrow> group_ok (set (akeys (rv_flights v))) (rv_waiting v) (rv_results v) (joined v)"

lemma joined_simps [simp]:
  "joined (set_phase key p v) = joined v" "joined (land key r v) = joined v" "joined (v\<lparr>rv_fs := f\<rparr>) = joined v"
  "joined (v\<lparr>rv_lock := k\<rparr>) = joined v" "joined (v\<lparr>rv_waiting := ws\<rparr>) = joined v" "joined (v\<lparr>rv_results := rs\<rparr>) = joined v"
  by (simp_all add: joined_def set_phase_def land_def)

lemma joined_set_call [simp]: "map_of (rv_calls v) c \<noteq> None \<Longrightarrow> joined (set_call c key p v) = joined v"
  by (auto simp: joined_def set_akeys)

lemma joined_leave:
  assumes "flights_ok v" "map_of (rv_calls v) c \<noteq> None"
  shows "joined (leave_calls c v) = insert c (joined v)" "c \<notin> joined v"
  using assms by (auto simp: joined_def set_akeys flights_ok_def)

lemma joined_call: "flights_ok v \<Longrightarrow> joined (call sv ref key v) = joined v"
  by (auto simp: joined_def set_akeys flights_ok_def)

lemma set_phase_keys: "set (akeys (rv_flights (set_phase key p v))) = insert key (set (akeys (rv_flights v)))"
  by (simp add: set_akeys)

lemma flights_ok_simps:
  "flights_ok v \<Longrightarrow> flights_ok (set_phase key p v)" "flights_ok v \<Longrightarrow> flights_ok (land key r v)"
  "flights_ok v \<Longrightarrow> flights_ok (leave_calls c v)"
  "flights_ok v \<Longrightarrow> map_of (rv_calls v) c \<noteq> None \<Longrightarrow> flights_ok (set_call c key q v)"
proof -
  assume ok: "flights_ok v"
  then have d: "distinct (akeys (rv_flights v))" "distinct (akeys (rv_calls v))" "dom (map_of (rv_calls v)) \<subseteq> {..<rv_called v}"
    by (simp_all add: flights_ok_def set_akeys)
  show "flights_ok (set_phase key p v)"
    using d by (simp add: flights_ok_def set_akeys) (simp add: set_phase_def distinct_akeys_update)
  show "flights_ok (land key r v)"
    using d by (simp add: flights_ok_def set_akeys) (simp add: land_def distinct_akeys_filter)
  have "distinct (akeys (rv_calls (leave_calls c v)))" using d(2) by (simp add: leave_calls_def distinct_akeys_filter)
  then show "flights_ok (leave_calls c v)" using d by (auto simp: flights_ok_def set_akeys)
  assume c: "map_of (rv_calls v) c \<noteq> None"
  have "distinct (akeys (rv_calls (set_call c key q v)))" using d(2) by (simp add: set_call_def distinct_akeys_update)
  then show "flights_ok (set_call c key q v)" using d c by (auto simp: flights_ok_def set_akeys)
qed

lemma flights_ok_fields [simp]:
  "flights_ok (v\<lparr>rv_fs := f\<rparr>) = flights_ok v" "flights_ok (v\<lparr>rv_lock := k\<rparr>) = flights_ok v"
  "flights_ok (v\<lparr>rv_waiting := ws\<rparr>) = flights_ok v" "flights_ok (v\<lparr>rv_results := rs\<rparr>) = flights_ok v"
  by (simp_all add: flights_ok_def)

lemma flights_ok_step: "resolve_step sv v v' \<Longrightarrow> flights_ok v \<Longrightarrow> flights_ok v'"
  by (induction rule: resolve_step.induct) (auto simp: flights_ok_simps return_hit_def join_flight_def Let_def)

lemma calls_ok_keep:
  "calls_ok v \<Longrightarrow> rv_waiting u = rv_waiting v \<Longrightarrow> rv_results u = rv_results v \<Longrightarrow> joined u = joined v \<Longrightarrow>
    set (akeys (rv_flights v)) \<subseteq> set (akeys (rv_flights u)) \<Longrightarrow> calls_ok u"
  by (auto simp: calls_ok_def intro: group_ok_mono)

lemma calls_ok_step: "resolve_step sv v v' \<Longrightarrow> flights_ok v \<Longrightarrow> calls_ok v \<Longrightarrow> calls_ok v'"
proof (induction rule: resolve_step.induct)
  case (call_hits v c key ri)
  then have "joined (return_hit c ri (v\<lparr>rv_lock := None\<rparr>)) = insert c (joined v)" "c \<notin> joined v"
    using joined_leave [of "v\<lparr>rv_lock := None\<rparr>" c] by (simp_all add: return_hit_def)
  then show ?case using call_hits.prems(2) group_ok_call(2) by (simp add: calls_ok_def)
next
  case (call_joins v c key)
  then have j: "joined (join_flight c key v) = insert c (joined v)" "c \<notin> joined v"
    using joined_leave [of v c] by (simp_all add: join_flight_def Let_def)
  have "set (akeys (rv_flights (join_flight c key v))) = insert key (set (akeys (rv_flights v)))"
    by (auto simp: set_akeys)
  then show ?case using call_joins.prems(2) j group_ok_call(1) by (simp add: calls_ok_def)
next
  case (lands v key r)
  then show ?case unfolding calls_ok_def by (intro resolves.land_ok)
next
  case (flies v key p p' f' k')
  from flies.prems(2) show ?case
    by (rule calls_ok_keep) (auto simp: set_akeys)
next
  case (call_locks v c key h)
  from call_locks.prems(2) show ?case by (rule calls_ok_keep) (simp_all add: call_locks.hyps(1))
next
  case (call_looks v c key h)
  from call_looks.prems(2) show ?case by (rule calls_ok_keep) (simp_all add: call_looks.hyps(1))
next
  case (call_misses v c key)
  from call_misses.prems(2) show ?case by (rule calls_ok_keep) (simp_all add: call_misses.hyps(1))
qed

section \<open>Images\<close>

text \<open>What a flight carries: an image that is in the map, or one that has been built; one that it is about to store is not in the
  map, because it has held the mutex since it looked.\<close>

definition in_map :: "'f filesystem \<Rightarrow> 'f resolved_image \<Rightarrow> bool" where
  "in_map f ri \<longleftrightarrow> fs_images f (ri_digest ri) = Some ri"

definition merged :: "('l, 'f, 'w) services \<Rightarrow> 'f resolved_image \<Rightarrow> bool" where
  "merged sv ri \<longleftrightarrow> ri_tree ri = Merge (sv_sort sv) (map ly_entries (ri_layers ri))"

fun phase_ok :: "('l, 'f, 'w) services \<Rightarrow> 'f filesystem \<Rightarrow> ('l, 'f) phase \<Rightarrow> bool" where
  "phase_ok sv f (Found ri) = in_map f ri"
| "phase_ok sv f (Existing ri) = in_map f ri"
| "phase_ok sv f (Stored ri) = in_map f ri"
| "phase_ok sv f (Returning r) = (case r of Inl _ \<Rightarrow> True | Inr ri \<Rightarrow> in_map f ri)"
| "phase_ok sv f (Built ri) = merged sv ri"
| "phase_ok sv f (Checking ri) = merged sv ri"
| "phase_ok sv f (Storing ri) = (merged sv ri \<and> fs_images f (ri_digest ri) = None)"
| "phase_ok sv f _ = True"

text \<open>The image map is sound, and every image returned or about to be returned is the one in the map.\<close>

definition results_ok :: "('l, 'f, 'w) services \<Rightarrow> ('l, 'f) resolver \<Rightarrow> bool" where
  "results_ok sv v \<longleftrightarrow> images_ok sv (rv_fs v) \<and>
     (\<forall>c ri. (c, Inr ri) \<in> set (rv_results v) \<longrightarrow> in_map (rv_fs v) ri) \<and>
     (\<forall>c key ri. map_of (rv_calls v) c = Some (key, CallUnlocking (Some ri)) \<longrightarrow> in_map (rv_fs v) ri) \<and>
     (\<forall>key p. map_of (rv_flights v) key = Some p \<longrightarrow> phase_ok sv (rv_fs v) p)"

lemma images_ok_in_map: "images_ok sv f \<Longrightarrow> fs_images f h = Some ri \<Longrightarrow> in_map f ri"
  by (auto simp: images_ok_def in_map_def)

lemma flight_step_ok:
  assumes "flight_step sv me (p, f, k) (p', f', k')" "phase_ok sv f p" "images_ok sv f"
  shows "phase_ok sv f' p'" "images_ok sv f'" "in_map f ri \<Longrightarrow> in_map f' ri" "\<not> holds p \<Longrightarrow> f' = f"
    "f' = f \<or> (\<exists>ri. p = Storing ri)"
proof -
  have "phase_ok sv f' p' \<and> images_ok sv f' \<and> (\<forall>ri. in_map f ri \<longrightarrow> in_map f' ri) \<and> (f' = f \<or> (\<exists>ri. p = Storing ri))"
  proof (cases "\<exists>ri. p = Storing ri")
    case True
    then obtain x where p: "p = Storing x" by blast
    then have f': "f' = f\<lparr>fs_images := (fs_images f)(ri_digest x \<mapsto> x)\<rparr>" "p' = Stored x"
      using assms(1) by (simp_all add: flight_step_simps)
    have x: "merged sv x" "fs_images f (ri_digest x) = None" using assms(2) p by simp_all
    have "images_ok sv f'" using assms(3) x(1) unfolding images_ok_def merged_def f'(1) by simp
    moreover have "in_map f ri \<Longrightarrow> in_map f' ri" for ri using x(2) unfolding in_map_def f'(1) by (cases "ri_digest ri = ri_digest x") simp_all
    moreover have "phase_ok sv f' p'" by (simp add: f' in_map_def)
    ultimately show ?thesis using p by blast
  next
    case False
    then have "f' = f" using assms(1) by (cases p) (auto simp: flight_step_simps)
    moreover have "phase_ok sv f p'"
    proof (cases p)
      case (Opening img)
      then show ?thesis using assms(1) by (auto simp: flight_step_simps merged_def dest: build_image_digest)
    next
      case (Looking img)
      then show ?thesis using assms(1) images_ok_in_map [OF assms(3)] by (auto simp: flight_step_simps)
    next
      case (Checking ri)
      then show ?thesis using assms(1,2) images_ok_in_map [OF assms(3)] by (auto simp: flight_step_simps)
    qed (use assms(1,2) False in \<open>auto simp: flight_step_simps\<close>)
    ultimately show ?thesis using assms(3) by simp
  qed
  then show "phase_ok sv f' p'" "images_ok sv f'" "in_map f ri \<Longrightarrow> in_map f' ri" "\<not> holds p \<Longrightarrow> f' = f"
    "f' = f \<or> (\<exists>ri. p = Storing ri)" by auto
qed

lemma phase_ok_mono:
  assumes "phase_ok sv f p" "\<not> holds p \<or> f' = f" "\<And>ri. in_map f ri \<Longrightarrow> in_map f' ri"
  shows "phase_ok sv f' p"
  using assms by (cases p) (auto split: sum.splits)

lemma results_ok_flies:
  assumes "results_ok sv v" "lock_ok v" "map_of (rv_flights v) key = Some p"
    and "flight_step sv (ByFlight key) (p, rv_fs v, rv_lock v) (p', f', k')"
  shows "results_ok sv (set_phase key p' (v\<lparr>rv_fs := f', rv_lock := k'\<rparr>))"
proof -
  have r: "images_ok sv (rv_fs v)" "\<And>c ri. (c, Inr ri) \<in> set (rv_results v) \<Longrightarrow> in_map (rv_fs v) ri"
    "\<And>c key ri. map_of (rv_calls v) c = Some (key, CallUnlocking (Some ri)) \<Longrightarrow> in_map (rv_fs v) ri"
    "\<And>key p. map_of (rv_flights v) key = Some p \<Longrightarrow> phase_ok sv (rv_fs v) p"
    using assms(1) unfolding results_ok_def by blast+
  note f = flight_step_ok [OF assms(4) r(4) [OF assms(3)] r(1)]
  have "phase_ok sv f' q" if q: "map_of (rv_flights v) j = Some q" "j \<noteq> key" for j q
  proof (rule phase_ok_mono [OF r(4) [OF q(1)] _ f(3)])
    show "\<not> holds q \<or> f' = rv_fs v"
    proof (cases "holds p")
      case True
      then have "rv_lock v = Some (ByFlight key)" using lock_okD(1) [OF assms(2,3)] by simp
      then show ?thesis using lock_okD(1) [OF assms(2) q(1)] q(2) by simp
    qed (use f(4) in simp)
  qed
  then show ?thesis using r f(1-3) by (auto simp: results_ok_def)
qed

lemma results_ok_step:
  assumes "resolve_step sv v v'" "lock_ok v" "results_ok sv v"
  shows "results_ok sv v'"
  using assms
proof (induction rule: resolve_step.induct)
  case (flies v key p p' f' k')
  then show ?case by (intro results_ok_flies)
next
  case (lands v key r)
  then have "phase_ok sv (rv_fs v) (Returning r)" unfolding results_ok_def by blast
  then have "in_map (rv_fs v) ri" if "r = Inr ri" for ri using that by simp
  then show ?case using lands.prems(2) by (auto simp: results_ok_def resolves.land_result_cases)
qed (auto simp: results_ok_def images_ok_in_map split: if_splits)

section \<open>Runs\<close>

text \<open>A file system that has just been mounted.\<close>

definition fresh :: "('l, 'f) resolver \<Rightarrow> bool" where
  "fresh v \<longleftrightarrow> fs_images (rv_fs v) = Map.empty \<and> rv_lock v = None \<and> rv_calls v = [] \<and> rv_flights v = [] \<and>
     rv_waiting v = [] \<and> rv_results v = [] \<and> rv_called v = 0"

abbreviation resolver_ok where
  "resolver_ok sv v \<equiv> lock_ok v \<and> flights_ok v \<and> calls_ok v \<and> results_ok sv v"

lemma fresh_ok: "fresh v \<Longrightarrow> resolver_ok sv v"
  by (simp add: fresh_def lock_ok_def flights_ok_def calls_ok_def joined_def results_ok_def images_ok_def group_ok_none akeys_def)

lemma call_phase_cases:
  obtains "first_phase sv ref = CallJoining" | h where "first_phase sv ref = CallLocking h"
proof (cases ref)
  case (RefDigest c d)
  then show ?thesis using that by (cases "sv_new_hash sv d") (simp_all add: first_phase_def)
qed (use that in \<open>simp add: first_phase_def\<close>)

lemma call_ok:
  assumes "resolver_ok sv v"
  shows "resolver_ok sv (call sv ref key v)"
proof -
  let ?u = "call sv ref key v"
  have none: "map_of (rv_calls v) (rv_called v) = None"
    using assms by (auto simp: flights_ok_def set_akeys domIff)
  have no_lock: "rv_lock v \<noteq> Some (ByCall (rv_called v))" using assms none lock_okD(4) by fastforce
  have free: "\<not> call_holds (first_phase sv ref)" "first_phase sv ref \<noteq> CallUnlocking x" for x
    by (cases rule: call_phase_cases [of sv ref]; simp)+
  have "lock_ok ?u" using assms no_lock none free(1) by (auto simp: lock_ok_def)
  moreover have "flights_ok ?u"
    using assms none by (auto simp: flights_ok_def call_def set_akeys domIff less_Suc_eq)
  moreover have "calls_ok ?u"
    using assms joined_call [of v sv ref key] by (simp add: calls_ok_def)
  moreover have "results_ok sv ?u" using assms free(2) by (auto simp: results_ok_def split: if_splits)
  ultimately show ?thesis by simp
qed

lemma step_ok: "resolve_step sv v v' \<Longrightarrow> resolver_ok sv v \<Longrightarrow> resolver_ok sv v'"
  using mutex_step flights_ok_step calls_ok_step results_ok_step by blast

lemma trace_ok: "resolve_trace sv v v' \<Longrightarrow> resolver_ok sv v \<Longrightarrow> resolver_ok sv v'"
  by (induction rule: resolve_trace.induct) (use call_ok step_ok in blast)+

section \<open>Progress\<close>

text \<open>The steps that are left: for a flight to its landing, for a call to its result or through its flight.\<close>

fun phase_rank :: "('l, 'f) phase \<Rightarrow> nat" where
  "phase_rank Resolving = 10" | "phase_rank (Fetched _) = 9" | "phase_rank (Looking _) = 8" | "phase_rank (Found _) = 2"
| "phase_rank (Missed _) = 7" | "phase_rank (Opening _) = 6" | "phase_rank (Built _) = 5" | "phase_rank (Checking _) = 4"
| "phase_rank (Existing _) = 2" | "phase_rank (Storing _) = 3" | "phase_rank (Stored _) = 2" | "phase_rank (Returning _) = 1"

fun call_rank :: "'f call_phase \<Rightarrow> nat" where
  "call_rank (CallLocking _) = 14" | "call_rank (CallLooking _) = 13" | "call_rank (CallUnlocking _) = 12" | "call_rank CallJoining = 11"

definition ranks :: "('v \<Rightarrow> nat) \<Rightarrow> ('k \<times> 'v) list \<Rightarrow> nat" where
  "ranks rank al = sum_list (map (rank \<circ> snd) al)"

definition work :: "('l, 'f) resolver \<Rightarrow> nat" where
  "work v = ranks phase_rank (rv_flights v) + ranks (call_rank \<circ> snd) (rv_calls v)"

lemma ranks_simps [simp]: "ranks rank [] = 0" "ranks rank ((k, x) # al) = rank x + ranks rank al"
  by (simp_all add: ranks_def)

lemma ranks_le: "map_of al k = Some y \<Longrightarrow> rank y \<le> ranks rank al"
proof (induction al)
  case (Cons a al)
  then show ?case by (cases a) (auto split: if_splits)
qed simp

lemma ranks_update:
  "ranks rank (AList.update k x al) =
    (case map_of al k of None \<Rightarrow> ranks rank al + rank x | Some y \<Rightarrow> ranks rank al - rank y + rank x)"
proof (induction al)
  case (Cons a al)
  then show ?case using ranks_le [of al k _ rank] by (cases a) (auto split: option.splits)
qed simp

lemma ranks_remove: "map_of al k = Some y \<Longrightarrow> distinct (akeys al) \<Longrightarrow> ranks rank (filter (\<lambda>x. fst x \<noteq> k) al) + rank y = ranks rank al"
proof (induction al)
  case (Cons a al)
  have "filter (\<lambda>x. fst x \<noteq> fst a) al = al" using Cons.prems(2) by (auto simp: filter_id_conv akeys_def image_iff)
  then show ?case using Cons by (cases a) auto
qed simp

lemma flight_step_rank: "flight_step sv me (p, f, k) (p', f', k') \<Longrightarrow> phase_rank p' < phase_rank p"
  by (cases p) (auto simp: flight_step_simps)

lemma step_work:
  assumes "resolve_step sv v v'" "flights_ok v"
  shows "work v' < work v \<and> rv_called v' = rv_called v"
  using assms
proof (induction rule: resolve_step.induct)
  case (flies v key p p' f' k')
  then show ?case
    using flight_step_rank [OF flies.hyps(2)] ranks_le [OF flies.hyps(1), of phase_rank]
    by (simp add: work_def set_phase_def ranks_update)
next
  case (lands v key r)
  then show ?case
    using ranks_remove [OF lands.hyps(1), of phase_rank] by (simp add: work_def land_def flights_ok_def)
next
  case (call_hits v c key ri)
  then show ?case
    using ranks_remove [OF call_hits.hyps(1), of "call_rank \<circ> snd"] by (simp add: work_def return_hit_def leave_calls_def flights_ok_def)
next
  case (call_joins v c key)
  then show ?case
    using ranks_remove [OF call_joins.hyps(1), of "call_rank \<circ> snd"]
    by (simp add: work_def join_flight_def leave_calls_def set_phase_def flights_ok_def Let_def ranks_update)
next
  case (call_locks v c key h)
  then show ?case
    using ranks_le [OF call_locks.hyps(1), of "call_rank \<circ> snd"] by (simp add: work_def set_call_def ranks_update)
next
  case (call_looks v c key h)
  then show ?case
    using ranks_le [OF call_looks.hyps(1), of "call_rank \<circ> snd"] by (simp add: work_def set_call_def ranks_update)
next
  case (call_misses v c key)
  then show ?case
    using ranks_le [OF call_misses.hyps(1), of "call_rank \<circ> snd"] by (simp add: work_def set_call_def ranks_update)
qed

lemma ranks_bound: "(\<And>x. rank x \<le> n) \<Longrightarrow> ranks rank al \<le> n * length al"
proof (induction al)
  case (Cons a al)
  then show ?case using Cons.prems [of "snd a"] by (cases a) (simp add: add_mono)
qed simp

lemma work_le: "work v \<le> 10 * length (rv_flights v) + 14 * length (rv_calls v)"
proof -
  have "phase_rank p \<le> 10" for p :: "('l, 'f) phase" by (cases p) simp_all
  moreover have "call_rank q \<le> 14" for q :: "'f call_phase" by (cases q) simp_all
  ultimately show ?thesis
    unfolding work_def by (intro add_mono ranks_bound) simp_all
qed

text \<open>No deadlock: whoever holds the mutex can take a step, and when nobody does everybody can.\<close>

lemma flight_enabled:
  assumes "map_of (rv_flights v) key = Some p" "holds p \<or> rv_lock v = None"
  shows "\<exists>v'. resolve_step sv v v'"
proof (cases "\<exists>r. p = Returning r")
  case True
  then show ?thesis using resolve_step.lands assms(1) by blast
next
  case False
  have "\<exists>p' f' k'. flight_step sv (ByFlight key) (p, rv_fs v, rv_lock v) (p', f', k')"
  proof (cases p)
    case (Looking img)
    then show ?thesis
      using flight_step.found [of "rv_fs v" img _ sv] flight_step.missed [of "rv_fs v" img sv]
      by (cases "fs_images (rv_fs v) (im_digest img)") blast+
  next
    case (Checking ri)
    then show ?thesis
      using flight_step.existing [of "rv_fs v" ri _ sv] flight_step.absent [of "rv_fs v" ri sv]
      by (cases "fs_images (rv_fs v) (ri_digest ri)") blast+
  qed (use assms(2) False in \<open>auto simp: flight_step_simps\<close>)
  then show ?thesis using resolve_step.flies [OF assms(1)] by blast
qed

lemma call_enabled:
  assumes "map_of (rv_calls v) c = Some (key, p)" "call_holds p \<or> rv_lock v = None"
  shows "\<exists>v'. resolve_step sv v v'"
proof (cases p)
  case (CallLocking h)
  then show ?thesis using resolve_step.call_locks assms by fastforce
next
  case (CallLooking h)
  then show ?thesis using resolve_step.call_looks assms(1) by blast
next
  case (CallUnlocking x)
  then show ?thesis using resolve_step.call_hits resolve_step.call_misses assms(1) by (cases x) blast+
next
  case CallJoining
  then show ?thesis using resolve_step.call_joins assms(1) by blast
qed

lemma step_enabled:
  assumes "lock_ok v" "rv_flights v \<noteq> [] \<or> rv_calls v \<noteq> []"
  shows "\<exists>v'. resolve_step sv v v'"
proof (cases "rv_lock v")
  case None
  from assms(2) show ?thesis
  proof
    assume "rv_flights v \<noteq> []"
    then obtain key p where "map_of (rv_flights v) key = Some p" by (cases "rv_flights v") force+
    then show ?thesis using flight_enabled None by blast
  next
    assume "rv_calls v \<noteq> []"
    then obtain c x where "map_of (rv_calls v) c = Some x" by (cases "rv_calls v") force+
    then obtain key p where "map_of (rv_calls v) c = Some (key, p)" by (cases x) simp
    then show ?thesis using call_enabled None by blast
  qed
next
  case (Some g)
  then show ?thesis
    using lock_okD(3,4) [OF assms(1)] flight_enabled call_enabled by (cases g) blast+
qed

end
