(* ===== verification/Resolve_Props.thy ===== *)
theory Resolve_Props
  imports Resolve_Steps Mount_Props
begin

text \<open>
  Concurrent resolutions of images: they agree, and each returns.
\<close>

section \<open>Agreement\<close>

text \<open>C23. Concurrent resolutions agree: whatever the interleaving of calls and of the steps of their
  flights, whatever the registry answers and whatever the disk holds meanwhile, two calls that return an image with the
  same digest return the same image, the one that stays in the image map, and its tree is the
  merge of its layers.\<close>

theorem concurrent_resolves_agree:
  assumes "fresh v0" "resolve_trace sv v0 v"
    and "(c1, Inr r1) \<in> set (rv_results v)" "(c2, Inr r2) \<in> set (rv_results v)" "ri_digest r1 = ri_digest r2"
  shows "r1 = r2 \<and> fs_images (rv_fs v) (ri_digest r1) = Some r1 \<and>
    ri_tree r1 = Merge (sv_sort sv) (map ly_entries (ri_layers r1))"
proof -
  have "results_ok sv v" using trace_ok [OF assms(2)] fresh_ok [OF assms(1)] by blast
  then have known: "in_map (rv_fs v) r1" "in_map (rv_fs v) r2" and maps: "images_ok sv (rv_fs v)"
    using assms(3,4) unfolding results_ok_def by blast+
  then have "ri_tree r1 = Merge (sv_sort sv) (map ly_entries (ri_layers r1))"
    unfolding images_ok_def in_map_def by blast
  moreover have "r1 = r2" using known assms(5) by (simp add: in_map_def)
  ultimately show ?thesis using known(1) by (simp add: in_map_def)
qed

section \<open>Every call returns\<close>

lemma steps_work:
  "(resolve_step sv ^^ n) v v' \<Longrightarrow> resolver_ok sv v \<Longrightarrow>
    n + work v' \<le> work v \<and> rv_called v' = rv_called v \<and> resolver_ok sv v'"
proof (induction n arbitrary: v')
  case (Suc n)
  then obtain u where u: "(resolve_step sv ^^ n) v u" "resolve_step sv u v'" by auto
  have ok: "n + work u \<le> work v" "rv_called u = rv_called v" "resolver_ok sv u" using Suc.IH [OF u(1) Suc.prems(2)] by blast+
  then have "work v' < work u" "rv_called v' = rv_called u" "resolver_ok sv v'"
    using step_work [OF u(2)] step_ok [OF u(2)] by blast+
  then show ?case using ok by simp
qed simp

text \<open>C27. Every call returns, once: from any state that calls and steps lead to, at most ten steps are left for each
  flight and fourteen for each call that has not reached the flight of its key.  When no step is left, no call
  is under way or waits, nobody holds the mutex, and each of the calls made has exactly one result: whatever the
  interleaving and the outcomes, nobody blocks on the mutex for good.\<close>

theorem resolves_return:
  assumes "fresh v0" "resolve_trace sv v0 v" "(resolve_step sv ^^ n) v v'"
  shows "n \<le> 10 * length (rv_flights v) + 14 * length (rv_calls v) \<and>
    ((\<forall>v''. \<not> resolve_step sv v' v'') \<longrightarrow>
      rv_lock v' = None \<and> rv_calls v' = [] \<and> rv_waiting v' = [] \<and>
      distinct (map fst (rv_results v')) \<and> fst ` set (rv_results v') = {..<rv_called v})"
proof -
  have ok: "resolver_ok sv v" using trace_ok [OF assms(2)] fresh_ok [OF assms(1)] by blast
  have w: "n + work v' \<le> work v" "rv_called v' = rv_called v" and ok': "resolver_ok sv v'"
    using steps_work [OF assms(3) ok] by blast+
  have "rv_lock v' = None \<and> rv_calls v' = [] \<and> rv_waiting v' = [] \<and> distinct (map fst (rv_results v')) \<and>
      fst ` set (rv_results v') = {..<rv_called v}" if "\<forall>v''. \<not> resolve_step sv v' v''"
  proof -
    have idle: "rv_flights v' = []" "rv_calls v' = []" using that step_enabled ok' by blast+
    then have "rv_lock v' = None" using ok' lock_okD(3,4) by (cases "rv_lock v'"; metis goroutine.exhaust map_of.simps(1) option.distinct(1))
    moreover have "joined v' = {..<rv_called v}" using idle w(2) by (simp add: joined_def akeys_def)
    ultimately show ?thesis
      using resolves.all_returned [of v'] ok' idle by (simp add: calls_ok_def akeys_def)
  qed
  moreover have "n \<le> 10 * length (rv_flights v) + 14 * length (rv_calls v)" using w(1) work_le [of v] by linarith
  ultimately show ?thesis by blast
qed

section \<open>A single call\<close>

text \<open>The function \<open>resolve_image\<close>, a call with nobody else around, is a run of the relation: a
  call followed by steps, with the same result and image map.\<close>

lemma update_same: "map_of al k = Some x \<Longrightarrow> AList.update k x al = al"
proof (induction al)
  case (Cons a al)
  then show ?case by (cases a) (auto split: if_splits)
qed simp

lemma update_twice: "AList.update k x (AList.update k y al) = AList.update k x al"
proof (induction al)
  case (Cons a al)
  then show ?case by (cases a) auto
qed simp

lemma flies_run:
  assumes "(flight_step sv (ByFlight key))\<^sup>*\<^sup>* (p, rv_fs v, rv_lock v) (p', f', k')" "map_of (rv_flights v) key = Some p"
  shows "(resolve_step sv)\<^sup>*\<^sup>* v (set_phase key p' (v\<lparr>rv_fs := f', rv_lock := k'\<rparr>))"
  using assms(1)
proof (induction "(p', f', k')" arbitrary: p' f' k' rule: rtranclp_induct)
  case base
  then show ?case using assms(2) by (simp add: set_phase_def update_same)
next
  case (step y)
  obtain q g j where y: "y = (q, g, j)" by (metis prod.exhaust)
  let ?u = "set_phase key q (v\<lparr>rv_fs := g, rv_lock := j\<rparr>)"
  have "resolve_step sv ?u (set_phase key p' (?u\<lparr>rv_fs := f', rv_lock := k'\<rparr>))"
    using step.hyps(2) by (intro resolve_step.flies) (simp_all add: y)
  moreover have "set_phase key p' (?u\<lparr>rv_fs := f', rv_lock := k'\<rparr>) = set_phase key p' (v\<lparr>rv_fs := f', rv_lock := k'\<rparr>)"
    by (simp add: set_phase_def update_twice)
  ultimately show ?case using step.hyps(3) [OF y] by simp
qed

lemma flight_run:
  assumes "resolve_image sv f ref platform w = (r, f', w')" "cached_image sv f ref = None"
  shows "(flight_step sv me)\<^sup>*\<^sup>* (Resolving, f, None) (Returning r, f', None)"
proof -
  note run = converse_rtranclp_into_rtranclp [of "flight_step sv me"]
  obtain x w1 where res: "sv_resolve sv ref platform w = (x, w1)" by force
  show ?thesis
  proof (cases x)
    case (Inl e)
    then have "r = Inl e" "f' = f" using assms res by (simp_all add: resolve_image_def)
    then show ?thesis using run [OF flight_step.failed] by blast
  next
    case img: (Inr img)
    have look: "(flight_step sv me)\<^sup>*\<^sup>* (Resolving, f, None) (Looking img, f, Some me)"
      by (rule run [OF flight_step.resolved [where img = img] run [OF flight_step.look_locks]]) simp
    show ?thesis
    proof (cases "fs_images f (im_digest img)")
      case (Some ri)
      then have "r = Inr ri" "f' = f" using assms res img by (simp_all add: resolve_image_def)
      then have "(flight_step sv me)\<^sup>*\<^sup>* (Looking img, f, Some me) (Returning r, f', None)"
        using run [OF flight_step.found [OF Some] run [OF flight_step.found_unlocks]] by simp
      then show ?thesis using look by simp
    next
      case None
      have miss: "(flight_step sv me)\<^sup>*\<^sup>* (Looking img, f, Some me) (Opening img, f, None)"
        using run [OF flight_step.missed [OF None] run [OF flight_step.missed_unlocks]] by simp
      obtain y w2 where b: "build_image sv img w1 = (y, w2)" by force
      have "(flight_step sv me)\<^sup>*\<^sup>* (Opening img, f, None) (Returning r, f', None)"
      proof (cases y)
        case (Inl e)
        then have "r = Inl e" "f' = f" using assms res img None b by (simp_all add: resolve_image_def)
        then show ?thesis using run [OF flight_step.unopened] by blast
      next
        case ri: (Inr ri)
        have digest: "ri_digest ri = im_digest img" using build_image_digest [OF b [unfolded ri]] by simp
        then have res': "r = Inr ri" "f' = f\<lparr>fs_images := (fs_images f)(ri_digest ri \<mapsto> ri)\<rparr>"
          using assms res img None b ri by (simp_all add: resolve_image_def insert_image_def)
        have "(flight_step sv me)\<^sup>*\<^sup>* (Checking ri, f, Some me) (Returning r, f', None)"
          unfolding res' using None digest
          by (intro run [OF flight_step.absent run [OF flight_step.stored run [OF flight_step.stored_unlocks]]]) simp_all
        then show ?thesis using run [OF flight_step.opened [OF b [unfolded ri]] run [OF flight_step.check_locks]] by blast
      qed
      then show ?thesis using look miss by simp
    qed
  qed
qed

lemma joining_call:
  assumes "resolve_image sv (rv_fs v) ref platform w = (r, f', w')" "cached_image sv (rv_fs v) ref = None"
    and "map_of (rv_flights v) key = None" "rv_lock v = None" "map_of (rv_calls v) c = Some (key, CallJoining)"
  shows "\<exists>v'. (resolve_step sv)\<^sup>*\<^sup>* v v' \<and> rv_fs v' = f' \<and> (c, r) \<in> set (rv_results v')"
proof -
  let ?u = "join_flight c key v"
  let ?u1 = "set_phase key (Returning r) (?u\<lparr>rv_fs := f', rv_lock := None\<rparr>)"
  have "(resolve_step sv)\<^sup>*\<^sup>* ?u ?u1"
    using flight_run [OF assms(1,2), of "ByFlight key"] assms(3,4) by (intro flies_run) simp_all
  moreover have "resolve_step sv ?u1 (land key r ?u1)" by (rule resolve_step.lands) simp
  moreover have "(c, r) \<in> set (rv_results (land key r ?u1))" "rv_fs (land key r ?u1) = f'"
    using resolves.land_result [of c key ?u1] by simp_all
  ultimately show ?thesis
    using resolve_step.call_joins [OF assms(5)]
    by (meson converse_rtranclp_into_rtranclp rtranclp.rtrancl_into_rtrancl)
qed

theorem resolve_image_is_steps:
  assumes "resolve_image sv (rv_fs v) ref platform w = (r, f', w')" "map_of (rv_flights v) key = None" "rv_lock v = None"
  shows "\<exists>v'. (resolve_step sv)\<^sup>*\<^sup>* (call sv ref key v) v' \<and> rv_fs v' = f' \<and> (rv_called v, r) \<in> set (rv_results v')"
proof (cases rule: call_phase_cases [of sv ref])
  case 1
  then have "cached_image sv (rv_fs v) ref = None"
    by (auto simp: first_phase_def cached_image_def split: reference.splits sum.splits)
  then show ?thesis using assms 1 by (intro joining_call) simp_all
next
  case (2 h)
  then have cached: "cached_image sv (rv_fs v) ref = fs_images (rv_fs v) h"
    by (auto simp: first_phase_def cached_image_def split: reference.splits sum.splits)
  let ?u = "call sv ref key v" and ?c = "rv_called v"
  let ?u1 = "set_call ?c key (CallLooking h) (?u\<lparr>rv_lock := Some (ByCall ?c)\<rparr>)"
  let ?u2 = "set_call ?c key (CallUnlocking (fs_images (rv_fs v) h)) ?u1"
  have s1: "resolve_step sv ?u ?u1" by (rule resolve_step.call_locks) (simp_all add: 2 assms(3))
  have s2: "resolve_step sv ?u1 ?u2" using resolve_step.call_looks [of ?u1 ?c key h sv] by simp
  show ?thesis
  proof (cases "fs_images (rv_fs v) h")
    case (Some ri)
    let ?u3 = "return_hit ?c ri (?u2\<lparr>rv_lock := None\<rparr>)"
    have "resolve_step sv ?u2 ?u3" by (rule resolve_step.call_hits [where key = key]) (simp add: Some)
    moreover have "r = Inr ri" "f' = rv_fs v" using assms(1) cached Some by (simp_all add: resolve_image_def)
    ultimately show ?thesis using s1 s2 by (intro exI [of _ ?u3]) (simp add: converse_rtranclp_into_rtranclp)
  next
    case None
    let ?u3 = "set_call ?c key CallJoining (?u2\<lparr>rv_lock := None\<rparr>)"
    have s3: "resolve_step sv ?u2 ?u3" by (rule resolve_step.call_misses) (simp add: None)
    have to: "(resolve_step sv)\<^sup>*\<^sup>* ?u ?u3" using s1 s2 s3 by (simp add: converse_rtranclp_into_rtranclp)
    have "\<exists>v'. (resolve_step sv)\<^sup>*\<^sup>* ?u3 v' \<and> rv_fs v' = f' \<and> (?c, r) \<in> set (rv_results v')"
      by (rule joining_call [where ref = ref and platform = platform and w = w and w' = w'])
        (use assms cached None in simp_all)
    then show ?thesis using rtranclp_trans [OF to] by blast
  qed
qed

section \<open>Witnesses\<close>

definition demo_resolver :: "(unit, unit) resolver" where
  "demo_resolver = \<lparr>rv_fs = demo_fs, rv_lock = None, rv_calls = [], rv_flights = [], rv_waiting = [], rv_results = [],
     rv_called = 0\<rparr>"

text \<open>Two calls for one tag and one for its digest under another key; then all three wait for their flights.\<close>

definition demo_calls :: "(unit, unit) resolver" where
  "demo_calls =
     call demo_services (RefDigest demo_repo ''sha256:ab'') ''d''
       (call demo_services (RefTag demo_repo ''v1'') ''t'' (call demo_services (RefTag demo_repo ''v1'') ''t'' demo_resolver))"

definition demo_joined :: "(unit, unit) resolver" where
  "demo_joined = \<lparr>rv_fs = demo_fs, rv_lock = None, rv_calls = [], rv_flights = [(''t'', Resolving), (''d'', Resolving)],
     rv_waiting = [(2, ''d''), (1, ''t''), (0, ''t'')], rv_results = [], rv_called = 3\<rparr>"

definition demo_fetched :: "unit oci_image" where
  "demo_fetched = \<lparr>im_ref = RefTag demo_repo ''v1'', im_digest = demo_digest, im_layers = [()]\<rparr>"

lemma demo_fresh: "fresh demo_resolver"
  by (simp add: fresh_def demo_resolver_def demo_fs_def)

lemma demo_calls_eq:
  "demo_calls = demo_resolver\<lparr>rv_called := 3,
     rv_calls := [(2, ''d'', CallLocking demo_digest), (1, ''t'', CallJoining), (0, ''t'', CallJoining)]\<rparr>"
  by (simp add: demo_calls_def call_def demo_resolver_def first_phase_def demo_services_def)

lemma demo_calls_trace: "resolve_trace demo_services demo_resolver demo_calls"
  unfolding demo_calls_def by (intro resolve_trace.called resolve_trace.start)

lemma demo_joins: "(resolve_step demo_services)\<^sup>*\<^sup>* demo_calls demo_joined"
proof -
  define v1 where "v1 = join_flight 0 ''t'' demo_calls"
  define v2 where "v2 = join_flight 1 ''t'' v1"
  define v3 where "v3 = set_call 2 ''d'' (CallLooking demo_digest) (v2\<lparr>rv_lock := Some (ByCall 2)\<rparr>)"
  define v4 where "v4 = set_call 2 ''d'' (CallUnlocking (fs_images (rv_fs v3) demo_digest)) v3"
  define v5 where "v5 = set_call 2 ''d'' CallJoining (v4\<lparr>rv_lock := None\<rparr>)"
  note v = v5_def v4_def v3_def v2_def v1_def demo_calls_eq demo_resolver_def demo_fs_def
  have "resolve_step demo_services demo_calls v1" unfolding v1_def by (rule resolve_step.call_joins) (simp add: v)
  moreover have "resolve_step demo_services v1 v2" unfolding v2_def by (rule resolve_step.call_joins) (simp add: v)
  moreover have "resolve_step demo_services v2 v3" unfolding v3_def by (rule resolve_step.call_locks) (simp_all add: v)
  moreover have "resolve_step demo_services v3 v4" unfolding v4_def by (rule resolve_step.call_looks) (simp add: v)
  moreover have "resolve_step demo_services v4 v5" unfolding v5_def by (rule resolve_step.call_misses) (simp add: v)
  moreover have "resolve_step demo_services v5 (join_flight 2 ''d'' v5)" by (rule resolve_step.call_joins) (simp add: v)
  moreover have "join_flight 2 ''d'' v5 = demo_joined"
    by (simp add: v demo_joined_def join_flight_def set_call_def leave_calls_def set_phase_def Let_def)
  ultimately show ?thesis by (simp add: converse_rtranclp_into_rtranclp)
qed

text \<open>Both flights build the image; the first stores it, the second finds it.\<close>

abbreviation demo_stored :: "unit filesystem" where
  "demo_stored \<equiv> demo_fs\<lparr>fs_images := [demo_digest \<mapsto> demo_image]\<rparr>"

definition demo_landed :: "(unit, unit) resolver" where
  "demo_landed = \<lparr>rv_fs = demo_stored, rv_lock = None, rv_calls = [], rv_flights = [], rv_waiting = [],
     rv_results = [(2, Inr demo_image), (1, Inr demo_image), (0, Inr demo_image)], rv_called = 3\<rparr>"

lemma demo_build: "build_image demo_services demo_fetched 0 = (Inr demo_image, 1)"
  by (simp add: build_image_def demo_services_def demo_fetched_def demo_image_def)

lemma demo_flight_runs:
  "(flight_step demo_services me)\<^sup>*\<^sup>* (Resolving, demo_fs, None) (Built demo_image, demo_fs, None)"
  "(flight_step demo_services me)\<^sup>*\<^sup>* (Built demo_image, demo_fs, None) (Returning (Inr demo_image), demo_stored, None)"
  "(flight_step demo_services me)\<^sup>*\<^sup>* (Built demo_image, demo_stored, None) (Returning (Inr demo_image), demo_stored, None)"
proof -
  note run = converse_rtranclp_into_rtranclp [of "flight_step demo_services me"]
  have digests: "im_digest demo_fetched = demo_digest" "ri_digest demo_image = demo_digest" "fs_images demo_fs = Map.empty"
    by (simp_all add: demo_fetched_def demo_image_def demo_fs_def)
  show "(flight_step demo_services me)\<^sup>*\<^sup>* (Resolving, demo_fs, None) (Built demo_image, demo_fs, None)"
    by (rule run [OF flight_step.resolved [where img = demo_fetched] run [OF flight_step.look_locks run [OF flight_step.missed
        run [OF flight_step.missed_unlocks run [OF flight_step.opened [OF demo_build]]]]]]) (simp_all add: digests)
  show "(flight_step demo_services me)\<^sup>*\<^sup>* (Built demo_image, demo_fs, None) (Returning (Inr demo_image), demo_stored, None)"
    using run [OF flight_step.check_locks run [OF flight_step.absent run [OF flight_step.stored run [OF flight_step.stored_unlocks]]],
        of demo_fs demo_image] by (simp add: digests)
  show "(flight_step demo_services me)\<^sup>*\<^sup>* (Built demo_image, demo_stored, None) (Returning (Inr demo_image), demo_stored, None)"
    using run [OF flight_step.check_locks run [OF flight_step.existing run [OF flight_step.existing_unlocks]],
        of demo_stored demo_image demo_image] by (simp add: digests)
qed

lemma demo_lands: "(resolve_step demo_services)\<^sup>*\<^sup>* demo_joined demo_landed"
proof -
  define r1 where "r1 = set_phase ''t'' (Built demo_image) (demo_joined\<lparr>rv_fs := demo_fs, rv_lock := None\<rparr>)"
  define r2 where "r2 = set_phase ''d'' (Built demo_image) (r1\<lparr>rv_fs := demo_fs, rv_lock := None\<rparr>)"
  define r3 where "r3 = set_phase ''t'' (Returning (Inr demo_image)) (r2\<lparr>rv_fs := demo_stored, rv_lock := None\<rparr>)"
  define r4 where "r4 = set_phase ''d'' (Returning (Inr demo_image)) (r3\<lparr>rv_fs := demo_stored, rv_lock := None\<rparr>)"
  define r5 where "r5 = land ''t'' (Inr demo_image) r4"
  note r = r5_def r4_def r3_def r2_def r1_def demo_joined_def
  have "(resolve_step demo_services)\<^sup>*\<^sup>* demo_joined r1"
    unfolding r1_def by (rule flies_run [where p = Resolving]) (use demo_flight_runs(1) in \<open>simp_all add: r\<close>)
  also have "(resolve_step demo_services)\<^sup>*\<^sup>* r1 r2"
    unfolding r2_def by (rule flies_run [where p = Resolving]) (use demo_flight_runs(1) in \<open>simp_all add: r\<close>)
  also have "(resolve_step demo_services)\<^sup>*\<^sup>* r2 r3"
    unfolding r3_def by (rule flies_run [where p = "Built demo_image"]) (use demo_flight_runs(2) in \<open>simp_all add: r\<close>)
  also have "(resolve_step demo_services)\<^sup>*\<^sup>* r3 r4"
    unfolding r4_def by (rule flies_run [where p = "Built demo_image"]) (use demo_flight_runs(3) in \<open>simp_all add: r\<close>)
  also have "(resolve_step demo_services)\<^sup>*\<^sup>* r4 r5"
    unfolding r5_def by (rule r_into_rtranclp, rule resolve_step.lands) (simp add: r)
  also have "(resolve_step demo_services)\<^sup>*\<^sup>* r5 (land ''d'' (Inr demo_image) r5)"
    by (rule r_into_rtranclp, rule resolve_step.lands) (simp add: r)
  also have "land ''d'' (Inr demo_image) r5 = demo_landed"
    by (simp add: r land_def demo_landed_def set_phase_def)
  finally show ?thesis .
qed

theorem resolves_return_witness:
  "\<exists>n \<le> 42. (resolve_step demo_services ^^ n) demo_calls demo_landed \<and> rv_waiting demo_landed = [] \<and>
   fst ` set (rv_results demo_landed) = {..<3}"
proof -
  have stuck: "\<not> resolve_step demo_services demo_landed v" for v
  proof
    assume "resolve_step demo_services demo_landed v"
    then show False by cases (simp_all add: demo_landed_def)
  qed
  have "(resolve_step demo_services)\<^sup>*\<^sup>* demo_calls demo_landed" using demo_joins demo_lands by simp
  then obtain n where n: "(resolve_step demo_services ^^ n) demo_calls demo_landed" by (meson rtranclp_imp_relpowp)
  have "rv_called demo_calls = 3" "length (rv_calls demo_calls) = 3" "rv_flights demo_calls = []"
    by (simp_all add: demo_calls_eq demo_resolver_def)
  then show ?thesis
    using resolves_return [OF demo_fresh demo_calls_trace n] stuck n by (intro exI [of _ n]) simp
qed

lemma trace_steps: "(resolve_step sv)\<^sup>*\<^sup>* v v' \<Longrightarrow> resolve_trace sv v0 v \<Longrightarrow> resolve_trace sv v0 v'"
  by (induction rule: rtranclp_induct) (auto intro: resolve_trace.stepped)

theorem concurrent_resolves_agree_witness:
  "\<exists>v r. resolve_trace demo_services demo_resolver v \<and> (0, Inr r) \<in> set (rv_results v) \<and> (2, Inr r) \<in> set (rv_results v) \<and>
     fs_images (rv_fs v) (ri_digest r) = Some r"
proof -
  have t: "resolve_trace demo_services demo_resolver demo_landed"
    using trace_steps [OF demo_lands trace_steps [OF demo_joins demo_calls_trace]] .
  have r: "(0, Inr demo_image) \<in> set (rv_results demo_landed)" "(2, Inr demo_image) \<in> set (rv_results demo_landed)"
    by (simp_all add: demo_landed_def)
  show ?thesis
    using concurrent_resolves_agree [OF demo_fresh t r refl] t r by blast
qed

end
