(* ===== verification/Registry.thy ===== *)
theory Registry
  imports Transport Oci
begin

text \<open>
  The part of \<open>internal/oci/oci.go\<close> that talks to a registry: \<open>SetCache\<close>, \<open>buildTransport\<close> and
  \<open>Resolve\<close>, and the fetch in front of \<open>ResolveDigestAndPlatforms\<close>.  The state is the global cache, the disk and
  the world behind the default transport; a transport is a function on that state, so the cache
  that \<open>newDiskCachingTransport\<close> is given is the one the indexer writes to.
\<close>

section \<open>Data\<close>

record 'w oci_state =
  oc_cache :: "cache option"
  oc_disk :: disk
  oc_world :: 'w

type_synonym 'w transport = "'w oci_state round_tripper"

text \<open>The registry client and its authentication: \<open>authn\<close>, \<open>remote\<close> and \<open>http.DefaultTransport\<close>.\<close>

record ('a, 'i, 'l, 'w) registry_client =
  rg_default :: "'w round_tripper"
  rg_keychain :: "repository \<Rightarrow> 'w oci_state \<Rightarrow> (string + 'a) \<times> 'w oci_state"
  rg_new_transport :: "repository \<Rightarrow> 'a \<Rightarrow> 'w transport \<Rightarrow> string \<Rightarrow> 'w oci_state \<Rightarrow> (string + 'w transport) \<times> 'w oci_state"
  rg_scope :: "reference \<Rightarrow> string"
  rg_image :: "reference \<Rightarrow> 'w transport \<Rightarrow> platform \<Rightarrow> 'w oci_state \<Rightarrow> (string + 'i) \<times> 'w oci_state"
  rg_digest :: "'i \<Rightarrow> string + hash"
  rg_layers :: "'i \<Rightarrow> string + 'l list"
  rg_get :: "reference \<Rightarrow> 'w transport \<Rightarrow> platform \<Rightarrow> 'w oci_state \<Rightarrow> (string + remote_desc) \<times> 'w oci_state"

text \<open>An image with the fields that only layers and their readers use.\<close>

record ('l, 'i, 'w) image_handle = "'l oci_image" +
  im_image :: 'i
  im_transport :: "'w transport"

datatype registry_error =
    AuthError string
  | TransportError string
  | FetchImage string
  | ImageDigest string
  | ImageLayers string

section \<open>Transports\<close>

definition set_cache :: "cache \<Rightarrow> 'w oci_state \<Rightarrow> 'w oci_state" where
  "set_cache c st = st\<lparr>oc_cache := Some c\<rparr>"

definition default_transport :: "'w round_tripper \<Rightarrow> 'w transport" where
  "default_transport base req st = (case base req (oc_world st) of (r, w) \<Rightarrow> (r, st\<lparr>oc_world := w\<rparr>))"

text \<open>The cache in front of a transport; it holds a pointer to the global cache, which is never
  reset.\<close>

definition disk_caching_transport ::
  "(evict_entry list \<Rightarrow> evict_entry list) \<Rightarrow> 'w round_tripper \<Rightarrow> 'w transport" where
  "disk_caching_transport srt base req st =
     (case oc_cache st of
        None \<Rightarrow> default_transport base req st
      | Some c \<Rightarrow>
          (case RoundTrip srt base req (c, oc_disk st) (oc_world st) of
             (r, (c', d'), w') \<Rightarrow> (r, st\<lparr>oc_cache := Some c', oc_disk := d', oc_world := w'\<rparr>)))"

definition base_transport ::
  "(evict_entry list \<Rightarrow> evict_entry list) \<Rightarrow> 'w round_tripper \<Rightarrow> 'w oci_state \<Rightarrow> 'w transport" where
  "base_transport srt base st =
     (if oc_cache st = None then default_transport base else disk_caching_transport srt base)"

definition build_transport ::
  "('a, 'i, 'l, 'w) registry_client \<Rightarrow> (evict_entry list \<Rightarrow> evict_entry list) \<Rightarrow> reference \<Rightarrow> 'w oci_state \<Rightarrow>
   (registry_error + 'w transport) \<times> 'w oci_state" where
  "build_transport rg srt ref st =
     (case rg_keychain rg (ref_context ref) st of
        (Inl e, st1) \<Rightarrow> (Inl (AuthError e), st1)
      | (Inr auth, st1) \<Rightarrow>
          (let base = base_transport srt (rg_default rg) st1
           in case rg_new_transport rg (ref_context ref) auth base (rg_scope rg ref) st1 of
                (Inl e, st2) \<Rightarrow> (Inl (TransportError e), st2)
              | (Inr tr, st2) \<Rightarrow> (Inr tr, st2)))"

section \<open>Resolving\<close>

definition Resolve ::
  "('a, 'i, 'l, 'w) registry_client \<Rightarrow> (evict_entry list \<Rightarrow> evict_entry list) \<Rightarrow> reference \<Rightarrow> platform \<Rightarrow>
   'w oci_state \<Rightarrow> (registry_error + ('l, 'i, 'w) image_handle) \<times> 'w oci_state" where
  "Resolve rg srt ref platform st =
     (case build_transport rg srt ref st of
        (Inl e, st1) \<Rightarrow> (Inl e, st1)
      | (Inr tr, st1) \<Rightarrow>
          (case rg_image rg ref tr platform st1 of
             (Inl e, st2) \<Rightarrow> (Inl (FetchImage e), st2)
           | (Inr img, st2) \<Rightarrow>
               (case rg_digest rg img of
                  Inl e \<Rightarrow> (Inl (ImageDigest e), st2)
                | Inr digest \<Rightarrow>
                    (case rg_layers rg img of
                       Inl e \<Rightarrow> (Inl (ImageLayers e), st2)
                     | Inr layers \<Rightarrow>
                         (Inr \<lparr>im_ref = ref, im_digest = digest, im_layers = layers,
                               im_image = img, im_transport = tr\<rparr>, st2)))))"

text \<open>The fetch of \<open>ResolveDigestAndPlatforms\<close>, its parameter in the theory Oci.\<close>

definition fetch_desc ::
  "('a, 'i, 'l, 'w) registry_client \<Rightarrow> (evict_entry list \<Rightarrow> evict_entry list) \<Rightarrow> (registry_error \<Rightarrow> string) \<Rightarrow>
   reference \<Rightarrow> platform \<Rightarrow> 'w oci_state \<Rightarrow> (string + remote_desc) \<times> 'w oci_state" where
  "fetch_desc rg srt txt ref platform st =
     (case build_transport rg srt ref st of
        (Inl e, st1) \<Rightarrow> (Inl (txt e), st1)
      | (Inr tr, st1) \<Rightarrow> rg_get rg ref tr platform st1)"

end
