(* ===== verification/Registry_Props.thy ===== *)
theory Registry_Props
  imports Registry Transport_Props
begin

text \<open>
  What a pull by digest yields: the image the digest names, whether its manifest comes from the
  registry or from the disk.
\<close>

section \<open>What is assumed of the registry client\<close>

text \<open>The states that code reaches which uses the cache and the disk through a transport only.\<close>

inductive calls :: "'w transport \<Rightarrow> 'w oci_state \<Rightarrow> 'w oci_state \<Rightarrow> bool" for t where
  here: "calls t st st"
| sent: "calls t st st1 \<Longrightarrow> t req st1 = (r, st2) \<Longrightarrow> calls t st st2"
| other: "calls t st st1 \<Longrightarrow> calls t st (st1\<lparr>oc_world := w\<rparr>)"

text \<open>An authenticated transport hands requests to the one below, with retries and requests for
  tokens around them: an answer with status 200 is an answer of the one below.\<close>

definition forwards :: "'w transport \<Rightarrow> 'w transport \<Rightarrow> bool" where
  "forwards base t \<longleftrightarrow> (\<forall>req st r st'. t req st = (r, st') \<longrightarrow> calls base st st' \<and>
     (\<forall>resp. r = Inr resp \<and> rs_status_code resp = 200 \<longrightarrow>
        (\<exists>st1 st2. calls base st st1 \<and> base req st1 = (Inr resp, st2))))"

definition manifest_request :: "repository \<Rightarrow> string \<Rightarrow> http_request" where
  "manifest_request c d = \<lparr>rq_method = ''GET'', rq_host = repo_registry c, rq_range = [],
     rq_path = ''/v2/'' @ repo_path c @ ''/manifests/'' @ d\<rparr>"

definition wf_digest :: "string \<Rightarrow> bool" where
  "wf_digest d \<longleftrightarrow> take 7 d = ''sha256:'' \<and> length d = 71 \<and> list_all hex_digit (drop 7 d)"

lemma wf_digestI: "length hex = 64 \<Longrightarrow> list_all hex_digit hex \<Longrightarrow> wf_digest (''sha256:'' @ hex)"
  by (simp add: wf_digest_def)

lemma wf_digestE:
  assumes "wf_digest d"
  obtains hex where "d = ''sha256:'' @ hex" "length hex = 64" "list_all hex_digit hex"
proof (rule that [of "drop 7 d"])
  have "take 7 d = ''sha256:''" using assms by (simp add: wf_digest_def)
  then show "d = ''sha256:'' @ drop 7 d" using append_take_drop_id [of 7 d] by (simp only:)
qed (use assms in \<open>simp_all add: wf_digest_def\<close>)

text \<open>The client: authentication does not touch the cache, and an image that is pulled by digest is
  parsed from the body and content type of a complete answer to the request for a manifest: the
  one of that digest, unless it names an index, from which a manifest is chosen.\<close>

definition client_ok ::
  "('a, 'i, 'l, 'w) registry_client \<Rightarrow> (string \<Rightarrow> bytes \<Rightarrow> string + 'i) \<Rightarrow> (string \<Rightarrow> bool) \<Rightarrow> bool" where
  "client_ok rg parse single \<longleftrightarrow>
     (\<forall>c st. \<exists>w. snd (rg_keychain rg c st) = st\<lparr>oc_world := w\<rparr>) \<and>
     (\<forall>c a base scope st r st'. rg_new_transport rg c a base scope st = (r, st') \<longrightarrow>
        calls base st st' \<and> (\<forall>t. r = Inr t \<longrightarrow> forwards base t)) \<and>
     (\<forall>ref t p st r st'. rg_image rg ref t p st = (r, st') \<longrightarrow> calls t st st') \<and>
     (\<forall>ref t p st r st'. rg_get rg ref t p st = (r, st') \<longrightarrow> calls t st st') \<and>
     (\<forall>c d t p st img st'. rg_image rg (RefDigest c d) t p st = (Inr img, st') \<longrightarrow>
        (\<exists>e resp st1 st2. wf_digest e \<and> (single d \<longrightarrow> e = d) \<and> calls t st st1 \<and>
           t (manifest_request c e) st1 = (Inr resp, st2) \<and> rs_status_code resp = 200 \<and>
           rs_body_error resp = None \<and> parse (header_get (rs_header resp) ''Content-Type'') (rs_body resp) = Inr img))"

lemma client_okD:
  assumes "client_ok rg parse single"
  shows "rg_new_transport rg c a base scope st = (n, st') \<Longrightarrow> calls base st st'"
    "rg_new_transport rg c a base scope st = (n, st') \<Longrightarrow> n = Inr t \<Longrightarrow> forwards base t"
    "\<exists>w. snd (rg_keychain rg c st) = st\<lparr>oc_world := w\<rparr>"
    "rg_image rg ref tr p st = (i, st') \<Longrightarrow> calls tr st st'"
    "rg_get rg ref tr p st = (g, st') \<Longrightarrow> calls tr st st'"
    "rg_image rg (RefDigest c d) tr p st = (Inr img, st') \<Longrightarrow>
       \<exists>e resp st1 st2. wf_digest e \<and> (single d \<longrightarrow> e = d) \<and> calls tr st st1 \<and>
         tr (manifest_request c e) st1 = (Inr resp, st2) \<and> rs_status_code resp = 200 \<and>
         rs_body_error resp = None \<and> parse (header_get (rs_header resp) ''Content-Type'') (rs_body resp) = Inr img"
  using assms unfolding client_ok_def by metis+

section \<open>The cache stays genuine\<close>

definition oci_ok :: "(string \<Rightarrow> bytes) \<Rightarrow> path \<Rightarrow> 'w oci_state \<Rightarrow> bool" where
  "oci_ok content dir st \<longleftrightarrow> (\<forall>c. oc_cache st = Some c \<longrightarrow> transport_ok content dir (c, oc_disk st))"

text \<open>A transport that answers digest requests with the content and keeps the cache genuine.\<close>

definition sound :: "(string \<Rightarrow> bytes) \<Rightarrow> path \<Rightarrow> 'w transport \<Rightarrow> bool" where
  "sound content dir t \<longleftrightarrow> (\<forall>req st r st'. oci_ok content dir st \<longrightarrow> t req st = (r, st') \<longrightarrow>
     oci_ok content dir st' \<and>
     (\<forall>resp. rq_method req = ''GET'' \<and> rq_range req = [] \<and> digest_path_re (rq_path req) \<and> r = Inr resp \<and>
        rs_status_code resp = 200 \<and> rs_body_error resp = None \<longrightarrow> rs_body resp = content (digest_of (rq_path req))))"

lemma oci_ok_world [simp]: "oci_ok content dir (st\<lparr>oc_world := w\<rparr>) = oci_ok content dir st"
  by (simp add: oci_ok_def)

lemma sound_calls: "calls t st st' \<Longrightarrow> sound content dir t \<Longrightarrow> oci_ok content dir st \<Longrightarrow> oci_ok content dir st'"
  by (induction rule: calls.induct) (auto simp: sound_def)

lemma sound_default:
  assumes "serves base content"
  shows "sound content dir (default_transport base)"
  unfolding sound_def
proof (intro allI impI conjI)
  fix req st r st'
  assume ok: "oci_ok content dir st" and run: "default_transport base req st = (r, st')"
  then obtain w where w: "base req (oc_world st) = (r, w)" "st' = st\<lparr>oc_world := w\<rparr>"
    by (auto simp: default_transport_def split: prod.splits)
  show "oci_ok content dir st'" using ok w(2) by simp
  fix resp
  assume "rq_method req = ''GET'' \<and> rq_range req = [] \<and> digest_path_re (rq_path req) \<and> r = Inr resp \<and>
    rs_status_code resp = 200 \<and> rs_body_error resp = None"
  then show "rs_body resp = content (digest_of (rq_path req))"
    using assms w(1) unfolding serves_def by blast
qed

lemma sound_caching:
  assumes "serves base content"
  shows "sound content dir (disk_caching_transport srt base)"
  unfolding sound_def
proof (intro allI impI conjI)
  fix req st r st'
  assume ok: "oci_ok content dir st" and run: "disk_caching_transport srt base req st = (r, st')"
  have "oci_ok content dir st' \<and>
    (\<forall>resp. rq_method req = ''GET'' \<and> rq_range req = [] \<and> digest_path_re (rq_path req) \<and> r = Inr resp \<and>
       rs_status_code resp = 200 \<and> rs_body_error resp = None \<longrightarrow> rs_body resp = content (digest_of (rq_path req)))"
  proof (cases "oc_cache st")
    case None
    then show ?thesis
      using run ok sound_default [OF assms, of dir] by (auto simp: disk_caching_transport_def sound_def)
  next
    case (Some c)
    obtain r1 c' d' w' where rt: "RoundTrip srt base req (c, oc_disk st) (oc_world st) = (r1, (c', d'), w')"
      by (metis surj_pair)
    then have st': "r = r1" "st' = st\<lparr>oc_cache := Some c', oc_disk := d', oc_world := w'\<rparr>"
      using run Some by (simp_all add: disk_caching_transport_def)
    show ?thesis
      using round_trip_genuine [OF _ assms rt, of dir] ok Some unfolding st' by (auto simp: oci_ok_def)
  qed
  then show "oci_ok content dir st'"
    "\<And>resp. rq_method req = ''GET'' \<and> rq_range req = [] \<and> digest_path_re (rq_path req) \<and> r = Inr resp \<and>
       rs_status_code resp = 200 \<and> rs_body_error resp = None \<Longrightarrow> rs_body resp = content (digest_of (rq_path req))"
    by blast+
qed

lemma sound_base: "serves base content \<Longrightarrow> sound content dir (base_transport srt base st)"
  by (simp add: base_transport_def sound_default sound_caching)

lemma sound_forwards:
  assumes "forwards base t" "sound content dir base"
  shows "sound content dir t"
  unfolding sound_def
proof (intro allI impI conjI)
  fix req st r st'
  assume ok: "oci_ok content dir st" and run: "t req st = (r, st')"
  have f: "calls base st st'" using assms(1) run unfolding forwards_def by blast
  show "oci_ok content dir st'" using sound_calls [OF f assms(2) ok] .
  fix resp
  assume resp: "rq_method req = ''GET'' \<and> rq_range req = [] \<and> digest_path_re (rq_path req) \<and> r = Inr resp \<and>
    rs_status_code resp = 200 \<and> rs_body_error resp = None"
  then obtain st1 st2 where b: "calls base st st1" "base req st1 = (Inr resp, st2)"
    using assms(1) run unfolding forwards_def by blast
  have "oci_ok content dir st1" using sound_calls [OF b(1) assms(2) ok] .
  then show "rs_body resp = content (digest_of (rq_path req))"
    using assms(2) b(2) resp unfolding sound_def by blast
qed

lemma build_transport_sound:
  assumes "client_ok rg parse single" "serves (rg_default rg) content" "oci_ok content dir st"
    and "build_transport rg srt ref st = (r, st')"
  shows "oci_ok content dir st'" "r = Inr t \<Longrightarrow> sound content dir t"
proof -
  obtain a st1 where a: "rg_keychain rg (ref_context ref) st = (a, st1)" by (meson surj_pair)
  then have "\<exists>w. st1 = st\<lparr>oc_world := w\<rparr>" using client_okD(3) [OF assms(1)] by (metis snd_conv)
  then have st1: "oci_ok content dir st1" using assms(3) by auto
  let ?base = "base_transport srt (rg_default rg) st1"
  have base: "sound content dir ?base" using sound_base [OF assms(2)] .
  have "oci_ok content dir st' \<and> (\<forall>t. r = Inr t \<longrightarrow> sound content dir t)"
  proof (cases a)
    case (Inl e)
    then show ?thesis using assms(4) a st1 by (auto simp: build_transport_def)
  next
    case (Inr auth)
    obtain n st2 where n: "rg_new_transport rg (ref_context ref) auth ?base (rg_scope rg ref) st1 = (n, st2)" by force
    note new = client_okD(1,2) [OF assms(1) n]
    have "st' = st2" "r = Inr t \<Longrightarrow> n = Inr t" for t
      using assms(4) a Inr n by (auto simp: build_transport_def Let_def split: sum.splits)
    then show ?thesis using sound_calls [OF new(1) base st1] sound_forwards [OF new(2) base] by blast
  qed
  then show "oci_ok content dir st'" "r = Inr t \<Longrightarrow> sound content dir t" by blast+
qed

section \<open>Other invariants of the shared state\<close>

text \<open>An invariant that every transport below the authentication keeps is kept by the functions of the
  client.\<close>

definition keeps :: "('w oci_state \<Rightarrow> bool) \<Rightarrow> 'w transport \<Rightarrow> bool" where
  "keeps I t \<longleftrightarrow> (\<forall>st w. I st \<longrightarrow> I (st\<lparr>oc_world := w\<rparr>)) \<and>
     (\<forall>req st r st'. I st \<longrightarrow> t req st = (r, st') \<longrightarrow> I st')"

lemma keeps_calls: "calls t st st' \<Longrightarrow> keeps I t \<Longrightarrow> I st \<Longrightarrow> I st'"
  by (induction rule: calls.induct) (auto simp: keeps_def)

lemma keeps_forwards: "forwards base t \<Longrightarrow> keeps I base \<Longrightarrow> keeps I t"
  using keeps_calls [of base _ _ I] unfolding keeps_def forwards_def by blast

lemma build_transport_keeps:
  assumes "client_ok rg parse single" "\<And>st0. keeps I (base_transport srt (rg_default rg) st0)" "I st"
    and "build_transport rg srt ref st = (r, st')"
  shows "I st'" "r = Inr t \<Longrightarrow> keeps I t"
proof -
  obtain a st1 where a: "rg_keychain rg (ref_context ref) st = (a, st1)" by (meson surj_pair)
  then obtain w where "st1 = st\<lparr>oc_world := w\<rparr>" using client_okD(3) [OF assms(1)] by (metis snd_conv)
  then have st1: "I st1" using assms(2,3) by (auto simp: keeps_def)
  let ?base = "base_transport srt (rg_default rg) st1"
  have "I st' \<and> (\<forall>t. r = Inr t \<longrightarrow> keeps I t)"
  proof (cases a)
    case (Inl e)
    then show ?thesis using assms(4) a st1 by (auto simp: build_transport_def)
  next
    case (Inr auth)
    obtain n st2 where n: "rg_new_transport rg (ref_context ref) auth ?base (rg_scope rg ref) st1 = (n, st2)" by force
    note new = client_okD(1,2) [OF assms(1) n]
    have "st' = st2" "r = Inr t \<Longrightarrow> n = Inr t" for t
      using assms(4) a Inr n by (auto simp: build_transport_def Let_def split: sum.splits)
    then show ?thesis using keeps_calls [OF new(1) assms(2) st1] keeps_forwards [OF new(2) assms(2)] by blast
  qed
  then show "I st'" "r = Inr t \<Longrightarrow> keeps I t" by blast+
qed

lemma Resolve_keeps:
  assumes "client_ok rg parse single" "\<And>st0. keeps I (base_transport srt (rg_default rg) st0)" "I st"
    and "Resolve rg srt ref platform st = (r, st')"
  shows "I st'"
proof -
  obtain b st1 where b: "build_transport rg srt ref st = (b, st1)" by (meson surj_pair)
  note built = build_transport_keeps [OF assms(1-3) b]
  show ?thesis
  proof (cases b)
    case (Inl e)
    then show ?thesis using assms(4) b built(1) by (auto simp: Resolve_def)
  next
    case (Inr t)
    obtain i st2 where i: "rg_image rg ref t platform st1 = (i, st2)" by (meson surj_pair)
    have "st' = st2" using assms(4) b Inr i by (auto simp: Resolve_def split: sum.splits)
    then show ?thesis using keeps_calls [OF client_okD(4) [OF assms(1) i] built(2) [OF Inr] built(1)] by simp
  qed
qed

lemma fetch_desc_keeps:
  assumes "client_ok rg parse single" "\<And>st0. keeps I (base_transport srt (rg_default rg) st0)" "I st"
    and "fetch_desc rg srt txt ref platform st = (r, st')"
  shows "I st'"
proof -
  obtain b st1 where b: "build_transport rg srt ref st = (b, st1)" by (meson surj_pair)
  note built = build_transport_keeps [OF assms(1-3) b]
  show ?thesis
    using assms(4) b built keeps_calls [OF client_okD(5) [OF assms(1)]]
    by (cases b) (auto simp: fetch_desc_def)
qed

section \<open>Pulling by digest\<close>

lemma manifest_path:
  assumes "wf_digest d" "repo_path c \<noteq> []" "CHR 0x0A \<notin> set (repo_path c)"
  shows "digest_path_re (rq_path (manifest_request c d))" "digest_of (rq_path (manifest_request c d)) = d"
proof -
  obtain hex where d: "d = ''sha256:'' @ hex" "length hex = 64" "list_all hex_digit hex"
    using assms(1) by (rule wf_digestE)
  have p: "rq_path (manifest_request c d) = ''/v2/'' @ repo_path c @ ''/manifests/sha256:'' @ hex"
    by (simp add: manifest_request_def d(1))
  show "digest_path_re (rq_path (manifest_request c d))"
    unfolding p digest_path_re_def match_digest_path_iff using assms(2,3) d(2,3) by blast
  show "digest_of (rq_path (manifest_request c d)) = d"
    unfolding digest_of_def using d(2) by (simp add: manifest_request_def d(1) del: append.simps append_assoc
      add: append_assoc [symmetric])
qed

text \<open>What a pull by digest yields, for the digest of a manifest or of an index.\<close>

definition parsed_from :: "(string \<Rightarrow> bytes \<Rightarrow> string + 'i) \<Rightarrow> (string \<Rightarrow> bool) \<Rightarrow> (string \<Rightarrow> bytes) \<Rightarrow> string \<Rightarrow> 'i \<Rightarrow> bool" where
  "parsed_from parse single content d i \<longleftrightarrow>
     (\<exists>e ct. wf_digest e \<and> (single d \<longrightarrow> e = d) \<and> parse ct (content e) = Inr i)"

lemma Resolve_parsed:
  assumes "client_ok rg parse single" "serves (rg_default rg) content" "oci_ok content dir st"
    and "repo_path c \<noteq> []" "CHR 0x0A \<notin> set (repo_path c)" "Resolve rg srt (RefDigest c d) platform st = (r, st')"
  shows "oci_ok content dir st'"
    "r = Inr img \<Longrightarrow> im_ref img = RefDigest c d \<and>
       parsed_from parse single content d (im_image img) \<and>
       rg_digest rg (im_image img) = Inr (im_digest img) \<and> rg_layers rg (im_image img) = Inr (im_layers img)"
proof -
  obtain b st1 where b: "build_transport rg srt (RefDigest c d) st = (b, st1)" by (meson surj_pair)
  note built = build_transport_sound [OF assms(1-3) b]
  have "oci_ok content dir st' \<and> (\<forall>img. r = Inr img \<longrightarrow> im_ref img = RefDigest c d \<and>
       parsed_from parse single content d (im_image img) \<and>
       rg_digest rg (im_image img) = Inr (im_digest img) \<and> rg_layers rg (im_image img) = Inr (im_layers img))"
  proof (cases b)
    case (Inl e)
    then show ?thesis using assms(6) b built(1) by (auto simp: Resolve_def)
  next
    case (Inr t)
    obtain i st2 where i: "rg_image rg (RefDigest c d) t platform st1 = (i, st2)" by (meson surj_pair)
    have ok2: "oci_ok content dir st2"
      using sound_calls [OF client_okD(4) [OF assms(1) i] built(2) [OF Inr] built(1)] .
    have parse_ok: "parsed_from parse single content d img" if "i = Inr img" for img
    proof -
      have img: "rg_image rg (RefDigest c d) t platform st1 = (Inr img, st2)" using i that by simp
      obtain e resp sa sb where g: "wf_digest e" "single d \<longrightarrow> e = d" "calls t st1 sa"
        "t (manifest_request c e) sa = (Inr resp, sb)" "rs_status_code resp = 200"
        "rs_body_error resp = None" "parse (header_get (rs_header resp) ''Content-Type'') (rs_body resp) = Inr img"
        using client_okD(6) [OF assms(1) img] by blast
      have "oci_ok content dir sa" using sound_calls [OF g(3) built(2) [OF Inr] built(1)] .
      then have "rs_body resp = content (digest_of (rq_path (manifest_request c e)))"
        using built(2) [OF Inr] g(4-6) manifest_path(1) [OF g(1) assms(4,5)]
        unfolding sound_def by (auto simp: manifest_request_def)
      then show ?thesis unfolding parsed_from_def using g(1,2,7) manifest_path(2) [OF g(1) assms(4,5)] by auto
    qed
    show ?thesis
      using assms(6) b Inr i ok2 parse_ok by (auto simp: Resolve_def split: sum.splits)
  qed
  then show "oci_ok content dir st'"
    "r = Inr img \<Longrightarrow> im_ref img = RefDigest c d \<and>
       parsed_from parse single content d (im_image img) \<and>
       rg_digest rg (im_image img) = Inr (im_digest img) \<and> rg_layers rg (im_image img) = Inr (im_layers img)"
    by blast+
qed

text \<open>A pull by digest yields the image the digest names: if the cache holds only genuine entries and
  the registry serves content by digest, then whatever \<open>Resolve\<close> returns for the digest of a
  manifest was parsed from the content of that digest, whether it came from the disk or from the
  registry, and whatever failed, was retried or was evicted meanwhile; the digest and layers are those of that
  parse.  The cache is genuine again after the call, which may as well have failed.\<close>

theorem resolve_digest_genuine:
  assumes "client_ok rg parse single" "serves (rg_default rg) content" "oci_ok content dir st"
    and "repo_path c \<noteq> []" "CHR 0x0A \<notin> set (repo_path c)"
    and "single d" "Resolve rg srt (RefDigest c d) platform st = (r, st')"
  shows "oci_ok content dir st' \<and>
    (\<forall>img. r = Inr img \<longrightarrow> im_ref img = RefDigest c d \<and>
       (\<exists>ct. parse ct (content d) = Inr (im_image img)) \<and>
       rg_digest rg (im_image img) = Inr (im_digest img) \<and> rg_layers rg (im_image img) = Inr (im_layers img))"
  using Resolve_parsed [OF assms(1-5,7)] assms(6) unfolding parsed_from_def by blast

section \<open>Witness\<close>

lemma forwards_refl: "forwards base base"
  unfolding forwards_def using calls.sent [OF calls.here] calls.here by metis

text \<open>A registry whose documents are their digests, and a client without authentication, whose images
  are the bodies of their manifests.\<close>

definition echo_registry :: "nat round_tripper" where
  "echo_registry req n = (Inr \<lparr>rs_status = ''200 OK'', rs_status_code = 200,
     rs_header = [(''Content-Type'', ''application/vnd.oci.image.manifest.v1+json'')],
     rs_body = digest_of (rq_path req), rs_body_error = None, rs_content_length = 71\<rparr>, Suc n)"

definition demo_client :: "(unit, bytes, unit, nat) registry_client" where
  "demo_client =
     \<lparr>rg_default = echo_registry, rg_keychain = (\<lambda>c st. (Inr (), st)),
      rg_new_transport = (\<lambda>c a base scope st. (Inr base, st)), rg_scope = (\<lambda>ref. ''pull''),
      rg_image = (\<lambda>ref t p st.
        case ref of
          RefTag c tag \<Rightarrow> (Inl ''not a digest'', st)
        | RefDigest c d \<Rightarrow>
            (if \<not> wf_digest d then (Inl ''bad digest'', st)
             else case t (manifest_request c d) st of
               (Inl e, st1) \<Rightarrow> (Inl e, st1)
             | (Inr resp, st1) \<Rightarrow>
                 (if rs_status_code resp = 200 \<and> rs_body_error resp = None then Inr (rs_body resp) else Inl ''status'', st1))),
      rg_digest = (\<lambda>i. Inr \<lparr>hash_algorithm = take 6 i, hash_hex = drop 7 i\<rparr>),
      rg_layers = (\<lambda>i. Inr [()]), rg_get = (\<lambda>ref t p st. (Inl ''unused'', st))\<rparr>"

lemma echo_serves: "serves (rg_default demo_client) (\<lambda>d. d)"
  using demo_content_type by (auto simp: serves_def echo_registry_def demo_client_def header_get_def)

lemma demo_client_ok: "client_ok demo_client (\<lambda>ct. Inr) (\<lambda>_. True)"
proof -
  have "calls t st st'" if "rg_image demo_client ref t p st = (r, st')" for ref t p st r st'
    using that calls.here [of t st] calls.sent [OF calls.here, of t _ st]
    by (auto simp: demo_client_def split: reference.splits prod.splits sum.splits if_splits)
  moreover have "\<exists>e resp st1 st2. wf_digest e \<and> (True \<longrightarrow> e = d) \<and> calls t st st1 \<and> t (manifest_request c e) st1 = (Inr resp, st2) \<and>
      rs_status_code resp = 200 \<and> rs_body_error resp = None \<and> (Inr (rs_body resp) :: string + bytes) = Inr img"
    if "rg_image demo_client (RefDigest c d) t p st = (Inr img, st')" for c d t p st img st'
    using that calls.here [of t st] by (auto simp: demo_client_def split: prod.splits sum.splits if_splits)
  moreover have "\<exists>w. snd (rg_keychain demo_client c st) = st\<lparr>oc_world := w\<rparr>" for c st
    by (intro exI [of _ "oc_world st"]) (simp add: demo_client_def)
  ultimately show ?thesis
    unfolding client_ok_def using forwards_refl calls.here by (auto simp: demo_client_def)
qed

definition demo_net :: "nat oci_state" where
  "demo_net = set_cache (fst demo_store) \<lparr>oc_cache = None, oc_disk = snd demo_store, oc_world = 0\<rparr>"

lemma demo_store_genuine: "transport_ok content ''/c'' demo_store"
proof -
  have "genuine content ''/c'' k raw" if "disk_lookup demo_store k = Some raw" for k raw
  proof -
    have "path_join [''/c'', k] = ''/c/old''"
      using that by (auto simp: disk_lookup_def cache_path_def demo_store_def demo_disk_def dk_file_def split: if_splits)
    moreover have "\<not> has_prefix (path_base ''/c/old'') ''sha256:''" by code_simp
    ultimately show ?thesis by (simp add: genuine_def)
  qed
  then show ?thesis using demo_store_inv by (simp add: transport_ok_def disk.coherent_def)
qed

definition demo_context :: repository where
  "demo_context = \<lparr>repo_scheme = ''https'', repo_registry = ''index.docker.io'', repo_path = ''library/alpine''\<rparr>"

definition demo_name :: string where
  "demo_name = ''sha256:'' @ replicate 64 (CHR ''a'')"

definition demo_linux :: platform where
  "demo_linux = \<lparr>plat_os = ''linux'', plat_arch = ''amd64'', plat_variant = []\<rparr>"

lemma demo_context_path: "repo_path demo_context \<noteq> []" "CHR 0x0A \<notin> set (repo_path demo_context)"
  by code_simp+

theorem resolve_digest_genuine_witness:
  "\<exists>img st. Resolve demo_client (insertion_sort ev_mtime) (RefDigest demo_context demo_name) demo_linux demo_net = (Inr img, st) \<and>
     im_image img = demo_name \<and> oci_ok (\<lambda>d. d) ''/c'' st"
proof -
  let ?r = "Resolve demo_client (insertion_sort ev_mtime) (RefDigest demo_context demo_name) demo_linux demo_net"
  have "\<not> isl (fst ?r)" by code_simp
  then obtain img st where r: "?r = (Inr img, st)" by (metis not_isl_Inr prod.collapse)
  have "oci_ok (\<lambda>d. d) ''/c'' demo_net"
    using demo_store_genuine by (simp add: oci_ok_def demo_net_def set_cache_def)
  then have "oci_ok (\<lambda>d. d) ''/c'' st \<and> im_image img = demo_name"
    using resolve_digest_genuine [OF demo_client_ok echo_serves _ demo_context_path _ r] by simp
  then show ?thesis using r by blast
qed

end
