(* ===== verification/Startup.thy ===== *)
theory Startup
  imports Complex_Main Indexer Mount Transport
begin

text \<open>
  \<open>cmd/ocifuse/main.go\<close>: sizes with a unit, the cache directory, and what \<open>run\<close> builds from the
  configuration before it mounts.  Strings are ASCII where \<open>TrimSpace\<close> and \<open>ToUpper\<close> are applied.
  The configuration comes from \<open>envconfig\<close>; the parsers of floats and platforms and the call that
  mounts are parameters.
\<close>

section \<open>Sizes\<close>

definition is_space :: "char \<Rightarrow> bool" where
  "is_space c \<longleftrightarrow> c \<in> {CHR 0x09, CHR 0x0A, CHR 0x0B, CHR 0x0C, CHR 0x0D, CHR '' ''}"

definition trim_space :: "string \<Rightarrow> string" where
  "trim_space s = rev (dropWhile is_space (rev (dropWhile is_space s)))"

definition upper_char :: "char \<Rightarrow> char" where
  "upper_char c = (if CHR ''a'' \<le> c \<and> c \<le> CHR ''z'' then char_of (of_char c - (32::nat)) else c)"

text \<open>The loop that finds the end of the number.\<close>

definition number_char :: "char \<Rightarrow> bool" where
  "number_char c \<longleftrightarrow> c = CHR ''.'' \<or> CHR ''0'' \<le> c \<and> c \<le> CHR ''9''"

fun number_length :: "string \<Rightarrow> nat" where
  "number_length [] = 0"
| "number_length (c # s) = (if number_char c then Suc (number_length s) else 0)"

definition suffix_factor :: "string \<Rightarrow> int option" where
  "suffix_factor sfx =
     (if sfx \<in> {[], ''B''} then Some 1
      else if sfx \<in> {''K'', ''KB'', ''KIB''} then Some (2 ^ 10)
      else if sfx \<in> {''M'', ''MB'', ''MIB''} then Some (2 ^ 20)
      else if sfx \<in> {''G'', ''GB'', ''GIB''} then Some (2 ^ 30)
      else if sfx \<in> {''T'', ''TB'', ''TIB''} then Some (2 ^ 40)
      else None)"

text \<open>\<open>int64(f)\<close> of a float, given by its value: truncation towards zero where the result is in
  range; outside, what the processor does, a parameter.\<close>

definition to_int64 :: "(rat \<Rightarrow> int) \<Rightarrow> rat \<Rightarrow> int" where
  "to_int64 outside v =
     (let n = (if 0 \<le> v then \<lfloor>v\<rfloor> else \<lceil>v\<rceil>)
      in if - (2 ^ 63) \<le> n \<and> n < 2 ^ 63 then n else outside v)"

datatype size_error = NoDigits string | BadNumber string | UnknownSuffix string

text \<open>The value of a float times a power of two is the value of their float product (or of
  infinity, which is out of range as well).\<close>

definition parse_bytes :: "(string \<Rightarrow> string + rat) \<Rightarrow> (rat \<Rightarrow> int) \<Rightarrow> string \<Rightarrow> size_error + int" where
  "parse_bytes parse_float outside s0 =
     (let s = trim_space s0
      in if s = [] \<or> s = ''0'' then Inr 0
         else
           (let i = number_length s
            in if i = 0 then Inl (NoDigits s)
               else case parse_float (take i s) of
                 Inl e \<Rightarrow> Inl (BadNumber e)
               | Inr num \<Rightarrow>
                   (let sfx = map upper_char (trim_space (drop i s))
                    in case suffix_factor sfx of
                         None \<Rightarrow> Inl (UnknownSuffix sfx)
                       | Some factor \<Rightarrow> Inr (to_int64 outside (num * of_int factor)))))"

section \<open>The cache directory\<close>

definition resolve_cache_dir :: "string \<Rightarrow> (string + string) \<Rightarrow> string \<Rightarrow> string + path" where
  "resolve_cache_dir xdg user_home override =
     (if override \<noteq> [] then Inr override
      else if xdg \<noteq> [] then Inr (path_join [xdg, ''ocifuse''])
      else case user_home of
             Inl e \<Rightarrow> Inl e
           | Inr home \<Rightarrow> Inr (path_join [home, ''.cache'', ''ocifuse'']))"

section \<open>Starting\<close>

record config =
  cfg_platform :: string
  cfg_cache_dir :: string
  cfg_cache_max_size :: string
  cfg_memory_max_size :: string
  cfg_tag_ttl :: int
  cfg_debug :: bool

text \<open>What the process and the environment supply.\<close>

record environment =
  en_args :: "string list"
  en_config :: "string + config"
  en_xdg :: string
  en_home :: "string + string"
  en_parse_platform :: "string \<Rightarrow> string + platform"
  en_parse_float :: "string \<Rightarrow> string + rat"
  en_outside :: "rat \<Rightarrow> int"

datatype start_error =
    Usage
  | EnvError string
  | PlatformParse string
  | HomeError string
  | CacheMaxSize size_error
  | MemoryMaxSize size_error
  | CacheError os_error

text \<open>The options of \<open>Mount\<close>, durations in nanoseconds.\<close>

record mount_options =
  mo_entry_timeout :: int
  mo_attr_timeout :: int
  mo_negative_timeout :: int
  mo_debug :: bool

definition mount_opts :: "bool \<Rightarrow> mount_options" where
  "mount_opts debug =
     (let hour_ttl = 60 * minute; tag_ttl = minute
      in \<lparr>mo_entry_timeout = hour_ttl, mo_attr_timeout = hour_ttl, mo_negative_timeout = tag_ttl,
          mo_debug = debug\<rparr>)"

text \<open>What is handed to the mount: the file system, its indexer, the chunk cache and the options.
  The indexer's disk cache is also the one of the registry transport (\<open>SetCache\<close>).\<close>

record 'f started =
  st_mountpoint :: string
  st_fs :: "'f filesystem"
  st_indexer :: indexer
  st_chunks :: chunk_cache
  st_options :: mount_options

definition run :: "environment \<Rightarrow> disk \<Rightarrow> (start_error + 'f started) \<times> disk" where
  "run en d =
     (if length (en_args en) \<noteq> 2 then (Inl Usage, d)
      else case en_config en of
        Inl e \<Rightarrow> (Inl (EnvError e), d)
      | Inr cfg \<Rightarrow>
          (case en_parse_platform en (cfg_platform cfg) of
             Inl e \<Rightarrow> (Inl (PlatformParse e), d)
           | Inr platform \<Rightarrow>
               (case resolve_cache_dir (en_xdg en) (en_home en) (cfg_cache_dir cfg) of
                  Inl e \<Rightarrow> (Inl (HomeError e), d)
                | Inr dir \<Rightarrow>
                    (case parse_bytes (en_parse_float en) (en_outside en) (cfg_cache_max_size cfg) of
                       Inl e \<Rightarrow> (Inl (CacheMaxSize e), d)
                     | Inr max_bytes \<Rightarrow>
                         (case parse_bytes (en_parse_float en) (en_outside en) (cfg_memory_max_size cfg) of
                            Inl e \<Rightarrow> (Inl (MemoryMaxSize e), d)
                          | Inr mem_bytes \<Rightarrow>
                              (case new_cache dir max_bytes d of
                                 (Inl e, d1) \<Rightarrow> (Inl (CacheError e), d1)
                               | (Inr c, d1) \<Rightarrow>
                                   (Inr \<lparr>st_mountpoint = en_args en ! 1,
                                         st_fs = \<lparr>fs_platform = platform, fs_tag_ttl = cfg_tag_ttl cfg,
                                                  fs_images = Map.empty\<rparr>,
                                         st_indexer = new_indexer c True,
                                         st_chunks = new_chunk_cache mem_bytes (2 ^ 20),
                                         st_options = mount_opts (cfg_debug cfg)\<rparr>, d1)))))))"

end
