(* ===== verification/Startup_Props.thy ===== *)
theory Startup_Props
  imports Startup Transport_Props Indexer_Props
begin

text \<open>
  Sizes with a unit are read exactly, in any case and with spaces, as long as they fit an
  \<open>int64\<close>; and the process starts with a disk cache whose byte count is exact.
\<close>

section \<open>Reading a size\<close>

lemma trim_space_between:
  assumes "list_all is_space a" "list_all is_space e" "xs \<noteq> []" "\<not> is_space (hd xs)" "\<not> is_space (last xs)"
  shows "trim_space (a @ xs @ e) = xs"
proof -
  have skip: "dropWhile is_space (ys @ zs) = dropWhile is_space zs" if "list_all is_space ys" for ys zs
    using that by (induction ys) simp_all
  have "dropWhile is_space (a @ xs @ e) = xs @ e"
    using assms(3,4) skip [OF assms(1)] by (cases xs) simp_all
  moreover have "dropWhile is_space (rev (xs @ e)) = rev xs"
    using assms(2,3,5) skip [of "rev e" "rev xs"] by (cases xs rule: rev_cases) simp_all
  ultimately show ?thesis by (simp add: trim_space_def)
qed

lemma number_length_append:
  "list_all number_char ds \<Longrightarrow> rest = [] \<or> \<not> number_char (hd rest) \<Longrightarrow> number_length (ds @ rest) = length ds"
  by (induction ds) (cases rest, auto)

lemma digit_chars: "dec_digit c \<Longrightarrow> number_char c \<and> \<not> is_space c"
  by (auto simp: dec_digit_def number_char_def is_space_def)

lemma space_char: "is_space c \<Longrightarrow> \<not> number_char c"
  by (auto simp: number_char_def is_space_def)

lemma upper_char_low: "c \<le> CHR ''9'' \<Longrightarrow> upper_char c = c"
proof -
  assume "c \<le> CHR ''9''"
  then have "c < CHR ''a''" by (rule le_less_trans) simp
  then have "\<not> CHR ''a'' \<le> c" by (simp only: not_le)
  then show ?thesis by (simp add: upper_char_def)
qed

lemma suffix_char:
  assumes "suffix_factor (map upper_char u) = Some k" "c \<in> set u"
  shows "\<not> is_space c \<and> \<not> number_char c"
proof -
  have "set (map upper_char u) \<subseteq> set ''BKMGTI''"
    using assms(1) by (auto simp: suffix_factor_def split: if_splits)
  then have up: "upper_char c \<in> set ''BKMGTI''" using assms(2) by auto
  have "\<not> c \<le> CHR ''9''" using upper_char_low [of c] up by auto
  moreover have "c \<le> CHR ''9''" if "is_space c \<or> number_char c"
    using that by (auto simp: is_space_def number_char_def)
  ultimately show ?thesis by blast
qed

lemma suffix_factor_pos: "suffix_factor u = Some k \<Longrightarrow> 0 < k"
  by (auto simp: suffix_factor_def split: if_splits)

lemma decimal_value_nonneg: "list_all dec_digit ds \<Longrightarrow> 0 \<le> decimal_value ds"
proof (induction ds)
  case (Cons c ds)
  then have "0 \<le> digit_value c" by (auto simp: dec_digit_def digit_value_def less_eq_char_def)
  with Cons show ?case by (simp add: decimal_value_Cons)
qed (simp add: decimal_value_def)

text \<open>The units: a letter for a power of 1024, alone or followed by B or iB.\<close>

definition unit_power :: "string \<Rightarrow> nat option" where
  "unit_power u =
     (case u of
        [] \<Rightarrow> Some 0
      | c # rest \<Rightarrow>
          (if u = ''B'' then Some 0
           else if rest \<in> {[], ''B'', ''IB''} then map_of (zip ''KMGT'' [1, 2, 3, 4]) c
           else None))"

lemma suffix_factor_unit: "suffix_factor u = map_option (\<lambda>n. 1024 ^ n) (unit_power u)"
proof (cases u)
  case (Cons c rest)
  then show ?thesis by (auto simp: suffix_factor_def unit_power_def)
qed (simp add: suffix_factor_def unit_power_def)

lemma unit_factor: "unit_power u = Some n \<Longrightarrow> suffix_factor u = Some (1024 ^ n)"
  by (simp add: suffix_factor_unit)

text \<open>Decimal numbers, with or without a fraction, and the rational numbers that a \<open>float64\<close> represents: 53 bits
  and an exponent.\<close>

fun decimal_text :: "string \<Rightarrow> string option \<Rightarrow> string" where
  "decimal_text ds None = ds"
| "decimal_text ds (Some fs) = ds @ CHR ''.'' # fs"

fun decimal_rat :: "string \<Rightarrow> string option \<Rightarrow> rat" where
  "decimal_rat ds None = of_int (decimal_value ds)"
| "decimal_rat ds (Some fs) = of_int (decimal_value (ds @ fs)) / 10 ^ length fs"

fun decimal_ok :: "string \<Rightarrow> string option \<Rightarrow> bool" where
  "decimal_ok ds None = (ds \<noteq> [] \<and> list_all dec_digit ds)"
| "decimal_ok ds (Some fs) = (ds @ fs \<noteq> [] \<and> list_all dec_digit (ds @ fs))"

definition float64 :: "rat \<Rightarrow> bool" where
  "float64 v \<longleftrightarrow> (\<exists>m k l. \<bar>m\<bar> < 2 ^ 53 \<and> k \<le> 971 \<and> l \<le> (1074::nat) \<and> v = of_int m * 2 ^ k / 2 ^ l)"

text \<open>\<open>ParseFloat\<close> gives the nearest float: a number that is one is read exactly.\<close>

definition float_parser :: "(string \<Rightarrow> string + rat) \<Rightarrow> bool" where
  "float_parser pf \<longleftrightarrow> (\<forall>ds fo. decimal_ok ds fo \<longrightarrow> float64 (decimal_rat ds fo) \<longrightarrow>
     pf (decimal_text ds fo) = Inr (decimal_rat ds fo))"

lemma float64_int: "\<bar>m\<bar> < 2 ^ 53 \<Longrightarrow> float64 (of_int m)"
  unfolding float64_def by (intro exI [of _ m] exI [of _ 0]) simp

lemma decimal_rat_nonneg: "decimal_ok ds fo \<Longrightarrow> 0 \<le> decimal_rat ds fo"
  by (cases fo) (simp_all add: decimal_value_nonneg)

lemma decimal_text_chars:
  assumes "decimal_ok ds fo"
  shows "decimal_text ds fo \<noteq> []" "list_all number_char (decimal_text ds fo)" "c \<in> set (decimal_text ds fo) \<Longrightarrow> \<not> is_space c"
proof -
  have d: "c = CHR ''.'' \<or> dec_digit c" if "c \<in> set (decimal_text ds fo)" for c
    using that assms by (cases fo) (auto simp: list_all_iff)
  then have "number_char c \<and> \<not> is_space c" if "c \<in> set (decimal_text ds fo)" for c
    using that digit_chars [of c] by (auto simp: number_char_def is_space_def)
  then show "list_all number_char (decimal_text ds fo)" "c \<in> set (decimal_text ds fo) \<Longrightarrow> \<not> is_space c"
    by (simp_all add: list_all_iff)
  show "decimal_text ds fo \<noteq> []" using assms by (cases fo) auto
qed

lemma decimal_text_zero: "decimal_text ds fo = ''0'' \<Longrightarrow> decimal_rat ds fo = 0"
  by (cases fo) (auto simp: decimal_value_def digit_value_def append_eq_Cons_conv)

lemma parse_bytes_value:
  assumes "float_parser pf" "decimal_ok ds fo" "float64 (decimal_rat ds fo)" "suffix_factor (map upper_char u) = Some k"
    and "list_all is_space a" "list_all is_space b" "list_all is_space e"
  shows "parse_bytes pf outside (a @ decimal_text ds fo @ b @ u @ e) = Inr (to_int64 outside (decimal_rat ds fo * of_int k))"
proof -
  let ?t = "decimal_text ds fo"
  note t = decimal_text_chars [OF assms(2)] and u = suffix_char [OF assms(4)]
  have d: "\<not> is_space (hd ?t)" "\<not> is_space (last ?t)" using t(1,3) by auto
  define r where "r = (if u = [] then [] else b @ u)"
  have s: "trim_space (a @ ?t @ b @ u @ e) = ?t @ r"
  proof (cases "u = []")
    case True
    have "list_all is_space (b @ e)" using assms(6,7) by simp
    then show ?thesis
      using trim_space_between [OF assms(5) _ t(1) d, of "b @ e"] True by (simp add: r_def)
  next
    case False
    then show ?thesis
      using trim_space_between [OF assms(5,7), of "?t @ b @ u"] t(1) d(1) u [of "last u"]
      by (simp add: r_def hd_append)
  qed
  have suf: "trim_space r = u"
  proof (cases "u = []")
    case True
    then show ?thesis by (simp add: r_def trim_space_def)
  next
    case False
    then show ?thesis
      using trim_space_between [OF assms(6), of "[]" u] u [of "hd u"] u [of "last u"] by (simp add: r_def)
  qed
  have "r = [] \<or> \<not> number_char (hd r)"
    using assms(6) space_char u [of "hd u"] by (cases b) (auto simp: r_def)
  then have len: "number_length (?t @ r) = length ?t" by (rule number_length_append [OF t(2)])
  have float: "pf ?t = Inr (decimal_rat ds fo)"
    using assms(1-3) by (simp add: float_parser_def)
  show ?thesis
  proof (cases "?t @ r = ''0''")
    case True
    then have "?t = ''0''" "r = []" using t(1) by (cases ?t; auto)+
    then show ?thesis using True s decimal_text_zero by (simp add: parse_bytes_def to_int64_def)
  next
    case False
    then show ?thesis
      using s len suf float assms(4) t(1) by (simp add: parse_bytes_def Let_def)
  qed
qed

lemma parse_bytes_digits:
  assumes "float_parser pf" "ds \<noteq> []" "list_all dec_digit ds" "decimal_value ds < 2 ^ 53"
    and "suffix_factor (map upper_char u) = Some k"
  shows "parse_bytes pf outside (ds @ u) = Inr (to_int64 outside (of_int (decimal_value ds * k)))"
  using parse_bytes_value [of pf ds None u k "[]" "[]" "[]" outside] assms decimal_value_nonneg [OF assms(3)]
  by (simp add: float64_int)

text \<open>C36. A size with a unit is read exactly: for a decimal number, with or without a fraction, that a
  \<open>float64\<close> represents (each integer below $2^{53}$ and, say, 2.5), and one of the
  units B, K, M, G, T (the last four also followed by B or iB; in any case; or no unit), with spaces around
  and in between, the result is the number times the unit's power of 1024, rounded down, when that fits an
  \<open>int64\<close>.\<close>

theorem parse_bytes_exact:
  assumes "float_parser pf" "decimal_ok ds fo" "float64 (decimal_rat ds fo)"
    and "unit_power (map upper_char u) = Some n" "decimal_rat ds fo * 1024 ^ n < 2 ^ 63"
    and "list_all is_space a" "list_all is_space b" "list_all is_space e"
  shows "parse_bytes pf outside (a @ decimal_text ds fo @ b @ u @ e) = Inr \<lfloor>decimal_rat ds fo * 1024 ^ n\<rfloor>"
proof -
  let ?v = "decimal_rat ds fo * 1024 ^ n"
  have v: "0 \<le> ?v" using decimal_rat_nonneg [OF assms(2)] by simp
  then have "0 \<le> \<lfloor>?v\<rfloor>" "\<lfloor>?v\<rfloor> < 2 ^ 63" using assms(5) by (simp_all add: floor_less_iff)
  then have "to_int64 outside ?v = \<lfloor>?v\<rfloor>" using v by (simp add: to_int64_def Let_def)
  then show ?thesis
    using parse_bytes_value [OF assms(1-3) unit_factor [OF assms(4)] assms(6-8), of outside] by simp
qed

section \<open>A new disk cache\<close>

lemma walk_total_files:
  "walk_files dir fs d = (rs, d') \<Longrightarrow> walk_total rs t = Inr n \<Longrightarrow> n = t + fsum (below dir) fs"
proof (induction dir fs d arbitrary: rs d' t rule: walk_files.induct)
  case (1 dir d)
  then show ?case by (simp add: fsum_def)
next
  case (2 dir p f fs d)
  obtain r d1 where call: "os_call d = (r, d1)" by force
  obtain rs1 d2 where rest: "walk_files dir fs d1 = (rs1, d2)" by force
  obtain rs2 d3 where skip: "walk_files dir fs d = (rs2, d3)" by force
  show ?case
  proof (cases "below dir p")
    case True
    with "2.prems"(1) call rest have rs: "rs = (p, case r of Some e \<Rightarrow> Inl (OSError e) | None \<Rightarrow> Inr f) # rs1" by simp
    with "2.prems"(2) have "r = None" by (cases r) simp_all
    then have "walk_total rs1 (t + file_size f) = Inr n" using rs "2.prems"(2) by simp
    from "2.IH"(1) [OF True call [symmetric] rest this] True show ?thesis by (simp add: fsum_def)
  next
    case False
    with "2.prems"(1) skip have "rs = rs2" by simp
    with "2.IH"(2) [OF False skip] "2.prems"(2) False show ?thesis by (simp add: fsum_def)
  qed
qed

lemma new_cache_exact:
  assumes "new_cache dir max_bytes d = (Inr c, d')"
  shows "ca_dir c = dir" "ca_cap c = max_bytes" "dk_files d' = dk_files d"
    "0 < max_bytes \<Longrightarrow> ca_size c = used_below dir d'"
proof -
  obtain r d1 where mk: "os_mkdir_all dir d = (r, d1)" by force
  obtain rs d2 where wk: "os_walk dir d1 = (rs, d2)" by force
  have r: "r = Inr ()" using assms mk by (cases r) (simp_all add: new_cache_def)
  have files: "dk_files d1 = dk_files d" using os_mkdir_all_effect [OF mk] by simp
  have cases: "ca_dir c = dir \<and> ca_cap c = max_bytes \<and>
    (if 0 < max_bytes then walk_total rs 0 = Inr (ca_size c) \<and> d' = d2 else d' = d1)"
    using assms mk wk r by (auto simp: new_cache_def rescan_def Let_def split: if_splits sum.splits)
  then show "ca_dir c = dir" "ca_cap c = max_bytes" by simp_all
  obtain q d1' where call: "os_call d1 = (q, d1')" by force
  note c1 = os_call_effect [OF call]
  have wf: "dk_files d2 = dk_files d1"
    using wk call c1 walk_files_effect [of dir "dk_files d1'" d1' rs d2]
    by (auto simp: os_walk_def split: option.splits)
  then show "dk_files d' = dk_files d" using cases files by (simp split: if_splits)
  assume pos: "0 < max_bytes"
  then have "q = None" using cases wk call by (cases q) (auto simp: os_walk_def)
  then have "walk_files dir (dk_files d1') d1' = (rs, d2)" using wk call c1 by (simp add: os_walk_def)
  from walk_total_files [OF this, of 0 "ca_size c"] cases pos show "ca_size c = used_below dir d'"
    using c1 wf by (simp add: used_below_def)
qed

text \<open>What \<open>Size\<close> reports: \<open>New\<close> counts at once when there is a limit, and without one the count
  stays 0 whatever is written.\<close>

lemma new_cache_size:
  assumes "new_cache dir max_bytes d = (Inr c, d')"
  shows "cache_size c = (if 0 < max_bytes then used_below dir d' else 0)"
  using new_cache_exact(4) [OF assms] assms
  by (auto simp: cache_size_def new_cache_def Let_def split: sum.splits prod.splits if_splits)

lemma size_without_limit:
  assumes "ca_cap c \<le> 0" "cache_write srt c key out ferr d = ((r, c'), d')"
  shows "cache_size c' = cache_size c"
  using assms account_file_unbounded [OF assms(1)]
  by (auto simp: cache_write_def finish_write_def split: prod.splits option.splits)

text \<open>A size too large for an \<open>int64\<close> switches the limit off: where the conversion of a float out
  of range gives the smallest integer, as on amd64, a size of $2^{63}$ bytes or more is read
  without an error as a negative number, and a disk cache of that size never evicts anything.\<close>

theorem oversized_limit_is_none:
  assumes "float_parser pf" "ds \<noteq> []" "list_all dec_digit ds" "decimal_value ds < 2 ^ 53"
    and "unit_power (map upper_char u) = Some n" "2 ^ 63 \<le> decimal_value ds * 1024 ^ n"
    and "parse_bytes pf (\<lambda>_. - (2 ^ 63)) (ds @ u) = Inr m" "new_cache dir m d = (Inr c, d1)"
  shows "m = - (2 ^ 63) \<and> account_file srt c p old d2 = ((None, c), d2)"
proof -
  have "parse_bytes pf (\<lambda>_. - (2 ^ 63)) (ds @ u) = Inr (to_int64 (\<lambda>_. - (2 ^ 63)) (of_int (decimal_value ds * 1024 ^ n)))"
    using parse_bytes_digits [OF assms(1-4) unit_factor [OF assms(5)]] by simp
  then have "m = - (2 ^ 63)"
    using assms(6,7) by (simp add: to_int64_def Let_def flip: of_int_mult of_int_power)
  moreover from this have "ca_cap c \<le> 0" using new_cache_exact(2) [OF assms(8)] by simp
  ultimately show ?thesis using account_file_unbounded by simp
qed

section \<open>The started process\<close>

text \<open>C37. The process starts as configured: when \<open>run\<close> gets to the mount, the mount point is the argument, the
  platform and the two sizes given were parsed, and the disk cache is in the directory chosen.  Starting changed no file.
  With a positive limit the disk cache counts exactly the bytes of the files below its directory; without
  one its count is 0, whatever the directory holds.  The chunk cache is empty, with chunks of 1 MiB, and no
  image is resolved.\<close>

theorem run_starts_exact:
  assumes "run en d = (Inr st, d1)" "c = ix_cache (st_indexer st)"
  shows "(\<exists>cfg. en_config en = Inr cfg \<and> en_args en = [hd (en_args en), st_mountpoint st] \<and>
      en_parse_platform en (cfg_platform cfg) = Inr (fs_platform (st_fs st)) \<and> fs_tag_ttl (st_fs st) = cfg_tag_ttl cfg \<and>
      parse_bytes (en_parse_float en) (en_outside en) (cfg_cache_max_size cfg) = Inr (ca_cap c) \<and>
      parse_bytes (en_parse_float en) (en_outside en) (cfg_memory_max_size cfg) = Inr (cc_cap (st_chunks st)) \<and>
      resolve_cache_dir (en_xdg en) (en_home en) (cfg_cache_dir cfg) = Inr (ca_dir c)) \<and>
    dk_files d1 = dk_files d \<and> cache_size c = (if 0 < ca_cap c then used_below (ca_dir c) d1 else 0) \<and>
    cc_used (st_chunks st) = 0 \<and> cc_chunk_size (st_chunks st) = 2 ^ 20 \<and> fs_images (st_fs st) = Map.empty"
proof -
  from assms(1) obtain cfg platform dir m mem c' where r: "en_config en = Inr cfg" "length (en_args en) = 2"
      "en_parse_platform en (cfg_platform cfg) = Inr platform"
      "resolve_cache_dir (en_xdg en) (en_home en) (cfg_cache_dir cfg) = Inr dir"
      "parse_bytes (en_parse_float en) (en_outside en) (cfg_cache_max_size cfg) = Inr m"
      "parse_bytes (en_parse_float en) (en_outside en) (cfg_memory_max_size cfg) = Inr mem"
      "new_cache dir m d = (Inr c', d1)"
      "st = \<lparr>st_mountpoint = en_args en ! 1,
         st_fs = \<lparr>fs_platform = platform, fs_tag_ttl = cfg_tag_ttl cfg, fs_images = Map.empty\<rparr>,
         st_indexer = new_indexer c' True, st_chunks = new_chunk_cache mem (2 ^ 20),
         st_options = mount_opts (cfg_debug cfg)\<rparr>"
    by (auto simp: run_def split: if_splits sum.splits prod.splits)
  have "c = c'" using assms(2) r(8) by (simp add: new_indexer_def)
  moreover have "en_args en = [hd (en_args en), en_args en ! 1]"
    using r(2) by (cases "en_args en"; cases "tl (en_args en)") auto
  ultimately show ?thesis
    using r(1,3-8) new_cache_exact(1-3) [OF r(7)] new_cache_size [OF r(7)] by (simp add: new_chunk_cache_def Let_def)
qed

section \<open>Witnesses\<close>

definition demo_float :: "string \<Rightarrow> string + rat" where
  "demo_float s =
     (let ds = takeWhile (\<lambda>c. c \<noteq> CHR ''.'') s
      in Inr (decimal_rat ds (case drop (length ds) s of [] \<Rightarrow> None | _ # fs \<Rightarrow> Some fs)))"

lemma demo_float_parser: "float_parser demo_float"
proof -
  have "demo_float (decimal_text ds fo) = Inr (decimal_rat ds fo)" if "decimal_ok ds fo" for ds fo
  proof -
    have "c \<noteq> CHR ''.''" if "c \<in> set ds" for c
    proof -
      have "dec_digit c" using that \<open>decimal_ok ds fo\<close> by (cases fo) (auto simp: list_all_iff)
      then show ?thesis by (auto simp: dec_digit_def less_eq_char_def)
    qed
    then have "takeWhile (\<lambda>c. c \<noteq> CHR ''.'') (decimal_text ds fo) = ds"
      by (cases fo) (auto simp: takeWhile_eq_all_conv takeWhile_append)
    then show ?thesis by (cases fo) (simp_all add: demo_float_def Let_def del: takeWhile_eq_all_conv)
  qed
  then show ?thesis by (simp add: float_parser_def)
qed

definition demo_environment :: environment where
  "demo_environment = \<lparr>en_args = [''ocifuse'', ''/mnt''],
     en_config = Inr \<lparr>cfg_platform = ''linux/amd64'', cfg_cache_dir = ''/c'', cfg_cache_max_size = ''2kB'',
       cfg_memory_max_size = ''0'', cfg_tag_ttl = 0, cfg_debug = False\<rparr>,
     en_xdg = [], en_home = Inl ''unset'',
     en_parse_platform = (\<lambda>_. Inr \<lparr>plat_os = ''linux'', plat_arch = ''amd64'', plat_variant = []\<rparr>),
     en_parse_float = demo_float, en_outside = (\<lambda>_. - (2 ^ 63))\<rparr>"

theorem parse_bytes_exact_witness:
  "parse_bytes demo_float (\<lambda>_. 0) ('' '' @ ''2.5'' @ '' '' @ ''gib'' @ [CHR 0x0A]) = Inr 2684354560"
proof -
  have d: "decimal_ok ''2'' (Some ''5'')" "decimal_value ''25'' = 25" "unit_power (map upper_char ''gib'') = Some 3"
    "list_all is_space '' ''" "list_all is_space [CHR 0x0A]"
    by code_simp+
  have v: "decimal_rat ''2'' (Some ''5'') = 5 / 2" using d(2) by simp
  have f: "float64 (decimal_rat ''2'' (Some ''5''))"
    unfolding float64_def v by (intro exI [of _ 5] exI [of _ 0] exI [of _ 1]) simp
  show ?thesis
    using parse_bytes_exact [OF demo_float_parser d(1) f d(3) _ d(4,4,5), of "\<lambda>_. 0"] unfolding v by simp
qed

theorem oversized_limit_is_none_witness:
  "\<exists>c d1. parse_bytes demo_float (\<lambda>_. - (2 ^ 63)) (''8388608'' @ ''tb'') = Inr (- (2 ^ 63)) \<and>
     new_cache ''/c'' (- (2 ^ 63)) (demo_disk (\<lambda>_. None)) = (Inr c, d1) \<and>
     account_file (insertion_sort ev_mtime) c ''/c/k'' 0 d1 = ((None, c), d1)"
proof -
  have ds: "list_all dec_digit ''8388608''" "decimal_value ''8388608'' = 8388608"
    "unit_power (map upper_char ''tb'') = Some 4"
    by code_simp+
  note unit = unit_factor [OF ds(3)]
  obtain m where m: "parse_bytes demo_float (\<lambda>_. - (2 ^ 63)) (''8388608'' @ ''tb'') = Inr m"
    using parse_bytes_digits [OF demo_float_parser _ ds(1) _ unit] ds(2) by simp
  have "\<not> isl (fst (new_cache ''/c'' (- (2 ^ 63)) (demo_disk (\<lambda>_. None))))" by code_simp
  then obtain c d1 where n: "new_cache ''/c'' (- (2 ^ 63)) (demo_disk (\<lambda>_. None)) = (Inr c, d1)"
    by (metis not_isl_Inr prod.collapse)
  have "m = - (2 ^ 63)"
    using parse_bytes_digits [OF demo_float_parser _ ds(1) _ unit, of "\<lambda>_. - (2 ^ 63)"] ds(2) m
    by (simp add: to_int64_def Let_def flip: of_int_mult)
  with oversized_limit_is_none [OF demo_float_parser _ ds(1) _ ds(3) _ m, of "''/c''" "demo_disk (\<lambda>_. None)" c d1
      "insertion_sort ev_mtime" "''/c/k''" 0 d1]
  show ?thesis using m n ds(2) by auto
qed

lemma started_on:
  assumes "new_cache ''/c'' 2048 d = (Inr c, d1)"
  obtains st :: "'f started" where "run demo_environment d = (Inr st, d1)" "ix_cache (st_indexer st) = c"
    "st_mountpoint st = ''/mnt''"
proof -
  have max: "parse_bytes demo_float (\<lambda>_. - (2 ^ 63)) ''2kB'' = Inr 2048"
  proof -
    have "list_all dec_digit ''2''" "decimal_value ''2'' = 2" "suffix_factor (map upper_char ''kB'') = Some 1024"
      by code_simp+
    then show ?thesis
      using parse_bytes_digits [OF demo_float_parser, of "''2''" "''kB''" 1024 "\<lambda>_. - (2 ^ 63)"]
      by (simp add: to_int64_def)
  qed
  have "parse_bytes demo_float (\<lambda>_. - (2 ^ 63)) ''0'' = Inr 0"
    by (simp add: parse_bytes_def trim_space_def is_space_def)
  then show thesis
    using that assms max by (simp add: run_def demo_environment_def resolve_cache_dir_def new_indexer_def)
qed

lemma demo_started:
  obtains c d1 and st :: "'f started" where "run demo_environment (demo_disk (\<lambda>_. None)) = (Inr st, d1)"
    "new_cache ''/c'' 2048 (demo_disk (\<lambda>_. None)) = (Inr c, d1)" "ix_cache (st_indexer st) = c" "st_mountpoint st = ''/mnt''"
proof -
  have "\<not> isl (fst (new_cache ''/c'' 2048 (demo_disk (\<lambda>_. None))))" by code_simp
  then obtain c d1 where n: "new_cache ''/c'' 2048 (demo_disk (\<lambda>_. None)) = (Inr c, d1)"
    by (metis not_isl_Inr prod.collapse)
  then show thesis using that started_on [OF n] by metis
qed

theorem run_starts_exact_witness:
  "\<exists>(st :: unit started) d1. run demo_environment (demo_disk (\<lambda>_. None)) = (Inr st, d1) \<and>
     cache_size (ix_cache (st_indexer st)) = used_below ''/c'' d1 \<and> ca_cap (ix_cache (st_indexer st)) = 2048"
proof -
  obtain c d1 and st :: "unit started" where st: "run demo_environment (demo_disk (\<lambda>_. None)) = (Inr st, d1)"
    "new_cache ''/c'' 2048 (demo_disk (\<lambda>_. None)) = (Inr c, d1)" "ix_cache (st_indexer st) = c"
    using demo_started by blast
  have c: "ca_cap c = 2048" "ca_dir c = ''/c''" using new_cache_exact [OF st(2)] by simp_all
  have "cache_size (ix_cache (st_indexer st)) = used_below ''/c'' d1 \<and> ca_cap (ix_cache (st_indexer st)) = 2048"
    using run_starts_exact [OF st(1) refl] st(3) c by simp
  then show ?thesis using st(1) by blast
qed

end
