(* ===== verification/Process.thy ===== *)
theory Process
  imports Registry_Props Indexer_Props Image_Walk
begin

text \<open>
  The process as a whole: one disk cache serves the registry transport and the indexer, and the
  mount uses both.  The two clients of the cache do not disturb each other, and what a lookup
  finds is what the registry publishes.
\<close>

section \<open>The services of a process\<close>

text \<open>\<open>oci.Resolve\<close> and \<open>ix.Open\<close> as the mount calls them, on the shared state; an error becomes a
  text.  The cache pointer of the indexer is the one that \<open>SetCache\<close> was given, so there always
  is one.\<close>

definition resolve_service ::
  "('a, 'i, 'l, 'w) registry_client \<Rightarrow> (evict_entry list \<Rightarrow> evict_entry list) \<Rightarrow> (registry_error \<Rightarrow> string) \<Rightarrow>
   reference \<Rightarrow> platform \<Rightarrow> 'w oci_state \<Rightarrow> (string + 'l oci_image) \<times> 'w oci_state" where
  "resolve_service rg srt txt ref platform st =
     (case Resolve rg srt ref platform st of
        (Inl e, st1) \<Rightarrow> (Inl (txt e), st1)
      | (Inr img, st1) \<Rightarrow> (Inr (oci_image.truncate img), st1))"

definition open_service ::
  "('l, 'z, 'f, 'w) targz \<Rightarrow> (evict_entry list \<Rightarrow> evict_entry list) \<Rightarrow> (index_error \<Rightarrow> string) \<Rightarrow> bool \<Rightarrow>
   string \<Rightarrow> 'l \<Rightarrow> 'w oci_state \<Rightarrow> (string + 'f layer) \<times> 'w oci_state" where
  "open_service tz srt txt chunks url l st =
     (case oc_cache st of
        None \<Rightarrow> (Inl ''no cache'', st)
      | Some c \<Rightarrow>
          (case open_layer tz srt \<lparr>ix_cache = c, ix_chunks = chunks\<rparr> url l (oc_disk st) (oc_world st) of
             (r, (ix, d), w) \<Rightarrow>
               (case r of Inl e \<Rightarrow> Inl (txt e) | Inr ly \<Rightarrow> Inr ly,
                st\<lparr>oc_cache := Some (ix_cache ix), oc_disk := d, oc_world := w\<rparr>)))"

record ('a, 'i, 'l, 'z, 'f, 'w) packages =
  pk_client :: "('a, 'i, 'l, 'w) registry_client"
  pk_targz :: "('l, 'z, 'f, 'w) targz"
  pk_new_hash :: "string \<Rightarrow> string + hash"
  pk_evict_sort :: "evict_entry list \<Rightarrow> evict_entry list"
  pk_layer_sort :: "tarfs_entry list \<Rightarrow> tarfs_entry list"
  pk_registry_text :: "registry_error \<Rightarrow> string"
  pk_index_text :: "index_error \<Rightarrow> string"

definition process_services ::
  "('a, 'i, 'l, 'z, 'f, 'w) packages \<Rightarrow> bool \<Rightarrow> ('l, 'f, 'w oci_state) services" where
  "process_services pk chunks =
     \<lparr>sv_new_hash = pk_new_hash pk,
      sv_resolve = resolve_service (pk_client pk) (pk_evict_sort pk) (pk_registry_text pk),
      sv_layer_digest = tz_digest (pk_targz pk),
      sv_open_layer = open_service (pk_targz pk) (pk_evict_sort pk) (pk_index_text pk) chunks,
      sv_get = fetch_desc (pk_client pk) (pk_evict_sort pk) (pk_registry_text pk),
      sv_sort = pk_layer_sort pk\<rparr>"

section \<open>Two clients of one cache\<close>

text \<open>Entries of the registry transport end in a digest, index files in a fixed name.\<close>

lemma registry_not_index:
  assumes "has_prefix dir ''/''" "digest_path_re p"
  shows "index_genuine tz dir (response_key p) v"
proof -
  have "path_join [dir, response_key p] \<noteq> path_join [dir, index_key h nm]"
    if "proper nm" "\<not> has_prefix nm ''sha256:''" for h nm
    using registry_key(1,3) [OF assms(2,1)] index_base [OF assms(1) that(1), of h] that(2) by metis
  moreover have "\<not> has_prefix ''gsip.idx'' ''sha256:''" "\<not> has_prefix ''tarfs.toc'' ''sha256:''" by code_simp+
  ultimately show ?thesis by (simp add: index_genuine_def)
qed

lemma index_not_registry:
  assumes "has_prefix dir ''/''"
  shows "genuine content dir (gsip_key h) v" "genuine content dir (toc_key h) v"
proof -
  have "\<not> has_prefix ''gsip.idx'' ''sha256:''" "\<not> has_prefix ''tarfs.toc'' ''sha256:''" by code_simp+
  then show "genuine content dir (gsip_key h) v" "genuine content dir (toc_key h) v"
    using index_base [OF assms index_names(1)] index_base [OF assms index_names(2)] by (simp_all add: genuine_def)
qed

text \<open>The shared cache holds genuine entries of both.\<close>

definition process_ok :: "(string \<Rightarrow> bytes) \<Rightarrow> ('l, 'z, 'f, 'w) targz \<Rightarrow> path \<Rightarrow> 'w oci_state \<Rightarrow> bool" where
  "process_ok content tz dir st \<longleftrightarrow>
     (\<exists>c. oc_cache st = Some c \<and> transport_ok content dir (c, oc_disk st) \<and> index_ok tz dir (c, oc_disk st))"

abbreviation indexes_ok :: "('l, 'z, 'f, 'w) targz \<Rightarrow> path \<Rightarrow> 'w oci_state \<Rightarrow> bool" where
  "indexes_ok tz dir st \<equiv> \<exists>c. oc_cache st = Some c \<and> index_ok tz dir (c, oc_disk st)"

lemma process_ok_iff: "process_ok content tz dir st \<longleftrightarrow> oci_ok content dir st \<and> indexes_ok tz dir st"
  by (auto simp: process_ok_def oci_ok_def)

lemma process_ok_world [simp]: "process_ok content tz dir (st\<lparr>oc_world := w\<rparr>) = process_ok content tz dir st"
  by (simp add: process_ok_def)

text \<open>Requests to the registry keep the indexes.\<close>

lemma base_keeps_indexes:
  fixes base :: "'w round_tripper"
  shows "keeps (indexes_ok tz dir) (base_transport srt base st0)"
proof -
  have default: "indexes_ok tz dir st'" if "indexes_ok tz dir st" "default_transport base req st = (r, st')" for req st r st'
    using that by (auto simp: default_transport_def split: prod.splits)
  have caching: "indexes_ok tz dir st'" if st: "indexes_ok tz dir st" and run: "disk_caching_transport srt base req st = (r, st')"
    for req st r st'
  proof -
    obtain c where c: "oc_cache st = Some c" "index_ok tz dir (c, oc_disk st)" using st by blast
    then have inv: "disk_inv dir (c, oc_disk st)" "disk.coherent dir (index_genuine tz dir) (c, oc_disk st)" "has_prefix dir ''/''"
      by (simp_all add: index_ok_def disk_inv_def)
    obtain r1 c' d' w' where rt: "RoundTrip srt base req (c, oc_disk st) (oc_world st) = (r1, (c', d'), w')"
      by (metis surj_pair)
    have "index_ok tz dir (c', d')"
      using round_trip_coherent [OF inv(1,2) index_genuine_addr registry_not_index [OF inv(3)] rt] by (simp add: index_ok_def)
    then show ?thesis using run c(1) rt by (auto simp: disk_caching_transport_def)
  qed
  have "keeps (indexes_ok tz dir) t"
    if "\<And>req st r st'. indexes_ok tz dir st \<Longrightarrow> t req st = (r, st') \<Longrightarrow> indexes_ok tz dir st'" for t :: "'w transport"
    unfolding keeps_def using that by (intro conjI allI impI) (simp, blast)
  then have "keeps (indexes_ok tz dir) (default_transport base)" "keeps (indexes_ok tz dir) (disk_caching_transport srt base)"
    using default caching by blast+
  then show ?thesis by (simp add: base_transport_def)
qed

text \<open>Opening a layer keeps the registry's entries.\<close>

lemma open_service_ok:
  assumes "process_ok content tz dir st" "toc_codec tz" "tz_digest tz l = Inr h" "hash_wf h"
    and "open_service tz srt txt chunks (blob_url ref h) l st = (r, st')"
  shows "process_ok content tz dir st'" "r = Inr ly \<Longrightarrow> ly_digest ly = h \<and> (\<exists>z. scanned tz h (ly_entries ly) z)"
proof -
  obtain c where c: "oc_cache st = Some c" "transport_ok content dir (c, oc_disk st)" "index_ok tz dir (c, oc_disk st)"
    using assms(1) by (auto simp: process_ok_def)
  let ?ix = "\<lparr>ix_cache = c, ix_chunks = chunks\<rparr>"
  obtain q ix d w where o: "open_layer tz srt ?ix (blob_url ref h) l (oc_disk st) (oc_world st) = (q, (ix, d), w)"
    by (metis surj_pair)
  have inv: "disk_inv dir (ix_cache ?ix, oc_disk st)" "disk.coherent dir (genuine content dir) (ix_cache ?ix, oc_disk st)"
    "has_prefix dir ''/''"
    using c(2) by (simp_all add: transport_ok_def disk_inv_def)
  have "transport_ok content dir (ix_cache ix, d)"
    using open_layer_coherent [OF inv(1,2) genuine_addr index_not_registry [OF inv(3)] o] by (simp add: transport_ok_def)
  moreover have g: "index_ok tz dir (ix_cache ix, d) \<and>
      (\<forall>ly. q = Inr ly \<longrightarrow> ly_digest ly = h \<and> (\<exists>z. scanned tz h (ly_entries ly) z))"
    using open_layer_genuine [OF _ assms(3,4,2) o, of dir] c(3) by simp
  moreover have "st' = st\<lparr>oc_cache := Some (ix_cache ix), oc_disk := d, oc_world := w\<rparr>"
    "r = (case q of Inl e \<Rightarrow> Inl (txt e) | Inr ly \<Rightarrow> Inr ly)"
    using assms(5) c(1) o by (simp_all add: open_service_def)
  ultimately show "process_ok content tz dir st'"
    "r = Inr ly \<Longrightarrow> ly_digest ly = h \<and> (\<exists>z. scanned tz h (ly_entries ly) z)"
    by (auto simp: process_ok_def split: sum.splits)
qed

section \<open>What is assumed of the world\<close>

text \<open>The documented behaviour of the packages, and a registry that serves content by digest, in
  every world: the content of a digest (\<open>content\<close>) is what it answers with for a manifest of that digest and what its
  blob URLs of that digest deliver ranges of; the
  digest of an image is that of the manifest it was parsed from, a parsed digest prints as it was
  written, layers have digests that are proper path segments and the sizes of their blobs, and a scan of a reader
  of a blob lists the entries of its archive (\<open>archive\<close>).\<close>

definition blobs_of :: "(string \<Rightarrow> bytes) \<Rightarrow> hash \<Rightarrow> bytes" where
  "blobs_of content h = content (hash_string h)"

definition blob_entries :: "(string \<Rightarrow> bytes) \<Rightarrow> (bytes \<Rightarrow> tarfs_entry list) \<Rightarrow> hash \<Rightarrow> tarfs_entry list" where
  "blob_entries content archive h = archive (blobs_of content h)"

definition published ::
  "('a, 'i, 'l, 'z, 'f, 'w) packages \<Rightarrow> (string \<Rightarrow> bytes \<Rightarrow> string + 'i) \<Rightarrow> (string \<Rightarrow> bool) \<Rightarrow> (string \<Rightarrow> bytes) \<Rightarrow>
   (bytes \<Rightarrow> tarfs_entry list) \<Rightarrow> bool" where
  "published pk parse single content archive \<longleftrightarrow>
     client_ok (pk_client pk) parse single \<and> serves (rg_default (pk_client pk)) content \<and> toc_codec (pk_targz pk) \<and>
     slice_sorter filename (pk_layer_sort pk) \<and>
     (\<forall>e ct i. wf_digest e \<longrightarrow> parse ct (content e) = Inr i \<longrightarrow>
        (\<forall>h. rg_digest (pk_client pk) i = Inr h \<longrightarrow> hash_string h = e)) \<and>
     (\<forall>i ls l. rg_layers (pk_client pk) i = Inr ls \<longrightarrow> l \<in> set ls \<longrightarrow>
        (\<exists>h. tz_digest (pk_targz pk) l = Inr h \<and> hash_wf h)) \<and>
     serves_blobs (pk_targz pk) (blobs_of content) \<and> scans_archive (pk_targz pk) (blobs_of content) archive \<and>
     (\<forall>d h. pk_new_hash pk d = Inr h \<longrightarrow> hash_string h = d)"

text \<open>An image as published under its digest: the layers are those of the manifest, with the entries
  of their blobs, and the tree is their merge.\<close>

definition image_of ::
  "('a, 'i, 'l, 'z, 'f, 'w) packages \<Rightarrow> (string \<Rightarrow> bytes \<Rightarrow> string + 'i) \<Rightarrow> (string \<Rightarrow> bytes) \<Rightarrow>
   (bytes \<Rightarrow> tarfs_entry list) \<Rightarrow> 'f resolved_image \<Rightarrow> bool" where
  "image_of pk parse content archive ri \<longleftrightarrow>
     (\<exists>ct i ls. parse ct (content (hash_string (ri_digest ri))) = Inr i \<and>
        rg_layers (pk_client pk) i = Inr ls \<and> map (tz_digest (pk_targz pk)) ls = map (\<lambda>ly. Inr (ly_digest ly)) (ri_layers ri)) \<and>
     (\<forall>ly \<in> set (ri_layers ri). ly_entries ly = blob_entries content archive (ly_digest ly)) \<and>
     ri_tree ri = Merge (pk_layer_sort pk) (map ly_entries (ri_layers ri))"

definition images_of where
  "images_of pk parse content archive f \<longleftrightarrow>
     (\<forall>h ri. fs_images f h = Some ri \<longrightarrow> ri_digest ri = h \<and> image_of pk parse content archive ri)"

lemma publishedD:
  assumes "published pk parse single content archive"
  shows "client_ok (pk_client pk) parse single" "serves (rg_default (pk_client pk)) content" "toc_codec (pk_targz pk)"
    "slice_sorter filename (pk_layer_sort pk)"
    "wf_digest e \<Longrightarrow> parse ct (content e) = Inr i \<Longrightarrow> rg_digest (pk_client pk) i = Inr h \<Longrightarrow> hash_string h = e"
    "rg_layers (pk_client pk) i = Inr ls \<Longrightarrow> l \<in> set ls \<Longrightarrow> \<exists>h. tz_digest (pk_targz pk) l = Inr h \<and> hash_wf h"
    "\<forall>h es z. hash_wf h \<longrightarrow> scanned (pk_targz pk) h es z \<longrightarrow> es = blob_entries content archive h"
    "pk_new_hash pk d = Inr h \<Longrightarrow> hash_string h = d"
  using assms scanned_archive [of "pk_targz pk" "blobs_of content" archive]
  unfolding published_def blob_entries_def by blast+

section \<open>Resolving in a process\<close>

lemma resolve_service_ok:
  assumes "published pk parse single content archive" "process_ok content (pk_targz pk) dir st"
    and "repo_path c \<noteq> []" "CHR 0x0A \<notin> set (repo_path c)"
    and "resolve_service (pk_client pk) (pk_evict_sort pk) txt (RefDigest c d) platform st = (r, st')"
  shows "process_ok content (pk_targz pk) dir st'"
    "r = Inr img \<Longrightarrow> (single d \<longrightarrow> hash_string (im_digest img) = d) \<and>
       (\<exists>ct i. parse ct (content (hash_string (im_digest img))) = Inr i \<and> rg_layers (pk_client pk) i = Inr (im_layers img))"
proof -
  note pub = publishedD [OF assms(1)]
  obtain q st1 where q: "Resolve (pk_client pk) (pk_evict_sort pk) (RefDigest c d) platform st = (q, st1)" by (meson surj_pair)
  have ok: "oci_ok content dir st" "indexes_ok (pk_targz pk) dir st" using assms(2) by (simp_all add: process_ok_iff)
  note parsed = Resolve_parsed [OF pub(1,2) ok(1) assms(3,4) q]
  have st': "st' = st1" using assms(5) q by (auto simp: resolve_service_def split: sum.splits)
  show "process_ok content (pk_targz pk) dir st'"
    using parsed(1) Resolve_keeps [OF pub(1) base_keeps_indexes ok(2) q] by (simp add: st' process_ok_iff)
  assume "r = Inr img"
  then obtain h where h: "q = Inr h" "img = oci_image.truncate h"
    using assms(5) q by (auto simp: resolve_service_def split: sum.splits)
  then have img: "im_digest img = im_digest h" "im_layers img = im_layers h" by (simp_all add: oci_image.defs)
  obtain e ct where e: "wf_digest e" "single d \<longrightarrow> e = d" "parse ct (content e) = Inr (im_image h)"
    "rg_digest (pk_client pk) (im_image h) = Inr (im_digest h)" "rg_layers (pk_client pk) (im_image h) = Inr (im_layers h)"
    using parsed(2) [OF h(1)] by (auto simp: parsed_from_def)
  have "hash_string (im_digest h) = e" using pub(5) [OF e(1,3,4)] .
  then show "(single d \<longrightarrow> hash_string (im_digest img) = d) \<and>
      (\<exists>ct i. parse ct (content (hash_string (im_digest img))) = Inr i \<and> rg_layers (pk_client pk) i = Inr (im_layers img))"
    using e(2,3,5) img by auto
qed

lemma open_layers_ok:
  assumes "process_ok content tz dir st" "toc_codec tz" "\<forall>l \<in> set ls. \<exists>h. tz_digest tz l = Inr h \<and> hash_wf h"
    and "\<forall>h es z. hash_wf h \<longrightarrow> scanned tz h es z \<longrightarrow> es = scan h"
    and "open_layers (tz_digest tz) (open_service tz srt txt chunks) ref ls st = (r, st')"
  shows "process_ok content tz dir st' \<and> (\<forall>lys. r = Inr lys \<longrightarrow>
    map (tz_digest tz) ls = map (\<lambda>ly. Inr (ly_digest ly)) lys \<and> (\<forall>ly \<in> set lys. ly_entries ly = scan (ly_digest ly)))"
  using assms(1,3,5)
proof (induction ls arbitrary: st r st')
  case (Cons l ls)
  obtain h where h: "tz_digest tz l = Inr h" "hash_wf h" using Cons.prems(2) by auto
  obtain q st1 where q: "open_service tz srt txt chunks (blob_url ref h) l st = (q, st1)" by (meson surj_pair)
  note one = open_service_ok [OF Cons.prems(1) assms(2) h q]
  obtain q2 st2 where q2: "open_layers (tz_digest tz) (open_service tz srt txt chunks) ref ls st1 = (q2, st2)" by (meson surj_pair)
  have rest: "process_ok content tz dir st2 \<and> (\<forall>lys. q2 = Inr lys \<longrightarrow>
      map (tz_digest tz) ls = map (\<lambda>ly. Inr (ly_digest ly)) lys \<and> (\<forall>ly \<in> set lys. ly_entries ly = scan (ly_digest ly)))"
    using Cons.IH [OF one(1) _ q2] Cons.prems(2) by simp
  show ?case
  proof (cases q)
    case (Inl e)
    then show ?thesis using Cons.prems(3) h(1) q one(1) by auto
  next
    case (Inr ly)
    then have ly: "ly_digest ly = h" "ly_entries ly = scan h" using one(2) assms(4) h(2) by blast+
    show ?thesis using Cons.prems(3) h(1) q q2 Inr ly rest by (auto split: sum.splits)
  qed
qed auto

lemma image_of_build:
  assumes "published pk parse single content archive" "process_ok content (pk_targz pk) dir st"
    and "parse ct (content (hash_string (im_digest img))) = Inr i" "rg_layers (pk_client pk) i = Inr (im_layers img)"
    and "build_image (process_services pk chunks) img st = (r, st')"
  shows "process_ok content (pk_targz pk) dir st'"
    "r = Inr ri \<Longrightarrow> ri_digest ri = im_digest img \<and> image_of pk parse content archive ri"
proof -
  note pub = publishedD [OF assms(1)]
  let ?tz = "pk_targz pk"
  obtain q st1 where q: "open_layers (tz_digest ?tz) (open_service ?tz (pk_evict_sort pk) (pk_index_text pk) chunks)
      (im_ref img) (im_layers img) st = (q, st1)" by (meson surj_pair)
  have wf: "\<forall>l \<in> set (im_layers img). \<exists>h. tz_digest ?tz l = Inr h \<and> hash_wf h" using pub(6) [OF assms(4)] by blast
  note opened = open_layers_ok [OF assms(2) pub(3) wf pub(7) q]
  have st': "st' = st1" using assms(5) q by (auto simp: build_image_def process_services_def split: sum.splits)
  show "process_ok content ?tz dir st'" using opened st' by blast
  assume "r = Inr ri"
  then obtain lys where lys: "q = Inr lys"
    "ri = \<lparr>ri_digest = im_digest img, ri_layers = lys, ri_tree = Merge (pk_layer_sort pk) (map ly_entries lys)\<rparr>"
    using assms(5) q by (auto simp: build_image_def process_services_def split: sum.splits)
  then show "ri_digest ri = im_digest img \<and> image_of pk parse content archive ri"
    using opened assms(3,4) by (auto simp: image_of_def)
qed

lemma resolve_image_ok:
  assumes "published pk parse single content archive" "process_ok content (pk_targz pk) dir st"
    and "images_of pk parse content archive f" "repo_path c \<noteq> []" "CHR 0x0A \<notin> set (repo_path c)"
    and "resolve_image (process_services pk chunks) f (RefDigest c d) platform st = (r, f', st')"
  shows "process_ok content (pk_targz pk) dir st' \<and> images_of pk parse content archive f' \<and>
    (\<forall>ri. r = Inr ri \<longrightarrow> image_of pk parse content archive ri \<and> (single d \<longrightarrow> hash_string (ri_digest ri) = d))"
proof (cases "cached_image (process_services pk chunks) f (RefDigest c d)")
  case (Some ri)
  then obtain h where h: "pk_new_hash pk d = Inr h" "fs_images f h = Some ri"
    by (auto simp: cached_image_def process_services_def split: sum.splits)
  have "r = Inr ri" "f' = f" "st' = st" using assms(6) Some by (simp_all add: resolve_image_def)
  then show ?thesis
    using assms(2,3) h(2) publishedD(8) [OF assms(1) h(1)] by (auto simp: images_of_def)
next
  case None
  obtain q st1 where q: "resolve_service (pk_client pk) (pk_evict_sort pk) (pk_registry_text pk) (RefDigest c d) platform st =
      (q, st1)" by (meson surj_pair)
  note res = resolve_service_ok [OF assms(1,2,4,5) q]
  have sv: "sv_resolve (process_services pk chunks) (RefDigest c d) platform st = (q, st1)"
    using q by (simp add: process_services_def)
  show ?thesis
  proof (cases q)
    case (Inl e)
    then show ?thesis using assms(3,6) None sv res(1) by (auto simp: resolve_image_def)
  next
    case (Inr img)
    note img = res(2) [OF Inr]
    show ?thesis
    proof (cases "fs_images f (im_digest img)")
      case (Some ri)
      then have "r = Inr ri" "f' = f" "st' = st1" using assms(6) None sv Inr by (simp_all add: resolve_image_def)
      then show ?thesis using assms(3) Some img res(1) by (auto simp: images_of_def)
    next
      case new: None
      obtain b st2 where b: "build_image (process_services pk chunks) img st1 = (b, st2)" by (meson surj_pair)
      obtain ct i where i: "parse ct (content (hash_string (im_digest img))) = Inr i"
        "rg_layers (pk_client pk) i = Inr (im_layers img)" using img by blast
      note built = image_of_build [OF assms(1) res(1) i b]
      show ?thesis
      proof (cases b)
        case (Inl e)
        then have "st' = st2" "r = Inl e" "f' = f" using assms(6) None sv Inr new b by (simp_all add: resolve_image_def)
        then show ?thesis using assms(3) built(1) by simp
      next
        case ri: (Inr ri)
        then have "st' = st2" "r = Inr ri" "f' = f\<lparr>fs_images := (fs_images f)(im_digest img \<mapsto> ri)\<rparr>"
          using assms(6) None sv Inr new b by (simp_all add: resolve_image_def insert_image_def)
        then show ?thesis using assms(3) built(1) built(2) [OF ri] img by (simp add: images_of_def)
      qed
    qed
  qed
qed

section \<open>Sessions\<close>

text \<open>What happens to the mount and the shared state: lookups of the kernel above the images, in any
  order and for any path, and anything else in the world, reads of files included, which request
  ranges and so pass the disk cache by.\<close>

inductive session ::
  "(string \<Rightarrow> string + reference) \<Rightarrow> (string \<Rightarrow> string + platform) \<Rightarrow> ('l, 'f, 'w oci_state) services \<Rightarrow>
   'f filesystem \<Rightarrow> 'w oci_state \<Rightarrow> 'f filesystem \<Rightarrow> 'w oci_state \<Rightarrow> bool" for pr pp sv f0 st0 where
  begins: "session pr pp sv f0 st0 f0 st0"
| looked: "session pr pp sv f0 st0 f st \<Longrightarrow> resolve_segment pr pp sv f acc child ch out st = (r, f', ch', st') \<Longrightarrow>
    session pr pp sv f0 st0 f' st'"
| others: "session pr pp sv f0 st0 f st \<Longrightarrow> session pr pp sv f0 st0 f (st\<lparr>oc_world := w\<rparr>)"

text \<open>The reference parser returns repositories with a path of one line.\<close>

definition names_ok :: "(string \<Rightarrow> 'e + reference) \<Rightarrow> bool" where
  "names_ok pr \<longleftrightarrow> (\<forall>s c d. pr s = Inr (RefDigest c d) \<longrightarrow> repo_path c \<noteq> [] \<and> CHR 0x0A \<notin> set (repo_path c))"

lemma classify_parsed:
  "classify_segment pr pp acc child = Inr (k, Some ref, plat, full) \<Longrightarrow> \<exists>s. pr s = Inr ref"
  by (auto simp: classify_segment_def Parse_def zero_parsed_def Let_def
      split: sum.splits option.splits reference.splits if_splits prod.splits)

lemma classify_digest_ref:
  assumes "classify_segment pr pp acc child = Inr (SegDigestRef, ref, plat, full)"
  shows "\<exists>c d. ref = Some (RefDigest c d)"
proof (cases "Parse pr pp (extend_path acc child)")
  case (Inr parsed)
  note parsed = this
  show ?thesis
  proof (cases "p_ref parsed")
    case (Some r)
    show ?thesis
    proof (cases r)
      case (RefTag c t)
      then show ?thesis using assms parsed Some by (simp add: classify_segment_def)
    next
      case (RefDigest c d)
      then have "Some (RefDigest c d) = ref" using assms parsed Some by (simp add: classify_segment_def)
      then show ?thesis by blast
    qed
  qed (use assms parsed in \<open>simp add: classify_segment_def\<close>)
qed (use assms in \<open>simp add: classify_segment_def\<close>)

lemma tag_symlink_ok:
  assumes "published pk parse single content archive" "process_ok content (pk_targz pk) dir st"
    and "tag_symlink (process_services pk chunks) f ref plat ch out st = (r, ch', st')"
  shows "process_ok content (pk_targz pk) dir st'"
proof -
  note pub = publishedD [OF assms(1)]
  obtain q st1 where q: "fetch_desc (pk_client pk) (pk_evict_sort pk) (pk_registry_text pk) ref (platform_or f plat) st =
      (q, st1)" by (meson surj_pair)
  have ok: "oci_ok content dir st" "indexes_ok (pk_targz pk) dir st" using assms(2) by (simp_all add: process_ok_iff)
  have "keeps (oci_ok content dir) (base_transport (pk_evict_sort pk) (rg_default (pk_client pk)) st0)" for st0
    using sound_base [OF pub(2)] unfolding keeps_def sound_def oci_ok_world by blast
  then have "process_ok content (pk_targz pk) dir st1"
    using fetch_desc_keeps [where I = "oci_ok content dir", OF pub(1) _ ok(1) q] fetch_desc_keeps [OF pub(1) base_keeps_indexes ok(2) q]
    by (simp add: process_ok_iff)
  moreover have "st' = st1"
    using assms(3) q
    by (auto simp: tag_symlink_def ResolveDigestAndPlatforms_def process_services_def Let_def
        split: prod.splits sum.splits if_splits)
  ultimately show ?thesis by simp
qed

lemma lookup_ok:
  assumes "published pk parse single content archive" "names_ok pr" "process_ok content (pk_targz pk) dir st"
    and "images_of pk parse content archive f"
    and "resolve_segment pr pp (process_services pk chunks) f acc child ch out st = ((r, out'), f', ch', st')"
  shows "process_ok content (pk_targz pk) dir st' \<and> images_of pk parse content archive f' \<and>
    (\<forall>ri p m. r = Inr (ImageDir ri p, m) \<longrightarrow> p = ''/'' \<and> image_of pk parse content archive ri)"
proof (cases "classify_segment pr pp acc child")
  case (Inl e)
  then show ?thesis using assms(3-5) by (auto simp: resolve_segment_def)
next
  case (Inr x)
  obtain k ref plat full where x: "x = (k, ref, plat, full)" by (metis surj_pair)
  show ?thesis
  proof (cases k)
    case SegIntermediate
    then show ?thesis using assms(3-5) Inr x by (auto simp: resolve_segment_def)
  next
    case SegTagRef
    obtain rr ch1 st1 where t: "tag_symlink (process_services pk chunks) f (the ref) plat ch out st = (rr, ch1, st1)"
      by (metis surj_pair)
    then have "fst rr = Inr (n, m) \<Longrightarrow> \<exists>s. n = MemSymlink s" for n m
      by (auto simp: tag_symlink_def Let_def split: prod.splits sum.splits)
    then show ?thesis
      using tag_symlink_ok [OF assms(1,3) t] assms(4,5) Inr x SegTagRef t by (auto simp: resolve_segment_def)
  next
    case SegDigestRef
    then obtain c d where cd: "ref = Some (RefDigest c d)" using Inr x classify_digest_ref by metis
    then obtain s where "pr s = Inr (RefDigest c d)" using classify_parsed Inr x by metis
    then have c: "repo_path c \<noteq> []" "CHR 0x0A \<notin> set (repo_path c)" using assms(2) unfolding names_ok_def by blast+
    obtain q f1 st1 where q: "resolve_image (process_services pk chunks) f (RefDigest c d) (platform_or f plat) st = (q, f1, st1)"
      by (metis surj_pair)
    show ?thesis
      using resolve_image_ok [OF assms(1,3,4) c q] assms(5) Inr x SegDigestRef cd q
      by (cases q) (auto simp: resolve_segment_def image_root_def)
  qed
qed

lemma session_ok:
  assumes "session pr pp (process_services pk chunks) f0 st0 f st" "published pk parse single content archive" "names_ok pr"
    and "process_ok content (pk_targz pk) dir st0" "images_of pk parse content archive f0"
  shows "process_ok content (pk_targz pk) dir st \<and> images_of pk parse content archive f"
  using assms(1)
proof induction
  case begins
  then show ?case using assms(4,5) by simp
next
  case (looked f st acc child ch out r f' ch' st')
  obtain r1 out' where "r = (r1, out')" by force
  then show ?case using lookup_ok [OF assms(2,3)] looked.hyps(2) looked.IH by blast
qed simp

text \<open>C2. The mount shows what the registry publishes.  Let the registry serve content by digest at all
  times (\<open>published\<close>), start from a shared disk with genuine files (an empty one for example) and an empty image
  cache, and let any lookups go before, with any failing system calls, evictions and failing requests: when a
  lookup reaches the root of an image, then the image is the one published under its digest; and if the archives of
  the blobs that its manifest lists make a good image (\<open>good_image\<close>: markers sort in front, one entry for each path,
  no change of kind without a marker), then the kernel's walk of any path below the root, outside
  \<open>@@meta\<close>, ends where the image specification has the path in the overlay of these archives, or fails where it has
  not.  The disk is genuine after it.\<close>

theorem mount_shows_published:
  assumes "published pk parse single content archive" "names_ok pr"
    and "process_ok content (pk_targz pk) dir st0" "fs_images f0 = Map.empty"
    and "session pr pp (process_services pk chunks) f0 st0 f st"
    and "resolve_segment pr pp (process_services pk chunks) f acc child ch out st =
      ((Inr (ImageDir ri p, m), out'), f', ch', st')"
  shows "process_ok content (pk_targz pk) dir st' \<and> p = ''/'' \<and>
    (\<exists>ct i ls hs. parse ct (content (hash_string (ri_digest ri))) = Inr i \<and> rg_layers (pk_client pk) i = Inr ls \<and>
       map (tz_digest (pk_targz pk)) ls = map Inr hs \<and>
       (good_image (map (blob_entries content archive) hs) \<longrightarrow>
        (\<forall>segs. proper_segs segs \<and> segs \<noteq> [] \<and> hd segs \<noteq> MetaDirName \<longrightarrow>
           walk_image (ImageDir ri ''/'') segs out =
             (if on_path (map (blob_entries content archive) hs) segs
              then map_option (entry_node ri (abs_path segs)) (overlay_get (map (blob_entries content archive) hs) segs)
              else None))))"
proof -
  have "images_of pk parse content archive f0" using assms(4) by (simp add: images_of_def)
  then have ok: "process_ok content (pk_targz pk) dir st" "images_of pk parse content archive f"
    using session_ok [OF assms(5,1,2,3)] by simp_all
  note look = lookup_ok [OF assms(1,2) ok assms(6)]
  then have ri: "image_of pk parse content archive ri" "p = ''/''" by blast+
  then obtain ct i ls where i: "parse ct (content (hash_string (ri_digest ri))) = Inr i" "rg_layers (pk_client pk) i = Inr ls"
    "map (tz_digest (pk_targz pk)) ls = map Inr (map ly_digest (ri_layers ri))"
    unfolding image_of_def by auto
  let ?ess = "map (blob_entries content archive) (map ly_digest (ri_layers ri))"
  have entries: "map ly_entries (ri_layers ri) = ?ess" using ri(1) by (simp add: image_of_def)
  have tree: "ri_tree ri = Merge (pk_layer_sort pk) (map ly_entries (ri_layers ri))" using ri(1) by (simp add: image_of_def)
  have walk: "good_image ?ess \<longrightarrow> (\<forall>segs. proper_segs segs \<and> segs \<noteq> [] \<and> hd segs \<noteq> MetaDirName \<longrightarrow>
      walk_image (ImageDir ri ''/'') segs out =
        (if on_path ?ess segs then map_option (entry_node ri (abs_path segs)) (overlay_get ?ess segs) else None))"
    using walk_overlay [OF publishedD(4) [OF assms(1)] tree, of _ out] unfolding entries by blast
  show ?thesis
    by (rule conjI [OF conjunct1 [OF look] conjI [OF ri(2)]], intro exI conjI, rule i(1), rule i(2), rule i(3), rule walk)
qed

section \<open>Witness\<close>

text \<open>A registry with images of one layer, on a fresh cache.\<close>

definition demo_packages :: "(unit, bytes, unit, bytes, bytes, nat) packages" where
  "demo_packages =
     \<lparr>pk_client = demo_client, pk_targz = one_layer,
      pk_new_hash = (\<lambda>d. if wf_digest d then Inr \<lparr>hash_algorithm = take 6 d, hash_hex = drop 7 d\<rparr> else Inl ''bad digest''),
      pk_evict_sort = insertion_sort ev_mtime, pk_layer_sort = insertion_sort filename,
      pk_registry_text = (\<lambda>_. ''registry''), pk_index_text = (\<lambda>_. ''index'')\<rparr>"

definition digest_parser :: "string \<Rightarrow> string + reference" where
  "digest_parser s = Inr (RefDigest demo_context demo_name)"

lemma wf_digest_string:
  assumes "wf_digest d"
  shows "hash_string \<lparr>hash_algorithm = take 6 d, hash_hex = drop 7 d\<rparr> = d"
  using assms by (elim wf_digestE) (simp add: hash_string_def numeral_eq_Suc)

lemma demo_published: "published demo_packages (\<lambda>ct. Inr) (\<lambda>_. True) (\<lambda>d. d) hash_archive"
proof -
  have "blobs_of (\<lambda>d. d) = hash_string" by (simp add: fun_eq_iff blobs_of_def)
  then have "serves_blobs one_layer (blobs_of (\<lambda>d. d))" "scans_archive one_layer (blobs_of (\<lambda>d. d)) hash_archive"
    using one_serves one_scans by simp_all
  moreover have "tz_digest one_layer l = Inr index_hash" for l by (simp add: one_layer_def)
  ultimately show ?thesis
    using demo_client_ok echo_serves one_layer_codecs(1) ins.slice_sorter_axioms index_hash_wf wf_digest_string
    by (auto simp: published_def demo_packages_def demo_client_def split: if_splits)
qed

lemma demo_process_ok: "process_ok (\<lambda>d. d) one_layer ''/c'' demo_net"
proof -
  have "index_ok one_layer ''/c'' demo_store"
    using demo_disk_ok [of "\<lambda>_. None"]
    by (simp add: index_ok_def disk.coherent_def disk_inv_def disk_lookup_def cache_path_def demo_store_def demo_cache_def)
  then show ?thesis using demo_store_genuine by (simp add: process_ok_def demo_net_def set_cache_def)
qed

definition demo_mount :: "bytes filesystem" where
  "demo_mount = \<lparr>fs_platform = demo_linux, fs_tag_ttl = 0, fs_images = Map.empty\<rparr>"

lemma demo_archive:
  "good_image [hash_archive index_blob]"
  "overlay_get [hash_archive index_blob] [index_blob] =
     Some \<lparr>epath = ''/sha256:ab'', eheader = zero_header, elayer = 0\<rparr>"
proof -
  have "overlay_image [hash_archive index_blob] [index_blob] =
      Some \<lparr>epath = ''/sha256:ab'', eheader = zero_header, elayer = 0\<rparr>" by code_simp
  then show "overlay_get [hash_archive index_blob] [index_blob] =
      Some \<lparr>epath = ''/sha256:ab'', eheader = zero_header, elayer = 0\<rparr>" by (simp add: overlay_get_def)
qed code_simp

theorem mount_shows_published_witness:
  "\<exists>ri out' f' ch' st'. resolve_segment digest_parser (\<lambda>_. Inl ''none'') (process_services demo_packages True) demo_mount
       ''library'' (''alpine@'' @ demo_name) Map.empty demo_out demo_net = ((Inr (ImageDir ri ''/'', S_IFDIR), out'), f', ch', st') \<and>
     process_ok (\<lambda>d. d) one_layer ''/c'' st' \<and>
     walk_image (ImageDir ri ''/'') [index_blob] demo_out =
       Some (ImageFile (ri_layers ri) \<lparr>epath = ''/sha256:ab'', eheader = zero_header, elayer = 0\<rparr>)"
proof -
  let ?r = "resolve_segment digest_parser (\<lambda>_. Inl ''none'') (process_services demo_packages True) demo_mount
       ''library'' (''alpine@'' @ demo_name) Map.empty demo_out demo_net"
  have "(case fst (fst ?r) of Inr (ImageDir ri p, m) \<Rightarrow> p = ''/'' \<and> m = S_IFDIR | _ \<Rightarrow> False)" by code_simp
  then obtain ri out' f' ch' st' where r: "?r = ((Inr (ImageDir ri ''/'', S_IFDIR), out'), f', ch', st')"
    by (cases ?r) (auto split: sum.splits prod.splits node.splits)
  have "names_ok digest_parser" using demo_context_path by (simp add: names_ok_def digest_parser_def)
  moreover have "process_ok (\<lambda>d. d) (pk_targz demo_packages) ''/c'' demo_net"
    using demo_process_ok by (simp add: demo_packages_def)
  moreover have "fs_images demo_mount = Map.empty" by (simp add: demo_mount_def)
  ultimately have shown: "process_ok (\<lambda>d. d) (pk_targz demo_packages) ''/c'' st'"
    "\<exists>ct i ls hs. (Inr (hash_string (ri_digest ri)) :: string + bytes) = Inr i \<and> rg_layers (pk_client demo_packages) i = Inr ls \<and>
       map (tz_digest (pk_targz demo_packages)) ls = map Inr hs \<and>
       (good_image (map (blob_entries (\<lambda>d. d) hash_archive) hs) \<longrightarrow>
        (\<forall>segs. proper_segs segs \<and> segs \<noteq> [] \<and> hd segs \<noteq> MetaDirName \<longrightarrow>
           walk_image (ImageDir ri ''/'') segs demo_out =
             (if on_path (map (blob_entries (\<lambda>d. d) hash_archive) hs) segs
              then map_option (entry_node ri (abs_path segs)) (overlay_get (map (blob_entries (\<lambda>d. d) hash_archive) hs) segs)
              else None)))"
    using mount_shows_published [OF demo_published _ _ _ session.begins r, of "''/c''"] by blast+
  have "blob_entries (\<lambda>d. d) hash_archive index_hash = hash_archive index_blob" by code_simp
  then have walk: "walk_image (ImageDir ri ''/'') segs demo_out =
      (if on_path [hash_archive index_blob] segs
       then map_option (entry_node ri (abs_path segs)) (overlay_get [hash_archive index_blob] segs) else None)"
    if "proper_segs segs \<and> segs \<noteq> [] \<and> hd segs \<noteq> MetaDirName" for segs
    using shown(2) that demo_archive(1) by (auto simp: demo_packages_def demo_client_def)
  have "proper_segs [index_blob] \<and> [index_blob] \<noteq> [] \<and> hd [index_blob] \<noteq> MetaDirName" by code_simp
  from walk [OF this] have "walk_image (ImageDir ri ''/'') [index_blob] demo_out =
      Some (entry_node ri (abs_path [index_blob]) \<lparr>epath = ''/sha256:ab'', eheader = zero_header, elayer = 0\<rparr>)"
    by (simp add: on_path_single demo_archive(2))
  moreover have "\<not> is_dir \<lparr>epath = ''/sha256:ab'', eheader = zero_header, elayer = 0\<rparr>"
    "\<not> is_symlink \<lparr>epath = ''/sha256:ab'', eheader = zero_header, elayer = 0\<rparr>" by code_simp+
  ultimately show ?thesis using r shown(1) by (auto simp: entry_node_def demo_packages_def)
qed

end
