(* ===== verification/Disk_Steps.thy ===== *)
theory Disk_Steps
  imports Disk_Props "HOL-Library.Multiset"
begin

text \<open>
  The disk cache under concurrency (\<open>internal/cache/cache.go\<close>): \<open>Write\<close>, \<open>Open\<close> and \<open>Has\<close> as goroutines that
  take one system call, one write of the callback or one section under the mutex at a time.  A run is a list of
  events, new calls and steps of goroutines, in any order; since a process that is killed has made
  a prefix of its steps, what holds at every moment of every run holds of what it leaves on the disk.
\<close>

section \<open>Goroutines\<close>

text \<open>A call of \<open>Write\<close>: the key, the pieces that the callback writes and the error it returns by
  itself.  A write of the callback goes to the open file, which has no name any more when another goroutine
  has removed it.\<close>

record write_request =
  wq_key :: string
  wq_parts :: "bytes list"
  wq_error :: "os_error option"

definition os_append :: "path \<Rightarrow> bytes \<Rightarrow> disk \<Rightarrow> os_error option \<times> disk" where
  "os_append p b d =
     (let put = (\<lambda>x d'. case dk_file d p of
            None \<Rightarrow> d'
          | Some f \<Rightarrow> d'\<lparr>dk_files := put_file p \<lparr>f_bytes = f_bytes f @ x, f_mtime = os_now d\<rparr> (dk_files d)\<rparr>)
      in case os_call d of
           (Some e, d') \<Rightarrow> (Some (OSError e), put (take (dk_short d (dk_calls d)) b) d')
         | (None, d') \<Rightarrow> (None, put b d'))"

text \<open>Where a goroutine stands in \<open>Write\<close>, with its local variables: the old size, the name of the temporary file,
  the pieces still to be written, the new size, the files still to be looked at, the entries to evict,
  the directory to prune, the result.\<close>

datatype write_phase =
    StatOld
  | MakeDir int
  | CreateTemp int
  | Callback int path "bytes list"
  | CloseTemp int path "os_error option"
  | RenameTemp int path
  | StatNew int path
  | AddSize int path int
  | WalkDir path
  | WalkFile path "path list" "evict_entry list"
  | LockEvict path "evict_entry list"
  | RemoveFile path "evict_entry list"
  | PruneDir path path "evict_entry list"
  | RemoveTemp path "os_error option"
  | Written "os_error option"

datatype open_phase = OpenFile | TouchFile handle | Opened "os_error + handle"

datatype routine =
    Writing write_request write_phase
  | Reading string open_phase
  | Asking string "bool option"

text \<open>What goroutines share: the holder of the mutex, the cache and the disk.\<close>

record shared =
  sh_lock :: "nat option"
  sh_cache :: cache
  sh_disk :: disk

section \<open>Steps\<close>

text \<open>One step of \<open>Write\<close> by goroutine \<open>i\<close>; \<open>None\<close> when it has returned or waits for the mutex.\<close>

fun write_step ::
  "(evict_entry list \<Rightarrow> evict_entry list) \<Rightarrow> nat \<Rightarrow> write_request \<Rightarrow> write_phase \<Rightarrow> shared \<Rightarrow>
   (write_phase \<times> shared) option" where
  "write_step srt i q StatOld s =
     (case old_size (cache_path (sh_cache s) (wq_key q)) (sh_disk s) of (old, d) \<Rightarrow> Some (MakeDir old, s\<lparr>sh_disk := d\<rparr>))"
| "write_step srt i q (MakeDir old) s =
     (case os_mkdir_all (path_dir (cache_path (sh_cache s) (wq_key q))) (sh_disk s) of
        (Inl e, d) \<Rightarrow> Some (Written (Some e), s\<lparr>sh_disk := d\<rparr>)
      | (Inr _, d) \<Rightarrow> Some (CreateTemp old, s\<lparr>sh_disk := d\<rparr>))"
| "write_step srt i q (CreateTemp old) s =
     (case os_create_temp (path_dir (cache_path (sh_cache s) (wq_key q))) (sh_disk s) of
        (Inl e, d) \<Rightarrow> Some (Written (Some e), s\<lparr>sh_disk := d\<rparr>)
      | (Inr tmp, d) \<Rightarrow> Some (Callback old tmp (wq_parts q), s\<lparr>sh_disk := d\<rparr>))"
| "write_step srt i q (Callback old tmp []) s = Some (CloseTemp old tmp (wq_error q), s)"
| "write_step srt i q (Callback old tmp (b # bs)) s =
     (case os_append tmp b (sh_disk s) of
        (Some e, d) \<Rightarrow> Some (CloseTemp old tmp (Some e), s\<lparr>sh_disk := d\<rparr>)
      | (None, d) \<Rightarrow> Some (Callback old tmp bs, s\<lparr>sh_disk := d\<rparr>))"
| "write_step srt i q (CloseTemp old tmp (Some e)) s =
     Some (RemoveTemp tmp (Some e), s\<lparr>sh_disk := snd (os_close (sh_disk s))\<rparr>)"
| "write_step srt i q (CloseTemp old tmp None) s =
     (case os_close (sh_disk s) of
        (Inl e, d) \<Rightarrow> Some (RemoveTemp tmp (Some e), s\<lparr>sh_disk := d\<rparr>)
      | (Inr _, d) \<Rightarrow> Some (RenameTemp old tmp, s\<lparr>sh_disk := d\<rparr>))"
| "write_step srt i q (RenameTemp old tmp) s =
     (case os_rename tmp (cache_path (sh_cache s) (wq_key q)) (sh_disk s) of
        (Inl e, d) \<Rightarrow> Some (RemoveTemp tmp (Some e), s\<lparr>sh_disk := d\<rparr>)
      | (Inr _, d) \<Rightarrow>
          Some (if ca_cap (sh_cache s) \<le> 0 then RemoveTemp tmp None else StatNew old tmp, s\<lparr>sh_disk := d\<rparr>))"
| "write_step srt i q (StatNew old tmp) s =
     (case os_stat (cache_path (sh_cache s) (wq_key q)) (sh_disk s) of
        (Inl e, d) \<Rightarrow> Some (RemoveTemp tmp (Some e), s\<lparr>sh_disk := d\<rparr>)
      | (Inr info, d) \<Rightarrow> Some (AddSize old tmp (fi_size info), s\<lparr>sh_disk := d\<rparr>))"
| "write_step srt i q (AddSize old tmp new) s =
     (if sh_lock s \<noteq> None then None
      else (let c = (sh_cache s)\<lparr>ca_size := ca_size (sh_cache s) + (new - old)\<rparr>
            in Some (if ca_cap c < ca_size c then WalkDir tmp else RemoveTemp tmp None, s\<lparr>sh_cache := c\<rparr>)))"
| "write_step srt i q (WalkDir tmp) s =
     (case os_call (sh_disk s) of
        (Some e, d) \<Rightarrow> Some (LockEvict tmp (srt []), s\<lparr>sh_disk := d\<rparr>)
      | (None, d) \<Rightarrow>
          Some (WalkFile tmp (filter (below (ca_dir (sh_cache s))) (akeys (dk_files (sh_disk s)))) [], s\<lparr>sh_disk := d\<rparr>))"
| "write_step srt i q (WalkFile tmp [] es) s = Some (LockEvict tmp (srt es), s)"
| "write_step srt i q (WalkFile tmp (p # ps) es) s =
     (case os_stat p (sh_disk s) of
        (Inl e, d) \<Rightarrow> Some (WalkFile tmp ps es, s\<lparr>sh_disk := d\<rparr>)
      | (Inr info, d) \<Rightarrow>
          Some (WalkFile tmp ps
             (if fi_dir info then es
              else es @ [\<lparr>ev_path = p, ev_size = fi_size info, ev_mtime = fi_mtime info\<rparr>]), s\<lparr>sh_disk := d\<rparr>))"
| "write_step srt i q (LockEvict tmp es) s =
     (if sh_lock s \<noteq> None then None else Some (RemoveFile tmp es, s\<lparr>sh_lock := Some i\<rparr>))"
| "write_step srt i q (RemoveFile tmp []) s = Some (RemoveTemp tmp None, s\<lparr>sh_lock := None\<rparr>)"
| "write_step srt i q (RemoveFile tmp (e # es)) s =
     (if ca_size (sh_cache s) \<le> ca_cap (sh_cache s) then Some (RemoveTemp tmp None, s\<lparr>sh_lock := None\<rparr>)
      else (case os_remove (ev_path e) (sh_disk s) of
              (Inl _, d) \<Rightarrow> Some (RemoveFile tmp es, s\<lparr>sh_disk := d\<rparr>)
            | (Inr _, d) \<Rightarrow> Some (PruneDir tmp (path_dir (ev_path e)) es,
                s\<lparr>sh_disk := d, sh_cache := (sh_cache s)\<lparr>ca_size := ca_size (sh_cache s) - ev_size e\<rparr>\<rparr>)))"
| "write_step srt i q (PruneDir tmp dir es) s =
     Some (RemoveFile tmp es, s\<lparr>sh_disk := snd (os_remove dir (sh_disk s))\<rparr>)"
| "write_step srt i q (RemoveTemp tmp r) s = Some (Written r, s\<lparr>sh_disk := snd (os_remove tmp (sh_disk s))\<rparr>)"
| "write_step srt i q (Written r) s = None"

fun read_step :: "string \<Rightarrow> open_phase \<Rightarrow> shared \<Rightarrow> (open_phase \<times> shared) option" where
  "read_step k OpenFile s =
     (case os_open (cache_path (sh_cache s) k) (sh_disk s) of
        (Inl e, d) \<Rightarrow> Some (Opened (Inl e), s\<lparr>sh_disk := d\<rparr>)
      | (Inr h, d) \<Rightarrow> Some (TouchFile h, s\<lparr>sh_disk := d\<rparr>))"
| "read_step k (TouchFile h) s =
     (let now = os_now (sh_disk s)
      in Some (Opened (Inr h), s\<lparr>sh_disk := snd (os_chtimes (cache_path (sh_cache s) k) now (sh_disk s))\<rparr>))"
| "read_step k (Opened r) s = None"

fun ask_step :: "string \<Rightarrow> bool option \<Rightarrow> shared \<Rightarrow> (bool option \<times> shared) option" where
  "ask_step k None s = (case cache_has (sh_cache s) k (sh_disk s) of (b, d) \<Rightarrow> Some (Some b, s\<lparr>sh_disk := d\<rparr>))"
| "ask_step k (Some b) s = None"

fun routine_step :: "(evict_entry list \<Rightarrow> evict_entry list) \<Rightarrow> nat \<Rightarrow> routine \<Rightarrow> shared \<Rightarrow> (routine \<times> shared) option" where
  "routine_step srt i (Writing q ph) s = map_option (map_prod (Writing q) id) (write_step srt i q ph s)"
| "routine_step srt i (Reading k ph) s = map_option (map_prod (Reading k) id) (read_step k ph s)"
| "routine_step srt i (Asking k r) s = map_option (map_prod (Asking k) id) (ask_step k r s)"

section \<open>Runs\<close>

datatype cache_call = CallWrite write_request | CallOpen string | CallHas string

fun start :: "cache_call \<Rightarrow> routine" where
  "start (CallWrite q) = Writing q StatOld"
| "start (CallOpen k) = Reading k OpenFile"
| "start (CallHas k) = Asking k None"

datatype cache_event = Begin cache_call | Step nat

fun cache_step ::
  "(evict_entry list \<Rightarrow> evict_entry list) \<Rightarrow> cache_event \<Rightarrow> routine list \<times> shared \<Rightarrow> (routine list \<times> shared) option" where
  "cache_step srt (Begin call) (rs, s) = Some (rs @ [start call], s)"
| "cache_step srt (Step i) (rs, s) =
     (if i < length rs
      then (case routine_step srt i (rs ! i) s of None \<Rightarrow> None | Some (r, s1) \<Rightarrow> Some (rs[i := r], s1))
      else None)"

fun cache_run ::
  "(evict_entry list \<Rightarrow> evict_entry list) \<Rightarrow> cache_event list \<Rightarrow> routine list \<times> shared \<Rightarrow> (routine list \<times> shared) option" where
  "cache_run srt [] s = Some s"
| "cache_run srt (e # es) s = (case cache_step srt e s of None \<Rightarrow> None | Some s1 \<Rightarrow> cache_run srt es s1)"

definition opened_cache :: "cache \<Rightarrow> disk \<Rightarrow> routine list \<times> shared" where
  "opened_cache c d = ([], \<lparr>sh_lock = None, sh_cache = c, sh_disk = d\<rparr>)"

lemma cache_run_append:
  "cache_run srt (es @ es') s = (case cache_run srt es s of None \<Rightarrow> None | Some s1 \<Rightarrow> cache_run srt es' s1)"
  by (induction es arbitrary: s) (simp_all split: option.split)

lemma cache_run_snoc:
  assumes "cache_run srt (es @ [e]) s = Some s'"
  obtains s1 where "cache_run srt es s = Some s1" "cache_step srt e s1 = Some s'"
  using assms by (auto simp: cache_run_append split: option.splits)

text \<open>What holds at the start and is kept by every step holds in every run.\<close>

lemma cache_run_invariant:
  assumes "cache_run srt es s = Some s'" "I s"
    and "\<And>e s s1. e \<in> set es \<Longrightarrow> I s \<Longrightarrow> cache_step srt e s = Some s1 \<Longrightarrow> I s1"
  shows "I s'"
  using assms
proof (induction es arbitrary: s)
  case (Cons e es)
  then obtain s1 where s1: "cache_step srt e s = Some s1" "cache_run srt es s1 = Some s'"
    by (auto split: option.splits)
  have "I s1" using Cons.prems(3) [OF _ Cons.prems(2) s1(1)] by simp
  then show ?case using Cons.IH [OF s1(2)] Cons.prems(3) [OF list.set_intros(2)] by blast
qed simp

end
