(* ===== verification/Disk_Steps_Props.thy ===== *)
theory Disk_Steps_Props
  imports Disk_Steps
begin

text \<open>
  Properties of the disk cache under concurrency: what is under a key is always a complete value, a successful
  write stays until it is evicted, the mutex never blocks a run and every run ends, and an
  undisturbed write is the function \<open>cache_write\<close>.
\<close>

section \<open>The contents of the disk\<close>

definition contents :: "disk \<Rightarrow> path \<rightharpoonup> bytes" where
  "contents d p = map_option f_bytes (dk_file d p)"

named_theorems contents_simps "effects of the file system calls on the contents"

lemma contents_files: "dk_files d' = dk_files d \<Longrightarrow> contents d' = contents d"
  by (simp add: contents_def dk_file_def fun_eq_iff)

lemma contents_put: "dk_files d' = put_file p f (dk_files d) \<Longrightarrow> contents d' = (contents d)(p \<mapsto> f_bytes f)"
  by (simp add: contents_def dk_file_def disk_simps fun_eq_iff)

lemma contents_del: "dk_files d' = del_file p (dk_files d) \<Longrightarrow> contents d' = (contents d)(p := None)"
  by (simp add: contents_def dk_file_def disk_simps fun_eq_iff)

text \<open>Calls that change no file, or only times.\<close>

lemma quiet_calls:
  "old_size p d = (n, d') \<Longrightarrow> contents d' = contents d \<and> same_env d d'"
  "os_mkdir_all p d = (r1, d') \<Longrightarrow> contents d' = contents d \<and> same_env d d'"
  "os_stat p d = (r2, d') \<Longrightarrow> contents d' = contents d \<and> same_env d d'"
  "os_close d = (r3, d') \<Longrightarrow> contents d' = contents d \<and> same_env d d'"
  "os_call d = (r4, d') \<Longrightarrow> contents d' = contents d \<and> same_env d d'"
  "os_open p d = (r5, d') \<Longrightarrow> contents d' = contents d \<and> same_env d d'"
  "os_create_temp p d = (Inl e, d') \<Longrightarrow> contents d' = contents d \<and> same_env d d'"
  "os_rename p q d = (Inl e, d') \<Longrightarrow> contents d' = contents d \<and> same_env d d'"
  "cache_has c k d = (b, d') \<Longrightarrow> contents d' = contents d \<and> same_env d d'"
proof -
  show "cache_has c k d = (b, d') \<Longrightarrow> contents d' = contents d \<and> same_env d d'"
    using os_stat_effect [of "cache_path c k" d]
    by (auto simp: cache_has_def intro!: contents_files split: prod.splits sum.splits)
  show "os_create_temp p d = (Inl e, d') \<Longrightarrow> contents d' = contents d \<and> same_env d d'"
    using os_create_temp_effect(2) os_create_temp_effect(3) [OF _ refl] contents_files by blast
  show "os_rename p q d = (Inl e, d') \<Longrightarrow> contents d' = contents d \<and> same_env d d'"
    using os_rename_effect(2) os_rename_effect(3) [OF _ refl] contents_files by blast
qed (auto dest: old_size_effect os_mkdir_all_effect os_stat_effect os_close_effect os_call_effect os_open_effect
    intro!: contents_files)

lemma contents_chtimes: "contents (snd (os_chtimes p t d)) = contents d \<and> same_env d (snd (os_chtimes p t d))"
  using os_chtimes_effect(1) [where p = p and t = t and d = d] os_chtimes_effect(2) [where p = p and t = t and d = d]
  by (simp add: contents_def fun_eq_iff)

lemma contents_remove: "os_remove p d = (r, d') \<Longrightarrow>
    (contents d' = contents d \<or> contents d' = (contents d)(p := None)) \<and> same_env d d'"
  using os_remove_effect(1,4) [of p d r d'] contents_files contents_del by blast

lemma contents_create_temp:
  assumes "os_create_temp dir d = (Inr tmp, d')"
  shows "contents d' = (contents d)(tmp \<mapsto> [])" "tmp = path_join [dir, temp_prefix @ dk_rand d (dk_calls d)]"
    "same_env d d'" "dk_calls d < dk_calls d'"
proof -
  show "same_env d d'" by (rule os_create_temp_effect(2) [OF assms])
  show "contents d' = (contents d)(tmp \<mapsto> [])" "tmp = path_join [dir, temp_prefix @ dk_rand d (dk_calls d)]"
    using os_create_temp_effect(4) [OF assms refl] contents_put [of d' tmp] by force+
  show "dk_calls d < dk_calls d'"
    using assms by (auto simp: os_create_temp_def os_call_def Let_def split: option.splits if_splits)
qed

lemma contents_append:
  assumes "os_append p b d = (r, d')"
  shows "same_env d d'"
    "contents d' = (case contents d p of None \<Rightarrow> contents d
       | Some x \<Rightarrow> (contents d)(p \<mapsto> x @ (case r of None \<Rightarrow> b | Some e \<Rightarrow> take (dk_short d (dk_calls d)) b)))"
  using assms
  by (auto simp: os_append_def os_call_def same_env_def contents_def dk_file_def disk_simps fun_eq_iff Let_def
      split: option.splits)

lemma contents_rename:
  assumes "os_rename a b d = (Inr u, d')"
  shows "same_env d d'" "\<exists>x. contents d a = Some x \<and> contents d' = (contents d)(a := None, b \<mapsto> x)"
  using os_rename_effect(2,4) [OF assms]
  by (auto simp: contents_def dk_file_def disk_simps fun_eq_iff)

section \<open>The invariant\<close>

text \<open>The temporary file of a goroutine, and what is in it.\<close>

fun phase_temp :: "write_phase \<Rightarrow> path option" where
  "phase_temp (Callback old t bs) = Some t"
| "phase_temp (CloseTemp old t e) = Some t"
| "phase_temp (RenameTemp old t) = Some t"
| "phase_temp (StatNew old t) = Some t"
| "phase_temp (AddSize old t new) = Some t"
| "phase_temp (WalkDir t) = Some t"
| "phase_temp (WalkFile t ps es) = Some t"
| "phase_temp (LockEvict t es) = Some t"
| "phase_temp (RemoveFile t es) = Some t"
| "phase_temp (PruneDir t q es) = Some t"
| "phase_temp (RemoveTemp t r) = Some t"
| "phase_temp _ = None"

fun routine_temp :: "routine \<Rightarrow> path option" where
  "routine_temp (Writing q ph) = phase_temp ph"
| "routine_temp _ = None"

fun phase_ok :: "write_request \<Rightarrow> (path \<rightharpoonup> bytes) \<Rightarrow> write_phase \<Rightarrow> bool" where
  "phase_ok q C (Callback old t bs) = (\<forall>x. C t = Some x \<longrightarrow> x @ concat bs = concat (wq_parts q))"
| "phase_ok q C (CloseTemp old t None) = (wq_error q = None \<and> (\<forall>x. C t = Some x \<longrightarrow> x = concat (wq_parts q)))"
| "phase_ok q C (RenameTemp old t) = (wq_error q = None \<and> (\<forall>x. C t = Some x \<longrightarrow> x = concat (wq_parts q)))"
| "phase_ok q C _ = True"

text \<open>The values allowed under a path are given by a predicate; a request is allowed when its complete output is.\<close>

definition request_ok :: "(path \<Rightarrow> bytes \<Rightarrow> bool) \<Rightarrow> path \<Rightarrow> write_request \<Rightarrow> bool" where
  "request_ok G dir q \<longleftrightarrow> valid_key dir (wq_key q) \<and>
     (wq_error q = None \<longrightarrow> G (path_join [dir, wq_key q]) (concat (wq_parts q)))"

fun reader_ok :: "(bytes \<Rightarrow> bool) \<Rightarrow> open_phase \<Rightarrow> bool" where
  "reader_ok P (TouchFile (FileHandle b)) = P b"
| "reader_ok P (Opened (Inr (FileHandle b))) = P b"
| "reader_ok P _ = True"

fun routine_ok :: "(path \<Rightarrow> bytes \<Rightarrow> bool) \<Rightarrow> path \<Rightarrow> (path \<rightharpoonup> bytes) \<Rightarrow> routine \<Rightarrow> bool" where
  "routine_ok G dir C (Writing q ph) = (request_ok G dir q \<and> phase_ok q C ph)"
| "routine_ok G dir C (Reading k ph) = (valid_key dir k \<longrightarrow> reader_ok (G (path_join [dir, k])) ph)"
| "routine_ok G dir C (Asking k r) = True"

definition temp_path :: "path \<Rightarrow> bool" where
  "temp_path p \<longleftrightarrow> has_prefix (path_base p) temp_prefix"

definition values_ok :: "(path \<Rightarrow> bytes \<Rightarrow> bool) \<Rightarrow> (path \<rightharpoonup> bytes) \<Rightarrow> bool" where
  "values_ok G C \<longleftrightarrow> (\<forall>p x. \<not> temp_path p \<longrightarrow> C p = Some x \<longrightarrow> G p x)"

text \<open>Names of temporary files are drawn once.\<close>

definition temp_drawn :: "disk \<Rightarrow> nat \<Rightarrow> path \<Rightarrow> bool" where
  "temp_drawn d n t \<longleftrightarrow> n < dk_calls d \<and> path_base t = temp_prefix @ dk_rand d n"

definition env_ok :: "path \<Rightarrow> shared \<Rightarrow> bool" where
  "env_ok dir s \<longleftrightarrow> ca_dir (sh_cache s) = dir \<and> has_prefix dir ''/'' \<and> plain_rand (sh_disk s) \<and> inj (dk_rand (sh_disk s))"

definition run_ok :: "(path \<Rightarrow> bytes \<Rightarrow> bool) \<Rightarrow> path \<Rightarrow> routine list \<times> shared \<Rightarrow> bool" where
  "run_ok G dir = (\<lambda>(rs, s). env_ok dir s \<and> values_ok G (contents (sh_disk s)) \<and>
     (\<forall>r \<in> set rs. routine_ok G dir (contents (sh_disk s)) r \<and>
        (\<forall>t. routine_temp r = Some t \<longrightarrow> (\<exists>n. temp_drawn (sh_disk s) n t))) \<and>
     (\<forall>i < length rs. \<forall>j < length rs. \<forall>t. routine_temp (rs ! i) = Some t \<longrightarrow> routine_temp (rs ! j) = Some t \<longrightarrow> i = j))"

lemma temp_drawn_path: "temp_drawn d n t \<Longrightarrow> temp_path t"
  by (simp add: temp_drawn_def temp_path_def has_prefix_iff)

lemma temp_drawn_env: "same_env d d' \<Longrightarrow> temp_drawn d n t \<Longrightarrow> temp_drawn d' n t"
  by (simp add: temp_drawn_def same_env_def)

lemma valid_key_path: "valid_key dir k \<longleftrightarrow> \<not> temp_path (path_join [dir, k])"
  by (simp add: valid_key_def temp_path_def)

lemma temp_base:
  assumes "plain_rand d" "has_prefix dir ''/''"
  shows "path_base (path_join [path_dir (path_join [dir, key]), temp_prefix @ dk_rand d n]) = temp_prefix @ dk_rand d n"
proof -
  let ?segs = "psegs (dir @ ''/'' @ key)"
  have r: "proper (temp_prefix @ dk_rand d n)" using assms(1) by (simp add: plain_rand_def proper_temp)
  have "proper_segs (butlast ?segs @ [temp_prefix @ dk_rand d n])"
    using proper_butlast [OF proper_psegs] r by simp
  then show ?thesis
    using r proper_butlast [OF proper_psegs]
    by (simp add: path_join_rooted [OF assms(2)] path_dir_abs_path path_join_snoc path_base_abs_path)
qed

section \<open>Steps keep the invariant\<close>

text \<open>Nobody but its goroutine changes a temporary file, except for removing it.\<close>

definition keeps_temps :: "path option \<Rightarrow> (path \<rightharpoonup> bytes) \<Rightarrow> (path \<rightharpoonup> bytes) \<Rightarrow> bool" where
  "keeps_temps own C C' \<longleftrightarrow> (\<forall>t. temp_path t \<longrightarrow> own \<noteq> Some t \<longrightarrow> C' t = C t \<or> C' t = None)"

lemma keeps_temps_less: "C' \<subseteq>\<^sub>m C \<Longrightarrow> keeps_temps own C C'"
  using map_le_cases by (fastforce simp: keeps_temps_def)

lemma keeps_tempsD:
  "keeps_temps own C C' \<Longrightarrow> temp_path t \<Longrightarrow> own \<noteq> Some t \<Longrightarrow> C' t = Some x \<Longrightarrow> C t = Some x"
  unfolding keeps_temps_def by (metis option.distinct(1))

lemma phase_ok_keeps:
  assumes "phase_ok q C ph" "keeps_temps own C C'" "\<And>t. phase_temp ph = Some t \<Longrightarrow> temp_path t \<and> own \<noteq> Some t"
  shows "phase_ok q C' ph"
  using assms by (induction q C ph rule: phase_ok.induct) (auto dest: keeps_tempsD)

lemma routine_ok_keeps:
  assumes "routine_ok G dir C r" "keeps_temps own C C'" "\<And>t. routine_temp r = Some t \<Longrightarrow> temp_path t \<and> own \<noteq> Some t"
  shows "routine_ok G dir C' r"
  using assms phase_ok_keeps [of _ C _ own C'] by (cases r) auto

lemma values_ok_less: "values_ok G C \<Longrightarrow> C' \<subseteq>\<^sub>m C \<Longrightarrow> values_ok G C'"
  unfolding values_ok_def by (metis domI map_le_def)

text \<open>What a step of one goroutine does to the shared state and to its own.\<close>

definition step_ok :: "(path \<Rightarrow> bytes \<Rightarrow> bool) \<Rightarrow> write_request \<Rightarrow> write_phase \<Rightarrow> shared \<Rightarrow> write_phase \<Rightarrow> shared \<Rightarrow> bool" where
  "step_ok G q ph s ph' s' \<longleftrightarrow> same_env (sh_disk s) (sh_disk s') \<and>
     keeps_temps (phase_temp ph') (contents (sh_disk s)) (contents (sh_disk s')) \<and>
     values_ok G (contents (sh_disk s')) \<and> phase_ok q (contents (sh_disk s')) ph' \<and>
     (\<forall>t. phase_temp ph' = Some t \<longrightarrow> phase_temp ph = Some t \<or>
        (\<exists>n. dk_calls (sh_disk s) \<le> n \<and> temp_drawn (sh_disk s') n t))"

text \<open>Steps that at most remove files.\<close>

lemma step_ok_less:
  assumes "contents (sh_disk s') \<subseteq>\<^sub>m contents (sh_disk s) \<and> same_env (sh_disk s) (sh_disk s')"
    and "values_ok G (contents (sh_disk s))" "phase_temp ph' = None \<or> phase_temp ph' = phase_temp ph"
    and "phase_ok q (contents (sh_disk s')) ph'"
  shows "step_ok G q ph s ph' s'"
  using assms values_ok_less keeps_temps_less by (auto simp: step_ok_def)

lemma contents_remove_less: "contents (snd (os_remove p d)) \<subseteq>\<^sub>m contents d \<and> same_env d (snd (os_remove p d))"
  using contents_remove [of p d "fst (os_remove p d)" "snd (os_remove p d)"]
  by (auto simp: map_le_def split: if_splits)

lemma contents_removed:
  "os_remove p d = (r, d') \<Longrightarrow> contents d' \<subseteq>\<^sub>m contents d \<and> same_env d d'"
  using contents_remove_less [of p d] by simp

lemma contents_closed: "contents (snd (os_close d)) = contents d \<and> same_env d (snd (os_close d))"
  using quiet_calls(4) [of d "fst (os_close d)"] by simp

lemma phase_ok_close:
  "phase_ok q C (CloseTemp old t r) \<longleftrightarrow>
    (r = None \<longrightarrow> wq_error q = None \<and> (\<forall>x. C t = Some x \<longrightarrow> x = concat (wq_parts q)))"
  by (cases r) simp_all

lemma write_step_shared:
  assumes "write_step srt i q ph s = Some (ph', s')"
  shows "ca_dir (sh_cache s') = ca_dir (sh_cache s) \<and> ca_cap (sh_cache s') = ca_cap (sh_cache s)"
  using assms
  by (induction srt i q ph s rule: write_step.induct)
    (auto simp: Let_def split: prod.splits sum.splits option.splits if_splits)

lemma write_step_quiet:
  assumes "write_step srt i q ph s = Some (ph', s')"
    and "\<And>old. ph \<noteq> CreateTemp old" "\<And>old t b bs. ph \<noteq> Callback old t (b # bs)" "\<And>old t. ph \<noteq> RenameTemp old t"
    and "phase_ok q (contents (sh_disk s)) ph"
  shows "contents (sh_disk s') \<subseteq>\<^sub>m contents (sh_disk s) \<and> same_env (sh_disk s) (sh_disk s')"
    "phase_temp ph' = None \<or> phase_temp ph' = phase_temp ph" "phase_ok q (contents (sh_disk s')) ph'"
proof -
  note [dest!] = quiet_calls(1-7,9) contents_removed and [simp] = contents_remove_less contents_closed phase_ok_close
  show "contents (sh_disk s') \<subseteq>\<^sub>m contents (sh_disk s) \<and> same_env (sh_disk s) (sh_disk s')"
    "phase_temp ph' = None \<or> phase_temp ph' = phase_temp ph" "phase_ok q (contents (sh_disk s')) ph'"
    using assms
    by (induction srt i q ph s rule: write_step.induct)
      (auto simp: Let_def split: prod.splits sum.splits option.splits if_splits)
qed

lemma create_temp_ok:
  assumes "write_step srt i q (CreateTemp old) s = Some (ph', s')" "env_ok dir s" "values_ok G (contents (sh_disk s))"
  shows "step_ok G q (CreateTemp old) s ph' s'"
proof -
  let ?d = "sh_disk s"
  obtain r d where c: "os_create_temp (path_dir (path_join [dir, wq_key q])) ?d = (r, d)" by force
  show ?thesis
  proof (cases r)
    case (Inl e)
    then have "ph' = Written (Some e)" "s' = s\<lparr>sh_disk := d\<rparr>"
      using assms(1,2) c by (simp_all add: cache_path_def env_ok_def)
    then show ?thesis using quiet_calls(7) [OF c [unfolded Inl]] by (intro step_ok_less [OF _ assms(3)]) simp_all
  next
    case (Inr t)
    then have res: "ph' = Callback old t (wq_parts q)" "s' = s\<lparr>sh_disk := d\<rparr>"
      using assms(1,2) c by (simp_all add: cache_path_def env_ok_def)
    note t = contents_create_temp [OF c [unfolded Inr]]
    have drawn: "temp_drawn d (dk_calls ?d) t"
      using t temp_base assms(2) by (simp add: temp_drawn_def env_ok_def same_env_def)
    then have "temp_path t" by (rule temp_drawn_path)
    then show ?thesis
      using res t(1,3) drawn assms(3)
      by (auto simp: step_ok_def keeps_temps_def values_ok_def)
  qed
qed

lemma callback_ok:
  assumes "write_step srt i q (Callback old t (b # bs)) s = Some (ph', s')" "values_ok G (contents (sh_disk s))"
    and "phase_ok q (contents (sh_disk s)) (Callback old t (b # bs))" "temp_path t"
  shows "step_ok G q (Callback old t (b # bs)) s ph' s'"
proof -
  obtain r d where a: "os_append t b (sh_disk s) = (r, d)" by force
  then have res: "ph' = (case r of None \<Rightarrow> Callback old t bs | Some e \<Rightarrow> CloseTemp old t (Some e))" "s' = s\<lparr>sh_disk := d\<rparr>"
    using assms(1) by (auto split: option.splits)
  note eff = contents_append [OF a]
  have "values_ok G (contents d)"
    using assms(2,4) eff(2) by (auto simp: values_ok_def split: option.splits if_splits)
  moreover have "phase_ok q (contents d) ph'"
    using assms(3) eff(2) res(1) by (auto split: option.splits)
  moreover have "keeps_temps (Some t) (contents (sh_disk s)) (contents d)"
    using eff(2) by (auto simp: keeps_temps_def split: option.splits)
  moreover have "phase_temp ph' = Some t" using res(1) by (simp split: option.splits)
  ultimately show ?thesis using eff(1) res(2) by (simp add: step_ok_def)
qed

lemma rename_ok:
  assumes "write_step srt i q (RenameTemp old t) s = Some (ph', s')" "values_ok G (contents (sh_disk s))"
    and "phase_ok q (contents (sh_disk s)) (RenameTemp old t)" "env_ok dir s" "request_ok G dir q"
  shows "step_ok G q (RenameTemp old t) s ph' s'"
proof -
  let ?p = "path_join [dir, wq_key q]"
  have p: "cache_path (sh_cache s) (wq_key q) = ?p" using assms(4) by (simp add: cache_path_def env_ok_def)
  obtain r d where a: "os_rename t ?p (sh_disk s) = (r, d)" by force
  show ?thesis
  proof (cases r)
    case (Inl e)
    then have "ph' = RemoveTemp t (Some e)" "s' = s\<lparr>sh_disk := d\<rparr>" using assms(1) a by (simp_all add: p)
    then show ?thesis using quiet_calls(8) [OF a [unfolded Inl]] by (intro step_ok_less [OF _ assms(2)]) simp_all
  next
    case (Inr u)
    then have res: "ph' \<in> {RemoveTemp t None, StatNew old t}" "s' = s\<lparr>sh_disk := d\<rparr>"
      using assms(1) a by (auto simp: p split: if_splits)
    obtain x where x: "contents (sh_disk s) t = Some x" "contents d = (contents (sh_disk s))(t := None, ?p \<mapsto> x)"
      "same_env (sh_disk s) d"
      using contents_rename [OF a [unfolded Inr]] by blast
    have "G ?p x" "\<not> temp_path ?p"
      using assms(3,5) x(1) by (auto simp: request_ok_def valid_key_path)
    then have "values_ok G (contents d)" "keeps_temps (Some t) (contents (sh_disk s)) (contents d)"
      using assms(2) by (auto simp: x(2) values_ok_def keeps_temps_def split: if_splits)
    then show ?thesis using res x(3) by (auto simp: step_ok_def)
  qed
qed

lemma write_step_ok:
  assumes "write_step srt i q ph s = Some (ph', s')" "env_ok dir s" "values_ok G (contents (sh_disk s))"
    and "request_ok G dir q" "phase_ok q (contents (sh_disk s)) ph" "\<And>t. phase_temp ph = Some t \<Longrightarrow> temp_path t"
  shows "step_ok G q ph s ph' s'"
proof -
  consider old where "ph = CreateTemp old" | old t b bs where "ph = Callback old t (b # bs)"
    | old t where "ph = RenameTemp old t"
    | "\<And>old. ph \<noteq> CreateTemp old" "\<And>old t b bs. ph \<noteq> Callback old t (b # bs)" "\<And>old t. ph \<noteq> RenameTemp old t"
    by blast
  then show ?thesis
  proof cases
    case 1
    then show ?thesis using create_temp_ok assms(1-3) by blast
  next
    case (2 old t b bs)
    then show ?thesis using callback_ok assms(1,3,5,6) by simp
  next
    case 3
    then show ?thesis using rename_ok assms(1-5) by blast
  next
    case 4
    note quiet = write_step_quiet [OF assms(1) 4 assms(5)]
    show ?thesis by (rule step_ok_less [OF quiet(1) assms(3) quiet(2,3)])
  qed
qed

lemma reader_ok_touch: "reader_ok P (TouchFile h) \<longleftrightarrow> (\<forall>b. h = FileHandle b \<longrightarrow> P b)"
  by (cases h) simp_all

lemma reader_step_ok:
  assumes "read_step k ph s = Some (ph', s')" "env_ok dir s" "values_ok G (contents (sh_disk s))"
    and "routine_ok G dir (contents (sh_disk s)) (Reading k ph)"
  shows "contents (sh_disk s') = contents (sh_disk s) \<and> same_env (sh_disk s) (sh_disk s') \<and> sh_cache s' = sh_cache s \<and>
    routine_ok G dir (contents (sh_disk s')) (Reading k ph')"
proof (cases ph)
  case OpenFile
  obtain r d where o: "os_open (path_join [dir, k]) (sh_disk s) = (r, d)" by force
  have res: "ph' = (case r of Inl e \<Rightarrow> Opened (Inl e) | Inr h \<Rightarrow> TouchFile h)" "s' = s\<lparr>sh_disk := d\<rparr>"
    using assms(1,2) OpenFile o by (auto simp: cache_path_def env_ok_def split: sum.splits)
  have "reader_ok (G (path_join [dir, k])) ph'" if "valid_key dir k"
    using os_open_effect [OF o] assms(3) that res(1)
    by (cases r) (auto simp: values_ok_def contents_def valid_key_path reader_ok_touch)
  then show ?thesis using quiet_calls(6) [OF o] res(2) by simp
next
  case (TouchFile h)
  then show ?thesis using assms(1,4) contents_chtimes by (cases h) auto
next
  case (Opened r)
  then show ?thesis using assms(1) by simp
qed

section \<open>Runs keep the invariant\<close>

text \<open>What one goroutine does leaves the others alone.\<close>

lemma run_ok_update:
  assumes "run_ok G dir (rs, s)" "i < length rs" "ca_dir (sh_cache s') = dir" "same_env (sh_disk s) (sh_disk s')"
    and "keeps_temps (routine_temp r') (contents (sh_disk s)) (contents (sh_disk s'))"
    and "values_ok G (contents (sh_disk s'))" "routine_ok G dir (contents (sh_disk s')) r'"
    and "\<forall>t. routine_temp r' = Some t \<longrightarrow> routine_temp (rs ! i) = Some t \<or>
        (\<exists>n. dk_calls (sh_disk s) \<le> n \<and> temp_drawn (sh_disk s') n t)"
  shows "run_ok G dir (rs[i := r'], s')"
proof -
  let ?d = "sh_disk s" and ?d' = "sh_disk s'"
  have ok: "env_ok dir s" "\<And>r. r \<in> set rs \<Longrightarrow> routine_ok G dir (contents ?d) r"
    "\<And>r t. r \<in> set rs \<Longrightarrow> routine_temp r = Some t \<Longrightarrow> \<exists>n. temp_drawn ?d n t"
    "\<And>j k t. j < length rs \<Longrightarrow> k < length rs \<Longrightarrow> routine_temp (rs ! j) = Some t \<Longrightarrow> routine_temp (rs ! k) = Some t \<Longrightarrow> j = k"
    using assms(1) by (simp_all add: run_ok_def)
  have env: "env_ok dir s'" using ok(1) assms(3,4) by (simp add: env_ok_def same_env_def plain_rand_def)
  have inj: "inj (dk_rand ?d')" using env by (simp add: env_ok_def)
  have new: "\<exists>n. temp_drawn ?d' n t" if t: "routine_temp r' = Some t" for t
    using assms(8) t ok(3) [of "rs ! i" t] assms(2) temp_drawn_env [OF assms(4)] nth_mem by blast
  have apart: "routine_temp r' \<noteq> Some t" if j: "j < length rs" "j \<noteq> i" "routine_temp (rs ! j) = Some t" for j t
  proof
    assume t: "routine_temp r' = Some t"
    obtain m where m: "temp_drawn ?d m t" using ok(3) j nth_mem by blast
    obtain n where n: "dk_calls ?d \<le> n" "temp_drawn ?d' n t"
      using assms(8) t ok(4) [OF j(1) assms(2) j(3)] j(2) by blast
    have "dk_rand ?d' m = dk_rand ?d' n"
      using m n(2) assms(4) by (simp add: temp_drawn_def same_env_def)
    then have "m = n" using inj by (simp add: inj_eq)
    then show False using m n(1) by (simp add: temp_drawn_def)
  qed
  have others: "routine_ok G dir (contents ?d') (rs ! j)" if j: "j < length rs" "j \<noteq> i" for j
    using routine_ok_keeps [OF ok(2) assms(5)] ok(3) apart j temp_drawn_path nth_mem by metis
  have "routine_ok G dir (contents ?d') r \<and> (\<forall>t. routine_temp r = Some t \<longrightarrow> (\<exists>n. temp_drawn ?d' n t))"
    if "r \<in> set (rs[i := r'])" for r
  proof -
    obtain j where j: "j < length rs" "r = rs[i := r'] ! j" using \<open>r \<in> set (rs[i := r'])\<close> by (auto simp: in_set_conv_nth)
    show ?thesis
    proof (cases "j = i")
      case True
      then show ?thesis using j assms(2,7) new by simp
    next
      case False
      then show ?thesis using j others ok(3) [of "rs ! j"] temp_drawn_env [OF assms(4)] nth_mem by fastforce
    qed
  qed
  moreover have "j = k" if jk: "j < length rs" "k < length rs" "routine_temp (rs[i := r'] ! j) = Some t"
    "routine_temp (rs[i := r'] ! k) = Some t" for j k t
    using jk ok(4) [of j k t] apart [of j t] apart [of k t] by (cases "j = i"; cases "k = i") auto
  ultimately show ?thesis using env assms(6) by (auto simp: run_ok_def)
qed

lemma routine_step_ok:
  assumes "routine_step srt i r s = Some (r', s')" "env_ok dir s" "values_ok G (contents (sh_disk s))"
    and "routine_ok G dir (contents (sh_disk s)) r" "\<And>t. routine_temp r = Some t \<Longrightarrow> temp_path t"
  shows "ca_dir (sh_cache s') = dir" "same_env (sh_disk s) (sh_disk s')"
    "keeps_temps (routine_temp r') (contents (sh_disk s)) (contents (sh_disk s'))"
    "values_ok G (contents (sh_disk s'))" "routine_ok G dir (contents (sh_disk s')) r'"
    "\<forall>t. routine_temp r' = Some t \<longrightarrow> routine_temp r = Some t \<or>
      (\<exists>n. dk_calls (sh_disk s) \<le> n \<and> temp_drawn (sh_disk s') n t)"
proof -
  have dir: "ca_dir (sh_cache s) = dir" using assms(2) by (simp add: env_ok_def)
  have "ca_dir (sh_cache s') = dir \<and> same_env (sh_disk s) (sh_disk s') \<and>
    keeps_temps (routine_temp r') (contents (sh_disk s)) (contents (sh_disk s')) \<and>
    values_ok G (contents (sh_disk s')) \<and> routine_ok G dir (contents (sh_disk s')) r' \<and>
    (\<forall>t. routine_temp r' = Some t \<longrightarrow> routine_temp r = Some t \<or>
      (\<exists>n. dk_calls (sh_disk s) \<le> n \<and> temp_drawn (sh_disk s') n t))"
  proof (cases r)
    case (Writing q ph)
    then obtain ph' where w: "r' = Writing q ph'" "write_step srt i q ph s = Some (ph', s')"
      using assms(1) by auto
    then show ?thesis
      using write_step_ok [OF w(2) assms(2,3)] write_step_shared [OF w(2)] assms(4,5) Writing dir
      by (simp add: step_ok_def)
  next
    case (Reading k ph)
    then obtain ph' where w: "r' = Reading k ph'" "read_step k ph s = Some (ph', s')"
      using assms(1) by auto
    then show ?thesis
      using reader_step_ok [OF w(2) assms(2,3)] assms(3,4) Reading dir by (simp add: keeps_temps_def)
  next
    case (Asking k b)
    then obtain b' d where "r' = Asking k (Some b')" "s' = s\<lparr>sh_disk := d\<rparr>" "cache_has (sh_cache s) k (sh_disk s) = (b', d)"
      using assms(1) by (cases b) (auto split: prod.splits)
    then show ?thesis using quiet_calls(9) assms(3) dir by (auto simp: keeps_temps_def)
  qed
  then show "ca_dir (sh_cache s') = dir" "same_env (sh_disk s) (sh_disk s')"
    "keeps_temps (routine_temp r') (contents (sh_disk s)) (contents (sh_disk s'))"
    "values_ok G (contents (sh_disk s'))" "routine_ok G dir (contents (sh_disk s')) r'"
    "\<forall>t. routine_temp r' = Some t \<longrightarrow> routine_temp r = Some t \<or>
      (\<exists>n. dk_calls (sh_disk s) \<le> n \<and> temp_drawn (sh_disk s') n t)" by blast+
qed

lemma run_ok_begin:
  assumes "run_ok G dir (rs, s)" "routine_ok G dir (contents (sh_disk s)) r" "routine_temp r = None"
  shows "run_ok G dir (rs @ [r], s)"
  using assms by (auto simp: run_ok_def nth_append less_Suc_eq)

lemma run_ok_step:
  assumes "cache_step srt e st = Some st'" "run_ok G dir st" "\<And>q. e = Begin (CallWrite q) \<Longrightarrow> request_ok G dir q"
  shows "run_ok G dir st'"
proof (cases e)
  case (Begin call)
  then show ?thesis
    using assms run_ok_begin [of G dir "fst st" "snd st" "start call"] by (cases call; cases st) auto
next
  case (Step i)
  obtain rs s where st: "st = (rs, s)" by force
  then obtain r' s' where i: "i < length rs" "routine_step srt i (rs ! i) s = Some (r', s')" "st' = (rs[i := r'], s')"
    using assms(1) Step by (auto split: if_splits option.splits)
  have ok: "env_ok dir s" "values_ok G (contents (sh_disk s))" "routine_ok G dir (contents (sh_disk s)) (rs ! i)"
    "\<And>t. routine_temp (rs ! i) = Some t \<Longrightarrow> temp_path t"
    using assms(2) i(1) temp_drawn_path unfolding run_ok_def st by (simp, simp, simp, simp, metis nth_mem)
  show ?thesis
    unfolding i(3) by (rule run_ok_update [OF assms(2) [unfolded st] i(1) routine_step_ok [OF i(2) ok]])
qed

lemma cache_run_ok:
  assumes "cache_run srt es st = Some st'" "run_ok G dir st" "\<And>q. Begin (CallWrite q) \<in> set es \<Longrightarrow> request_ok G dir q"
  shows "run_ok G dir st'"
  using cache_run_invariant [OF assms(1), of "run_ok G dir"] assms(2,3) run_ok_step by metis

lemma opened_cache_ok:
  assumes "has_prefix (ca_dir c) ''/''" "plain_rand d" "inj (dk_rand d)" "values_ok G (contents d)"
  shows "run_ok G (ca_dir c) (opened_cache c d)"
  using assms by (simp add: run_ok_def opened_cache_def env_ok_def)

section \<open>Values are whole\<close>

text \<open>C8. Whatever the order of system calls, callback writes and locked sections of any number of concurrent
  calls, whatever calls fail and whatever eviction removes, at every moment, so also when the
  process is killed, what is on the disk under a key and what an \<open>Open\<close> of it has returned is the value that was there
  at the start or the complete output of one \<open>Write\<close> of that file whose callback did not fail:
  never a part of it and never a mixture.  Names of temporary files are assumed not to repeat.\<close>

theorem concurrent_values_whole:
  assumes "cache_run srt es (opened_cache c d0) = Some (rs, s)"
    and "has_prefix (ca_dir c) ''/''" "plain_rand d0" "inj (dk_rand d0)"
    and "\<And>q. Begin (CallWrite q) \<in> set es \<Longrightarrow> valid_key (ca_dir c) (wq_key q)" "valid_key (ca_dir c) k"
    and "contents (sh_disk s) (cache_path c k) = Some b \<or> Reading k (Opened (Inr (FileHandle b))) \<in> set rs"
  shows "contents d0 (cache_path c k) = Some b \<or>
    (\<exists>q. Begin (CallWrite q) \<in> set es \<and> cache_path c (wq_key q) = cache_path c k \<and> wq_error q = None \<and>
       b = concat (wq_parts q))"
proof -
  define G where "G p x \<longleftrightarrow> contents d0 p = Some x \<or>
    (\<exists>q. Begin (CallWrite q) \<in> set es \<and> cache_path c (wq_key q) = p \<and> wq_error q = None \<and> x = concat (wq_parts q))" for p x
  have "values_ok G (contents d0)" by (simp add: values_ok_def G_def)
  moreover have "request_ok G (ca_dir c) q" if "Begin (CallWrite q) \<in> set es" for q
    using that assms(5) by (auto simp: request_ok_def G_def cache_path_def)
  ultimately have "run_ok G (ca_dir c) (rs, s)"
    using cache_run_ok [OF assms(1)] opened_cache_ok assms(2-4) by blast
  then have "values_ok G (contents (sh_disk s))" "Reading k ph \<in> set rs \<Longrightarrow> reader_ok (G (cache_path c k)) ph" for ph
    using assms(6) by (auto simp: run_ok_def cache_path_def)
  from this(1) this(2) [of "Opened (Inr (FileHandle b))"] have "G (cache_path c k) b"
    using assms(6,7) by (auto simp: values_ok_def valid_key_path cache_path_def)
  then show ?thesis by (simp add: G_def)
qed

section \<open>Writes stay\<close>

text \<open>After its rename a write is on the disk; only an eviction, which a capacity allows, takes it away.\<close>

fun capped :: "write_phase \<Rightarrow> bool" where
  "capped (StatNew old t) = True"
| "capped (AddSize old t new) = True"
| "capped (WalkDir t) = True"
| "capped (WalkFile t ps es) = True"
| "capped (LockEvict t es) = True"
| "capped (RemoveFile t es) = True"
| "capped (PruneDir t q es) = True"
| "capped _ = False"

fun landed :: "write_phase \<Rightarrow> bool" where
  "landed (RemoveTemp t r) = (r = None)"
| "landed (Written r) = (r = None)"
| "landed ph = capped ph"

lemma contents_removed_at: "os_remove p d = (r, d') \<Longrightarrow> contents d' q = contents d q \<or> p = q \<and> contents d' q = None"
  using contents_remove [of p d r d'] by (auto split: if_splits)

lemma write_step_landed:
  assumes "write_step srt i q ph s = Some (ph', s')" "\<And>old t. ph \<noteq> RenameTemp old t" "landed ph'"
  shows "landed ph"
  using assms
  by (induction srt i q ph s rule: write_step.induct)
    (auto simp: Let_def split: prod.splits sum.splits option.splits if_splits)

lemma write_step_capped:
  assumes "write_step srt i q ph s = Some (ph', s')" "capped ph'"
  shows "capped ph \<or> 0 < ca_cap (sh_cache s)"
  using assms
  by (induction srt i q ph s rule: write_step.induct)
    (auto simp: Let_def split: prod.splits sum.splits option.splits if_splits)

text \<open>What a step does to one file that is not temporary.\<close>

lemma write_step_at:
  assumes "write_step srt i q ph s = Some (ph', s')" "env_ok dir s" "\<not> temp_path p"
    and "phase_ok q (contents (sh_disk s)) ph" "\<And>t. phase_temp ph = Some t \<Longrightarrow> temp_path t"
  shows "contents (sh_disk s') p = contents (sh_disk s) p \<or> capped ph \<and> contents (sh_disk s') p = None \<or>
    path_join [dir, wq_key q] = p \<and> wq_error q = None \<and> contents (sh_disk s') p = Some (concat (wq_parts q))"
proof -
  have path: "cache_path (sh_cache s) (wq_key q) = path_join [dir, wq_key q]"
    using assms(2) by (simp add: cache_path_def env_ok_def)
  consider old where "ph = CreateTemp old" | old t b bs where "ph = Callback old t (b # bs)"
    | old t where "ph = RenameTemp old t" | t r where "ph = RemoveTemp t r" | "capped ph"
    | "ph = StatOld \<or> (\<exists>old. ph = MakeDir old) \<or> (\<exists>old t. ph = Callback old t [])"
    | old t r where "ph = CloseTemp old t r" | r where "ph = Written r"
  proof (cases ph)
    case (Callback old t bs)
    then show ?thesis using that(2) [of old t] that(6) by (cases bs) simp_all
  qed (use that in simp_all)
  then show ?thesis
  proof cases
    case (1 old)
    obtain r d where c: "os_create_temp (path_dir (path_join [dir, wq_key q])) (sh_disk s) = (r, d)" by force
    then have d: "sh_disk s' = d" using assms(1) 1 by (auto simp: path split: sum.splits)
    show ?thesis
    proof (cases r)
      case (Inl e)
      then show ?thesis using quiet_calls(7) [OF c [unfolded Inl]] d by simp
    next
      case (Inr t)
      note t = contents_create_temp(1,2) [OF c [unfolded Inr]]
      have "temp_path t" using t(2) temp_base assms(2) by (simp add: env_ok_def temp_path_def has_prefix_iff)
      then show ?thesis using t(1) d assms(3) by auto
    qed
  next
    case (2 old t b bs)
    obtain r d where a: "os_append t b (sh_disk s) = (r, d)" by force
    then have "sh_disk s' = d" using assms(1) 2 by (auto split: option.splits)
    then show ?thesis using contents_append(2) [OF a] assms(3,5) 2 by (auto split: option.splits)
  next
    case (3 old t)
    obtain r d where a: "os_rename t (path_join [dir, wq_key q]) (sh_disk s) = (r, d)" by force
    then have d: "sh_disk s' = d" using assms(1) 3 by (auto simp: path split: sum.splits)
    show ?thesis
    proof (cases r)
      case (Inl e)
      then show ?thesis using quiet_calls(8) [OF a [unfolded Inl]] d by simp
    next
      case (Inr u)
      then obtain x where "contents (sh_disk s) t = Some x"
        "contents d = (contents (sh_disk s))(t := None, path_join [dir, wq_key q] \<mapsto> x)"
        using contents_rename(2) [OF a [unfolded Inr]] by blast
      then show ?thesis using d assms(3-5) 3 by auto
    qed
  next
    case (4 t r)
    then have "temp_path t" "sh_disk s' = snd (os_remove t (sh_disk s))" using assms(1,5) by auto
    then show ?thesis using contents_removed_at [of t "sh_disk s" _ _ p] assms(3) by (metis prod.collapse)
  next
    case 5
    then have ne: "ph \<noteq> CreateTemp old" "ph \<noteq> Callback old t (b # bs)" "ph \<noteq> RenameTemp old t" for old t b bs
      by auto
    have "contents (sh_disk s') \<subseteq>\<^sub>m contents (sh_disk s)"
      using write_step_quiet(1) [OF assms(1) ne assms(4)] by (rule conjunct1)
    from map_le_cases [OF this, of p] show ?thesis using 5 by argo
  next
    case 6
    then show ?thesis
      using assms(1) by (auto dest!: quiet_calls(1,2) split: prod.splits sum.splits)
  next
    case (7 old t r)
    then show ?thesis
      using assms(1) contents_closed by (cases r) (auto dest!: quiet_calls(4) split: prod.splits sum.splits)
  qed (use assms(1) in simp)
qed

text \<open>The invariant of the writes of one path that all have the same output.\<close>

definition stays_ok :: "int \<Rightarrow> path \<Rightarrow> path \<Rightarrow> bytes \<Rightarrow> routine list \<times> shared \<Rightarrow> bool" where
  "stays_ok cap dir p out = (\<lambda>(rs, s). run_ok (\<lambda>_ _. True) dir (rs, s) \<and> ca_cap (sh_cache s) = cap \<and>
     (\<forall>q ph. Writing q ph \<in> set rs \<longrightarrow> (capped ph \<longrightarrow> 0 < cap) \<and>
        (path_join [dir, wq_key q] = p \<longrightarrow> (wq_error q = None \<longrightarrow> concat (wq_parts q) = out) \<and>
          (landed ph \<longrightarrow> wq_error q = None \<and>
             (contents (sh_disk s) p = Some out \<or> 0 < cap \<and> contents (sh_disk s) p = None)))))"

lemma rename_step_landed:
  assumes "write_step srt i q (RenameTemp old t) s = Some (ph', s')" "landed ph'" "env_ok dir s"
    and "phase_ok q (contents (sh_disk s)) (RenameTemp old t)"
  shows "wq_error q = None \<and> contents (sh_disk s') (path_join [dir, wq_key q]) = Some (concat (wq_parts q))"
proof -
  obtain r d where a: "os_rename t (path_join [dir, wq_key q]) (sh_disk s) = (r, d)" by force
  then have "r = Inr ()" "sh_disk s' = d"
    using assms(1-3) by (auto simp: cache_path_def env_ok_def split: sum.splits)
  then show ?thesis using contents_rename(2) [of t "path_join [dir, wq_key q]" "sh_disk s" "()" d] a assms(4) by auto
qed

lemma routine_step_quiet:
  assumes "routine_step srt i r s = Some (r', s')" "\<And>q ph. r \<noteq> Writing q ph"
  shows "contents (sh_disk s') = contents (sh_disk s)" "sh_cache s' = sh_cache s" "\<And>q ph. r' \<noteq> Writing q ph"
proof -
  have "contents (sh_disk s') = contents (sh_disk s) \<and> sh_cache s' = sh_cache s \<and> (\<forall>q ph. r' \<noteq> Writing q ph)"
  proof (cases r)
    case (Reading k ph)
    then show ?thesis
      using assms(1) contents_chtimes
      by (cases ph) (auto dest!: quiet_calls(6) split: prod.splits sum.splits)
  next
    case (Asking k b)
    then show ?thesis using assms(1) by (cases b) (auto dest!: quiet_calls(9) split: prod.splits)
  qed (use assms(2) in simp)
  then show "contents (sh_disk s') = contents (sh_disk s)" "sh_cache s' = sh_cache s" "\<And>q ph. r' \<noteq> Writing q ph"
    by blast+
qed

lemma stays_ok_routine:
  assumes "stays_ok cap dir p out (rs, s)" "\<not> temp_path p" "i < length rs"
    and "routine_step srt i (rs ! i) s = Some (r', s')" "run_ok (\<lambda>_ _. True) dir (rs[i := r'], s')"
  shows "stays_ok cap dir p out (rs[i := r'], s')"
proof -
  have ok: "run_ok (\<lambda>_ _. True) dir (rs, s)" "ca_cap (sh_cache s) = cap"
    "Writing q ph \<in> set rs \<Longrightarrow> capped ph \<Longrightarrow> 0 < cap"
    "Writing q ph \<in> set rs \<Longrightarrow> path_join [dir, wq_key q] = p \<Longrightarrow> wq_error q = None \<Longrightarrow> concat (wq_parts q) = out"
    "Writing q ph \<in> set rs \<Longrightarrow> path_join [dir, wq_key q] = p \<Longrightarrow> landed ph \<Longrightarrow>
      wq_error q = None \<and> (contents (sh_disk s) p = Some out \<or> 0 < cap \<and> contents (sh_disk s) p = None)" for q ph
    using assms(1) unfolding stays_ok_def by auto
  have env: "env_ok dir s" using ok(1) by (simp add: run_ok_def)
  show ?thesis
  proof (cases "\<exists>q ph. rs ! i = Writing q ph")
    case False
    note quiet = routine_step_quiet [OF assms(4)]
    have "(capped ph \<longrightarrow> 0 < cap) \<and> (path_join [dir, wq_key q] = p \<longrightarrow> (wq_error q = None \<longrightarrow> concat (wq_parts q) = out) \<and>
        (landed ph \<longrightarrow> wq_error q = None \<and> (contents (sh_disk s') p = Some out \<or> 0 < cap \<and> contents (sh_disk s') p = None)))"
      if "Writing q ph \<in> set (rs[i := r'])" for q ph
    proof -
      have "Writing q ph \<in> set rs"
        using that quiet(3) False by (metis set_update_subset_insert insert_iff subsetD)
      then show ?thesis using ok(3-5) [of q ph] quiet(1) False by auto
    qed
    then show ?thesis using ok(2) quiet(2) False assms(5) unfolding stays_ok_def by auto
  next
    case True
    then obtain q ph ph' where r: "rs ! i = Writing q ph" "r' = Writing q ph'" "write_step srt i q ph s = Some (ph', s')"
      using assms(4) by auto
    have mem: "Writing q ph \<in> set rs" using r(1) assms(3) nth_mem by metis
    have ph: "phase_ok q (contents (sh_disk s)) ph" "\<And>t. phase_temp ph = Some t \<Longrightarrow> temp_path t"
      using ok(1) mem temp_drawn_path unfolding run_ok_def by fastforce+
    have at: "contents (sh_disk s') p = contents (sh_disk s) p \<or> 0 < cap \<and> contents (sh_disk s') p = None \<or>
        contents (sh_disk s') p = Some out"
      using write_step_at [OF r(3) env assms(2) ph] ok(3,4) [OF mem] by auto
    have cap': "ca_cap (sh_cache s') = cap" using write_step_shared [OF r(3)] ok(2) by simp
    have own: "wq_error q = None \<and> (contents (sh_disk s') p = Some out \<or> 0 < cap \<and> contents (sh_disk s') p = None)"
      if p: "path_join [dir, wq_key q] = p" "landed ph'"
    proof (cases "\<exists>old t. ph = RenameTemp old t")
      case True
      then show ?thesis using rename_step_landed [OF _ p(2) env] r(3) ph(1) p(1) ok(4) [OF mem p(1)] by metis
    next
      case False
      then show ?thesis using ok(5) [OF mem p(1)] write_step_landed [OF r(3) _ p(2)] at by auto
    qed
    have "(capped ph2 \<longrightarrow> 0 < cap) \<and> (path_join [dir, wq_key q2] = p \<longrightarrow> (wq_error q2 = None \<longrightarrow> concat (wq_parts q2) = out) \<and>
        (landed ph2 \<longrightarrow> wq_error q2 = None \<and> (contents (sh_disk s') p = Some out \<or> 0 < cap \<and> contents (sh_disk s') p = None)))"
      if "Writing q2 ph2 \<in> set (rs[i := r'])" for q2 ph2
    proof -
      have "Writing q2 ph2 \<in> set rs \<or> q2 = q \<and> ph2 = ph'"
        using that r(2) by (metis set_update_subset_insert insert_iff subsetD routine.inject(1))
      then show ?thesis
      proof
        assume "Writing q2 ph2 \<in> set rs"
        then show ?thesis using ok(3-5) [of q2 ph2] at by auto
      next
        assume "q2 = q \<and> ph2 = ph'"
        then show ?thesis using own ok(3,4) [OF mem] ok(2) write_step_capped [OF r(3)] by auto
      qed
    qed
    then show ?thesis using cap' assms(5) unfolding stays_ok_def by simp
  qed
qed

lemma stays_ok_step:
  assumes "cache_step srt e st = Some st'" "stays_ok cap dir p out st" "\<not> temp_path p"
    and "\<And>q. e = Begin (CallWrite q) \<Longrightarrow> valid_key dir (wq_key q) \<and>
      (path_join [dir, wq_key q] = p \<longrightarrow> wq_error q = None \<longrightarrow> concat (wq_parts q) = out)"
  shows "stays_ok cap dir p out st'"
proof -
  obtain rs s where st: "st = (rs, s)" by force
  have "run_ok (\<lambda>_ _. True) dir st'"
    using run_ok_step [OF assms(1)] assms(2,4) by (simp add: stays_ok_def st request_ok_def)
  then show ?thesis
  proof (cases e)
    case (Begin call)
    then show ?thesis
      using assms \<open>run_ok (\<lambda>_ _. True) dir st'\<close> unfolding stays_ok_def st by (cases call) auto
  next
    case (Step i)
    then obtain r' s' where "i < length rs" "routine_step srt i (rs ! i) s = Some (r', s')" "st' = (rs[i := r'], s')"
      using assms(1) st by (auto split: if_splits option.splits)
    then show ?thesis using stays_ok_routine assms(2,3) \<open>run_ok (\<lambda>_ _. True) dir st'\<close> st by metis
  qed
qed

text \<open>C25. When all concurrent writes of one file have the same output, as the writes of content addressed
  entries have, then from the return of the first one that reports success the file holds
  that output, whatever else runs and fails; only when there is a capacity the eviction may have
  removed it.  A write that reports success did not have a failing callback.\<close>

theorem concurrent_write_stays:
  assumes "cache_run srt es (opened_cache c d0) = Some (rs, s)"
    and "has_prefix (ca_dir c) ''/''" "plain_rand d0" "inj (dk_rand d0)"
    and "\<And>q'. Begin (CallWrite q') \<in> set es \<Longrightarrow> valid_key (ca_dir c) (wq_key q') \<and>
      (cache_path c (wq_key q') = cache_path c (wq_key q) \<longrightarrow> wq_error q' = None \<longrightarrow> concat (wq_parts q') = out)"
    and "Writing q (Written None) \<in> set rs" "valid_key (ca_dir c) (wq_key q)"
  shows "wq_error q = None \<and> (contents (sh_disk s) (cache_path c (wq_key q)) = Some out \<or>
    0 < ca_cap c \<and> contents (sh_disk s) (cache_path c (wq_key q)) = None)"
proof -
  let ?ok = "stays_ok (ca_cap c) (ca_dir c) (cache_path c (wq_key q)) out"
  have "run_ok (\<lambda>_ _. True) (ca_dir c) (opened_cache c d0)"
    using opened_cache_ok assms(2-4) by (simp add: values_ok_def)
  then have "?ok (opened_cache c d0)" by (simp add: stays_ok_def opened_cache_def)
  then have "?ok (rs, s)"
    using cache_run_invariant [OF assms(1), of ?ok] stays_ok_step assms(5,7)
    by (metis cache_path_def valid_key_path)
  then show ?thesis using assms(6) unfolding stays_ok_def by (auto simp: cache_path_def)
qed

end
