(* ===== verification/Disk_Runs.thy ===== *)
theory Disk_Runs
  imports Disk_Steps_Props
begin

text \<open>
  Whole runs of the disk cache: the mutex has one holder and blocks nobody for ever, every run of calls ends, an
  undisturbed call of \<open>Write\<close> is the function \<open>cache_write\<close>, and two writes whose eviction goes wrong.
\<close>

section \<open>The mutex\<close>

fun locked :: "routine \<Rightarrow> bool" where
  "locked (Writing q (RemoveFile t es)) = True"
| "locked (Writing q (PruneDir t p es)) = True"
| "locked _ = False"

fun returned :: "routine \<Rightarrow> bool" where
  "returned (Writing q (Written r)) = True"
| "returned (Reading k (Opened r)) = True"
| "returned (Asking k (Some b)) = True"
| "returned _ = False"

definition lock_ok :: "routine list \<times> shared \<Rightarrow> bool" where
  "lock_ok = (\<lambda>(rs, s). (\<forall>i < length rs. locked (rs ! i) \<longleftrightarrow> sh_lock s = Some i) \<and>
     (\<forall>i. sh_lock s = Some i \<longrightarrow> i < length rs))"

lemma write_step_lock:
  assumes "write_step srt i q ph s = Some (ph', s')" "locked (Writing q ph) \<longleftrightarrow> sh_lock s = Some i"
  shows "(locked (Writing q ph') \<longleftrightarrow> sh_lock s' = Some i) \<and>
    (sh_lock s' = sh_lock s \<or> sh_lock s \<in> {None, Some i} \<and> sh_lock s' \<in> {None, Some i})"
  using assms
  by (induction srt i q ph s rule: write_step.induct)
    (auto simp: Let_def split: prod.splits sum.splits option.splits if_splits)

lemma routine_step_lock:
  assumes "routine_step srt i r s = Some (r', s')" "locked r \<longleftrightarrow> sh_lock s = Some i"
  shows "(locked r' \<longleftrightarrow> sh_lock s' = Some i) \<and>
    (sh_lock s' = sh_lock s \<or> sh_lock s \<in> {None, Some i} \<and> sh_lock s' \<in> {None, Some i})"
proof (cases r)
  case (Writing q ph)
  then obtain ph' where "r' = Writing q ph'" "write_step srt i q ph s = Some (ph', s')" using assms(1) by auto
  then show ?thesis using write_step_lock assms(2) Writing by blast
next
  case (Reading k ph)
  then show ?thesis
    using assms by (cases ph) (auto simp: Let_def split: prod.splits sum.splits)
next
  case (Asking k b)
  then show ?thesis using assms by (cases b) (auto split: prod.splits)
qed

lemma start_not_locked: "\<not> locked (start call)"
  by (cases call) simp_all

lemma lock_ok_step:
  assumes "cache_step srt e st = Some st'" "lock_ok st"
  shows "lock_ok st'"
proof (cases e)
  case (Begin call)
  then show ?thesis
    using assms start_not_locked [of call] by (cases st) (auto simp: lock_ok_def nth_append less_Suc_eq)
next
  case (Step i)
  obtain rs s where st: "st = (rs, s)" by force
  then obtain r' s' where i: "i < length rs" "routine_step srt i (rs ! i) s = Some (r', s')" "st' = (rs[i := r'], s')"
    using assms(1) Step by (auto split: if_splits option.splits)
  have ok: "locked (rs ! j) \<longleftrightarrow> sh_lock s = Some j" if "j < length rs" for j
    using assms(2) that by (simp add: lock_ok_def st)
  note own = routine_step_lock [OF i(2) ok [OF i(1)]]
  then have "sh_lock s' = Some j \<longleftrightarrow> sh_lock s = Some j" if "j \<noteq> i" for j using that by auto
  then have "locked (rs[i := r'] ! j) \<longleftrightarrow> sh_lock s' = Some j" if "j < length rs" for j
    using own ok [OF that] that i(1) by (cases "j = i") simp_all
  moreover have "j < length rs" if "sh_lock s' = Some j" for j
    using own that assms(2) i(1) by (auto simp: lock_ok_def st)
  ultimately show ?thesis by (simp add: lock_ok_def i(3))
qed

lemma cache_run_lock: "cache_run srt es (opened_cache c d) = Some st \<Longrightarrow> lock_ok st"
  using cache_run_invariant [of srt es "opened_cache c d" st lock_ok] lock_ok_step
  by (simp add: lock_ok_def opened_cache_def)

lemma step_possible:
  assumes "\<not> returned r" "sh_lock s = None \<or> sh_lock s = Some i \<and> locked r"
  shows "routine_step srt i r s \<noteq> None"
proof (cases r)
  case (Writing q ph)
  then show ?thesis
    using assms
    by (induction srt i q ph s rule: write_step.induct)
      (auto simp: Let_def split: prod.splits sum.splits option.splits if_splits)
next
  case (Reading k ph)
  then show ?thesis using assms(1) by (cases ph) (auto simp: Let_def split: prod.splits sum.splits)
next
  case (Asking k b)
  then show ?thesis using assms(1) by (cases b) (auto split: prod.splits)
qed

lemma locked_not_returned: "locked r \<Longrightarrow> \<not> returned r"
  by (cases r rule: locked.cases) simp_all

section \<open>Every run ends\<close>

fun phase_rank :: "write_phase \<Rightarrow> nat \<times> nat" where
  "phase_rank StatOld = (14, 0)"
| "phase_rank (MakeDir old) = (13, 0)"
| "phase_rank (CreateTemp old) = (12, 0)"
| "phase_rank (Callback old t bs) = (11, length bs)"
| "phase_rank (CloseTemp old t r) = (10, 0)"
| "phase_rank (RenameTemp old t) = (9, 0)"
| "phase_rank (StatNew old t) = (8, 0)"
| "phase_rank (AddSize old t new) = (7, 0)"
| "phase_rank (WalkDir t) = (6, 0)"
| "phase_rank (WalkFile t ps es) = (5, length ps)"
| "phase_rank (LockEvict t es) = (4, 0)"
| "phase_rank (RemoveFile t es) = (3, 2 * length es)"
| "phase_rank (PruneDir t p es) = (3, 2 * length es + 1)"
| "phase_rank (RemoveTemp t r) = (2, 0)"
| "phase_rank (Written r) = (0, 0)"

fun routine_rank :: "routine \<Rightarrow> nat \<times> nat" where
  "routine_rank (Writing q ph) = phase_rank ph"
| "routine_rank (Reading k OpenFile) = (2, 0)"
| "routine_rank (Reading k (TouchFile h)) = (1, 0)"
| "routine_rank (Reading k (Opened r)) = (0, 0)"
| "routine_rank (Asking k None) = (1, 0)"
| "routine_rank (Asking k (Some b)) = (0, 0)"

lemma routine_step_rank:
  assumes "routine_step srt i r s = Some (r', s')"
  shows "(routine_rank r', routine_rank r) \<in> less_than <*lex*> less_than"
proof (cases r)
  case (Writing q ph)
  then obtain ph' where "r' = Writing q ph'" "write_step srt i q ph s = Some (ph', s')" using assms by auto
  then show ?thesis
    using Writing
    by (induction srt i q ph s rule: write_step.induct)
      (auto simp: Let_def split: prod.splits sum.splits option.splits if_splits)
next
  case (Reading k ph)
  then show ?thesis using assms by (cases ph) (auto simp: Let_def split: prod.splits sum.splits)
next
  case (Asking k b)
  then show ?thesis using assms by (cases b) (auto split: prod.splits)
qed

lemma steps_wf: "wf {(st', st). \<exists>i. cache_step srt (Step i) st = Some st'}"
proof (rule wf_subset)
  let ?rank = "\<lambda>st :: routine list \<times> shared. mset (map routine_rank (fst st))"
  show "wf (inv_image (mult (less_than <*lex*> less_than)) ?rank)" by (intro wf_inv_image wf_mult) auto
  have "(?rank st', ?rank st) \<in> mult (less_than <*lex*> less_than)"
    if step: "cache_step srt (Step i) st = Some st'" for i st st'
  proof -
    obtain rs s where st: "st = (rs, s)" by force
    then obtain r' s' where i: "i < length rs" "routine_step srt i (rs ! i) s = Some (r', s')" "st' = (rs[i := r'], s')"
      using step by (auto split: if_splits option.splits)
    let ?M = "mset (map routine_rank rs) - {#routine_rank (rs ! i)#}"
    have "?rank st' = add_mset (routine_rank r') ?M" "?rank st = add_mset (routine_rank (rs ! i)) ?M"
      using i(1) by (simp_all add: i(3) st map_update mset_update)
    then show ?thesis
      using routine_step_rank [OF i(2)]
        one_step_implies_mult [of "{#routine_rank (rs ! i)#}" "{#routine_rank r'#}" "less_than <*lex*> less_than" ?M]
      by simp
  qed
  then show "{(st', st). \<exists>i. cache_step srt (Step i) st = Some st'} \<subseteq>
      inv_image (mult (less_than <*lex*> less_than)) ?rank" by auto
qed

text \<open>C26. Concurrent calls of the cache return: there is no infinite run of steps, whatever calls fail and whatever the
  eviction finds, and a moment in which no goroutine can make a step is one in which all
  calls have returned; a goroutine that waits for the mutex waits for one that can go on.\<close>

theorem cache_calls_return:
  assumes "cache_run srt es (opened_cache c d) = Some (rs, s)"
  shows "wf {(st', st). \<exists>i. cache_step srt (Step i) st = Some st'} \<and>
    ((\<forall>i. cache_step srt (Step i) (rs, s) = None) \<longrightarrow> list_all returned rs)"
proof (intro conjI impI steps_wf)
  assume stuck: "\<forall>i. cache_step srt (Step i) (rs, s) = None"
  have lock: "lock_ok (rs, s)" by (rule cache_run_lock [OF assms])
  have blocked: "routine_step srt i (rs ! i) s = None" if "i < length rs" for i
    using spec [OF stuck, of i] that by (cases "routine_step srt i (rs ! i) s") (auto split: prod.splits)
  have "sh_lock s = None"
  proof (rule ccontr)
    assume "sh_lock s \<noteq> None"
    then obtain i where i: "sh_lock s = Some i" by blast
    then have "i < length rs" "locked (rs ! i)" using lock by (auto simp: lock_ok_def)
    then show False using step_possible [OF locked_not_returned] blocked i by blast
  qed
  then show "list_all returned rs"
    using step_possible blocked by (metis in_set_conv_nth list_all_iff)
qed

section \<open>A write alone\<close>

definition alone ::
  "(evict_entry list \<Rightarrow> evict_entry list) \<Rightarrow> write_request \<Rightarrow> write_phase \<Rightarrow> shared \<Rightarrow> write_phase \<Rightarrow> shared \<Rightarrow> bool" where
  "alone srt q ph s ph' s' \<longleftrightarrow>
     (\<exists>n. cache_run srt (replicate n (Step 0)) ([Writing q ph], s) = Some ([Writing q ph'], s'))"

lemma alone_refl: "alone srt q ph s ph s"
  unfolding alone_def by (rule exI [of _ 0]) simp

lemma alone_step:
  assumes "write_step srt 0 q ph s = Some (ph1, s1)" "alone srt q ph1 s1 ph' s'"
  shows "alone srt q ph s ph' s'"
proof -
  obtain n where "cache_run srt (replicate n (Step 0)) ([Writing q ph1], s1) = Some ([Writing q ph'], s')"
    using assms(2) by (auto simp: alone_def)
  then show ?thesis unfolding alone_def using assms(1) by (intro exI [of _ "Suc n"]) simp
qed

lemma alone_trans:
  assumes "alone srt q ph s ph1 s1" "alone srt q ph1 s1 ph' s'"
  shows "alone srt q ph s ph' s'"
proof -
  obtain m n where "cache_run srt (replicate m (Step 0)) ([Writing q ph], s) = Some ([Writing q ph1], s1)"
    "cache_run srt (replicate n (Step 0)) ([Writing q ph1], s1) = Some ([Writing q ph'], s')"
    using assms by (auto simp: alone_def)
  then show ?thesis unfolding alone_def
    by (intro exI [of _ "m + n"]) (simp add: replicate_add cache_run_append)
qed

lemma alone_files:
  assumes "evict_files es c d = (c', d')"
  shows "alone srt q (RemoveFile t es) \<lparr>sh_lock = Some 0, sh_cache = c, sh_disk = d\<rparr>
    (RemoveTemp t None) \<lparr>sh_lock = None, sh_cache = c', sh_disk = d'\<rparr>"
  using assms
proof (induction es c d rule: evict_files.induct)
  case (1 c d)
  then show ?case by (intro alone_step [OF _ alone_refl]) simp
next
  case (2 e es c d)
  obtain r d1 where rm: "os_remove (ev_path e) d = (r, d1)" by force
  show ?case
  proof (cases "ca_size c \<le> ca_cap c")
    case True
    then show ?thesis using 2(3) by (intro alone_step [OF _ alone_refl]) simp
  next
    case over: False
    show ?thesis
    proof (cases r)
      case (Inl x)
      then show ?thesis using 2 over rm by (intro alone_step [OF _ "2.IH"(1)]) simp_all
    next
      case (Inr u)
      let ?c = "c\<lparr>ca_size := ca_size c - ev_size e\<rparr>"
      have "evict_files es ?c (snd (os_remove (path_dir (ev_path e)) d1)) = (c', d')" using 2(3) over rm Inr by simp
      then have "alone srt q (RemoveFile t es) \<lparr>sh_lock = Some 0, sh_cache = ?c, sh_disk = snd (os_remove (path_dir (ev_path e)) d1)\<rparr>
          (RemoveTemp t None) \<lparr>sh_lock = None, sh_cache = c', sh_disk = d'\<rparr>"
        by (rule "2.IH"(2) [OF over rm [symmetric] Inr])
      then have "alone srt q (PruneDir t (path_dir (ev_path e)) es) \<lparr>sh_lock = Some 0, sh_cache = ?c, sh_disk = d1\<rparr>
          (RemoveTemp t None) \<lparr>sh_lock = None, sh_cache = c', sh_disk = d'\<rparr>"
        by (rule alone_step [rotated]) simp
      then show ?thesis by (rule alone_step [rotated]) (use over rm Inr in simp)
    qed
  qed
qed

lemma alone_walk:
  assumes "walk_files dir fs d = (rs, d')" "\<forall>(p, f) \<in> set fs. dk_file d p = Some f"
  shows "alone srt q (WalkFile t (map fst (filter (\<lambda>x. below dir (fst x)) fs)) es) \<lparr>sh_lock = None, sh_cache = c, sh_disk = d\<rparr>
    (LockEvict t (srt (es @ evict_entries rs))) \<lparr>sh_lock = None, sh_cache = c, sh_disk = d'\<rparr>"
  using assms
proof (induction dir fs d arbitrary: rs d' es rule: walk_files.induct)
  case (1 dir d)
  then show ?case by (intro alone_step [OF _ alone_refl]) simp
next
  case (2 dir p f fs d)
  show ?case
  proof (cases "below dir p")
    case False
    then show ?thesis using 2 by simp
  next
    case True
    obtain r d1 where call: "os_call d = (r, d1)" by force
    obtain rs1 d2 where rest: "walk_files dir fs d1 = (rs1, d2)" by force
    have d1: "dk_file d1 = dk_file d" using os_call_effect [OF call] by (simp add: dk_file_def)
    have res: "rs = (p, case r of Some e \<Rightarrow> Inl (OSError e) | None \<Rightarrow> Inr f) # rs1" "d' = d2"
      using 2(3) True call rest by auto
    let ?es = "es @ (case r of Some e \<Rightarrow> [] | None \<Rightarrow> [\<lparr>ev_path = p, ev_size = file_size f, ev_mtime = f_mtime f\<rparr>])"
    have "write_step srt 0 q (WalkFile t (p # ps) es) \<lparr>sh_lock = None, sh_cache = c, sh_disk = d\<rparr> =
        Some (WalkFile t ps ?es, \<lparr>sh_lock = None, sh_cache = c, sh_disk = d1\<rparr>)" for ps
      using call 2(4) by (auto simp: os_stat_def split: option.splits)
    moreover have "alone srt q (WalkFile t (map fst (filter (\<lambda>x. below dir (fst x)) fs)) ?es) \<lparr>sh_lock = None, sh_cache = c, sh_disk = d1\<rparr>
        (LockEvict t (srt (?es @ evict_entries rs1))) \<lparr>sh_lock = None, sh_cache = c, sh_disk = d'\<rparr>"
      using "2.IH"(1) [OF True call [symmetric], of rs1 d' ?es] rest res(2) 2(4) d1 by simp
    moreover have "?es @ evict_entries rs1 = es @ evict_entries rs"
      by (simp add: res(1) evict_entries_Cons split: option.splits)
    ultimately show ?thesis using True by (simp add: alone_step)
  qed
qed

lemma alone_evict:
  assumes "evict srt c d = (c', d')" "distinct (akeys (dk_files d))"
  shows "alone srt q (WalkDir t) \<lparr>sh_lock = None, sh_cache = c, sh_disk = d\<rparr>
    (RemoveTemp t None) \<lparr>sh_lock = None, sh_cache = c', sh_disk = d'\<rparr>"
proof -
  obtain rs d1 where w: "os_walk (ca_dir c) d = (rs, d1)" by force
  have files: "alone srt q (LockEvict t (srt (evict_entries rs))) \<lparr>sh_lock = None, sh_cache = c, sh_disk = d1\<rparr>
      (RemoveTemp t None) \<lparr>sh_lock = None, sh_cache = c', sh_disk = d'\<rparr>"
    using assms(1) w by (intro alone_step [OF _ alone_files]) (simp_all add: evict_def)
  obtain r d0 where call: "os_call d = (r, d0)" by force
  have "alone srt q (WalkDir t) \<lparr>sh_lock = None, sh_cache = c, sh_disk = d\<rparr>
      (LockEvict t (srt (evict_entries rs))) \<lparr>sh_lock = None, sh_cache = c, sh_disk = d1\<rparr>"
  proof (cases r)
    case (Some e)
    then show ?thesis
      using w call by (intro alone_step [OF _ alone_refl]) (auto simp: os_walk_def evict_entries_Cons)
  next
    case None
    have names: "filter (below dir) (akeys fs) = map fst (filter (\<lambda>x. below dir (fst x)) fs)" for dir and fs :: "(path \<times> os_file) list"
      by (induction fs) (simp_all add: akeys_def)
    have "\<forall>(p, f) \<in> set (dk_files d). dk_file d0 p = Some f"
      using assms(2) os_call_effect [OF call] by (auto simp: dk_file_def akeys_def)
    from alone_walk [OF _ this, of "ca_dir c" rs d1 srt q t "[]" c]
    have "alone srt q (WalkFile t (filter (below (ca_dir c)) (akeys (dk_files d))) []) \<lparr>sh_lock = None, sh_cache = c, sh_disk = d0\<rparr>
        (LockEvict t (srt (evict_entries rs))) \<lparr>sh_lock = None, sh_cache = c, sh_disk = d1\<rparr>"
      using w call None by (simp add: os_walk_def names)
    then show ?thesis by (rule alone_step [rotated]) (use call None in simp)
  qed
  then show ?thesis using files by (rule alone_trans)
qed

lemma alone_account:
  assumes "account_file srt c (cache_path c (wq_key q)) old d = ((r, c'), d')" "distinct (akeys (dk_files d))"
  shows "alone srt q (if ca_cap c \<le> 0 then RemoveTemp t None else StatNew old t) \<lparr>sh_lock = None, sh_cache = c, sh_disk = d\<rparr>
    (RemoveTemp t r) \<lparr>sh_lock = None, sh_cache = c', sh_disk = d'\<rparr>"
  using assms(1)
proof (cases rule: account_file_cases)
  case unbounded
  then show ?thesis by (simp add: alone_refl)
next
  case (failed e)
  then show ?thesis by (simp add: alone_step [OF _ alone_refl])
next
  case (counted info)
  have "alone srt q (AddSize old t (fi_size info)) \<lparr>sh_lock = None, sh_cache = c, sh_disk = d'\<rparr>
      (RemoveTemp t r) \<lparr>sh_lock = None, sh_cache = c', sh_disk = d'\<rparr>"
    using counted by (intro alone_step [OF _ alone_refl]) simp
  then show ?thesis using counted by (simp add: alone_step)
next
  case (evicted info d1)
  have "distinct (akeys (dk_files d1))" using os_stat_effect [OF evicted(3)] assms(2) by simp
  from alone_evict [OF evicted(4) this]
  have "alone srt q (AddSize old t (fi_size info)) \<lparr>sh_lock = None, sh_cache = c, sh_disk = d1\<rparr>
      (RemoveTemp t r) \<lparr>sh_lock = None, sh_cache = c', sh_disk = d'\<rparr>"
    unfolding evicted(2) by (rule alone_step [rotated]) (use evicted(5) in simp)
  then show ?thesis using evicted(1,3) by (simp add: alone_step)
qed

lemma append_to_empty: "dk_file d t = Some f \<Longrightarrow> f_bytes f = [] \<Longrightarrow> os_append t b d = os_write t b d"
  by (simp add: os_append_def os_write_def os_call_def split: option.split)

text \<open>Up to the rename: the temporary file is removed after an error, the size is accounted for otherwise.\<close>

lemma alone_store:
  assumes "store_file (cache_path c (wq_key q)) out (wq_error q) d = ((tmp, r), d')" "wq_parts q = [out]"
  shows "case tmp of
      None \<Rightarrow> alone srt q (MakeDir old) \<lparr>sh_lock = None, sh_cache = c, sh_disk = d\<rparr>
        (Written r) \<lparr>sh_lock = None, sh_cache = c, sh_disk = d'\<rparr> \<and> r \<noteq> None
    | Some t \<Rightarrow> alone srt q (MakeDir old) \<lparr>sh_lock = None, sh_cache = c, sh_disk = d\<rparr>
        (case r of Some e \<Rightarrow> RemoveTemp t (Some e)
         | None \<Rightarrow> if ca_cap c \<le> 0 then RemoveTemp t None else StatNew old t) \<lparr>sh_lock = None, sh_cache = c, sh_disk = d'\<rparr>"
proof -
  let ?s = "\<lambda>d. \<lparr>sh_lock = None, sh_cache = c, sh_disk = d\<rparr>"
  let ?p = "cache_path c (wq_key q)"
  obtain r1 d1 where mk: "os_mkdir_all (path_dir ?p) d = (r1, d1)" by force
  obtain r2 d2 where ct: "os_create_temp (path_dir ?p) d1 = (r2, d2)" by force
  show ?thesis
  proof (cases r1)
    case (Inl e)
    then show ?thesis
      using assms(1) mk by (auto simp: store_file_def intro!: alone_step [OF _ alone_refl])
  next
    case mkdir: (Inr u)
    then have dir: "write_step srt 0 q (MakeDir old) (?s d) = Some (CreateTemp old, ?s d1)" using mk by simp
    show ?thesis
    proof (cases r2)
      case (Inl e)
      then have "write_step srt 0 q (CreateTemp old) (?s d1) = Some (Written (Some e), ?s d2)" using ct by simp
      moreover have "tmp = None" "r = Some e" "d' = d2" using assms(1) mk mkdir ct Inl by (simp_all add: store_file_def)
      ultimately show ?thesis using dir by (simp add: alone_step [OF _ alone_step [OF _ alone_refl]])
    next
      case (Inr t)
      obtain we d3 where wr: "os_write t out d2 = (we, d3)" by force
      obtain r4 d4 where cl: "os_close d3 = (r4, d4)" by force
      obtain r5 d5 where rn: "os_rename t ?p d4 = (r5, d5)" by force
      define err where "err = (case we of None \<Rightarrow> wq_error q | Some e \<Rightarrow> Some e)"
      let ?f = "\<lparr>f_bytes = [], f_mtime = os_now d1\<rparr>"
      have "dk_file d2 t = Some ?f"
        using os_create_temp_effect(4) [OF ct [unfolded Inr] refl] by (simp add: dk_file_def disk_simps)
      then have "os_append t out d2 = (we, d3)" using append_to_empty wr by simp
      moreover have "alone srt q (Callback old t []) (?s d3) (CloseTemp old t (wq_error q)) (?s d3)"
        by (rule alone_step [OF _ alone_refl]) simp
      ultimately have wrote: "alone srt q (Callback old t [out]) (?s d2) (CloseTemp old t err) (?s d3)"
        by (cases we) (auto simp: err_def intro: alone_step [OF _ alone_refl] alone_step)
      have "alone srt q (CreateTemp old) (?s d1) (CloseTemp old t err) (?s d3)"
        by (rule alone_step [OF _ wrote]) (use ct Inr assms(2) in simp)
      then have closing: "alone srt q (MakeDir old) (?s d) (CloseTemp old t err) (?s d3)"
        by (rule alone_step [OF dir])
      have res: "tmp = Some t" "(r, d') = (case err of Some e \<Rightarrow> (Some e, d4) | None \<Rightarrow>
          (case r4 of Inl e \<Rightarrow> (Some e, d4) | Inr _ \<Rightarrow> (case r5 of Inl e \<Rightarrow> (Some e, d5) | Inr _ \<Rightarrow> (None, d5))))"
        using assms(1) mk mkdir ct Inr wr cl rn
        by (auto simp: store_file_def err_def [symmetric] split: option.splits sum.splits)
      have "alone srt q (CloseTemp old t err) (?s d3)
        (case r of Some e \<Rightarrow> RemoveTemp t (Some e) | None \<Rightarrow> if ca_cap c \<le> 0 then RemoveTemp t None else StatNew old t) (?s d')"
        using res(2) cl rn
        by (auto split: option.splits sum.splits intro: alone_step [OF _ alone_refl] alone_step [OF _ alone_step [OF _ alone_refl]])
      then show ?thesis using alone_trans [OF closing] res(1) by simp
    qed
  qed
qed

lemma write_alone:
  assumes "cache_write srt c (wq_key q) out (wq_error q) d = ((r, c'), d')" "wq_parts q = [out]"
    and "distinct (akeys (dk_files d))"
  shows "alone srt q StatOld \<lparr>sh_lock = None, sh_cache = c, sh_disk = d\<rparr> (Written r) \<lparr>sh_lock = None, sh_cache = c', sh_disk = d'\<rparr>"
proof -
  let ?s = "\<lambda>c d. \<lparr>sh_lock = None, sh_cache = c, sh_disk = d\<rparr>"
  have stat: "alone srt q StatOld (?s c d) ph s" if "alone srt q (MakeDir old) (?s c d1) ph s"
    "old_size (cache_path c (wq_key q)) d = (old, d1)" for old d1 ph s
    by (rule alone_step [OF _ that(1)]) (use that(2) in simp)
  have remove: "alone srt q (RemoveTemp t e) (?s c2 d2) (Written e) (?s c2 (remove_temp (Some t) d2))" for t e c2 d2
    by (rule alone_step [OF _ alone_refl]) (simp add: remove_temp_def)
  show ?thesis
    using assms(1)
  proof (cases rule: cache_write_cases)
    case (failed old d1 tmp e d2)
    show ?thesis
    proof (cases tmp)
      case None
      then show ?thesis
        using alone_store [OF failed(2) assms(2), of srt old] stat [OF _ failed(1)] failed(3-5) by (simp add: remove_temp_def)
    next
      case (Some t)
      then have "alone srt q (MakeDir old) (?s c d1) (RemoveTemp t (Some e)) (?s c d2)"
        using alone_store [OF failed(2) assms(2), of srt old] by simp
      then show ?thesis using stat [OF alone_trans [OF _ remove] failed(1)] failed(3-5) Some by simp
    qed
  next
    case (stored old d1 tmp d2 d3)
    obtain t where t: "tmp = Some t" "distinct (akeys (dk_files d2))"
      using stored(2) assms(3) old_size_effect [OF stored(1)] by (cases rule: store_file_cases) auto
    have "alone srt q (MakeDir old) (?s c d1) (if ca_cap c \<le> 0 then RemoveTemp t None else StatNew old t) (?s c d2)"
      using alone_store [OF stored(2) assms(2), of srt old] t(1) by simp
    from alone_trans [OF alone_trans [OF this alone_account [OF stored(3) t(2)]] remove]
    show ?thesis using stat [OF _ stored(1)] stored(4) t(1) by simp
  qed
qed

text \<open>A call of \<open>Write\<close> that runs alone, one system call after the other, does what the function
  \<open>cache_write\<close> computes: the same result, count and disk, on every branch and with every pattern of
  failures.  So what is proved of \<open>cache_write\<close> holds of the steps.\<close>

theorem lone_write_is_cache_write:
  assumes "cache_write srt c key out ferr d = ((r, c'), d')" "distinct (akeys (dk_files d))"
  shows "\<exists>n. cache_run srt (Begin (CallWrite \<lparr>wq_key = key, wq_parts = [out], wq_error = ferr\<rparr>) # replicate n (Step 0))
      (opened_cache c d) =
    Some ([Writing \<lparr>wq_key = key, wq_parts = [out], wq_error = ferr\<rparr> (Written r)], \<lparr>sh_lock = None, sh_cache = c', sh_disk = d'\<rparr>)"
  using write_alone [of srt c "\<lparr>wq_key = key, wq_parts = [out], wq_error = ferr\<rparr>" out d r c' d'] assms
  by (simp add: alone_def opened_cache_def)

section \<open>Eviction and temporary files\<close>

lemma os_effects_env:
  "os_remove p d = (r, d') \<Longrightarrow> same_env d d'" "os_create_temp p d = (r1, d') \<Longrightarrow> same_env d d'"
  "os_rename p q d = (r2, d') \<Longrightarrow> same_env d d'" "os_append p b d = (r3, d') \<Longrightarrow> same_env d d'"
  by (blast intro: os_remove_effect(1) os_create_temp_effect(2) os_rename_effect(2) contents_append(1))+

lemma routine_step_env:
  assumes "routine_step srt i r s = Some (r', s')"
  shows "same_env (sh_disk s) (sh_disk s')"
proof (cases r)
  case (Writing q ph)
  then obtain ph' where "write_step srt i q ph s = Some (ph', s')" using assms by auto
  note [simp] = contents_removed [OF prod.collapse [symmetric]] contents_closed
  then show ?thesis
    using \<open>write_step srt i q ph s = Some (ph', s')\<close>
    by (induction srt i q ph s rule: write_step.induct)
      (auto dest: quiet_calls(1-5) os_effects_env simp: Let_def split: prod.splits sum.splits option.splits if_splits)
next
  case (Reading k ph)
  then show ?thesis
    using assms contents_chtimes by (cases ph) (auto dest: quiet_calls(6) simp: Let_def split: prod.splits sum.splits)
next
  case (Asking k b)
  then show ?thesis using assms by (cases b) (auto dest: quiet_calls(9) split: prod.splits)
qed

lemma cache_run_env:
  assumes "cache_run srt es st = Some (rs, s)"
  shows "same_env (sh_disk (snd st)) (sh_disk s)"
proof -
  have "same_env (sh_disk (snd st)) (sh_disk (snd (rs, s)))"
  proof (rule cache_run_invariant [OF assms, of "\<lambda>x. same_env (sh_disk (snd st)) (sh_disk (snd x))"])
    show "same_env (sh_disk (snd st)) (sh_disk (snd x1))"
      if "same_env (sh_disk (snd st)) (sh_disk (snd x))" "cache_step srt e x = Some x1" for e x x1
      using that routine_step_env same_env_trans by (cases e; cases x) (fastforce split: if_splits option.splits)+
  qed simp
  then show ?thesis by simp
qed

text \<open>C19. Eviction walks over the temporary files of writes in progress as well.  When one goroutine is about to
  remove the temporary file that another one is about to rename, then, without any failing
  call, the other write fails because its file does not exist, and the count is lowered by
  the size of a file that was never added to it, while no stored file is removed.\<close>

theorem eviction_fails_write:
  assumes "i < length rs" "rs ! i = Writing q (RenameTemp old t)" "j < length rs" "rs ! j = Writing q' (RemoveFile t' (e # es))"
    and "ev_path e = t" "ca_cap (sh_cache s) < ca_size (sh_cache s)" "dk_file (sh_disk s) t \<noteq> None" "no_faults (sh_disk s)"
  shows "\<exists>rs' s'. cache_run srt [Step j, Step i, Step i] (rs, s) = Some (rs', s') \<and>
    rs' ! i = Writing q (Written (Some NotExist)) \<and>
    ca_size (sh_cache s') = ca_size (sh_cache s) - ev_size e \<and> dk_file (sh_disk s') = (dk_file (sh_disk s))(t := None)"
proof -
  let ?c = "(sh_cache s)\<lparr>ca_size := ca_size (sh_cache s) - ev_size e\<rparr>"
  have ij: "i \<noteq> j" using assms(2,4) by auto
  obtain r1 d1 where rm: "os_remove t (sh_disk s) = (r1, d1)" by force
  have r1: "r1 = Inr ()"
    using os_remove_ok [of "sh_disk s" t] assms(7,8) rm by (simp add: no_faults_def)
  note e1 = os_remove_effect [OF rm]
  have d1: "dk_file d1 = (dk_file (sh_disk s))(t := None)" "no_faults d1"
    using e1(1) e1(5) [OF assms(7) r1] assms(8) by (simp_all add: dk_file_def disk_simps no_faults_def same_env_def)
  define p where "p = cache_path ?c (wq_key q)"
  obtain r2 d2 where rn: "os_rename t p d1 = (r2, d2)" by force
  have r2: "r2 = Inl NotExist" using rn d1 by (auto simp: os_rename_def os_call_def no_faults_def)
  have d2: "dk_file d2 = dk_file d1" using os_rename_effect(3) [OF rn r2] by (simp add: dk_file_def)
  obtain r3 d3 where fin: "os_remove t d2 = (r3, d3)" by force
  have d3: "dk_file d3 = dk_file d2"
    using os_remove_effect(6) [OF fin] d1(1) d2 by (simp add: dk_file_def)
  let ?s1 = "s\<lparr>sh_disk := d1, sh_cache := ?c\<rparr>"
  let ?rs1 = "rs[j := Writing q' (PruneDir t' (path_dir t) es)]"
  have "cache_step srt (Step j) (rs, s) = Some (?rs1, ?s1)"
    using assms(3-6) rm r1 by simp
  moreover have "cache_step srt (Step i) (?rs1, ?s1) = Some (?rs1[i := Writing q (RemoveTemp t (Some NotExist))], ?s1\<lparr>sh_disk := d2\<rparr>)"
    using assms(1,2) ij rn r2 by (simp add: p_def)
  moreover have "cache_step srt (Step i) (?rs1[i := Writing q (RemoveTemp t (Some NotExist))], ?s1\<lparr>sh_disk := d2\<rparr>) =
      Some (?rs1[i := Writing q (Written (Some NotExist))], ?s1\<lparr>sh_disk := d3\<rparr>)"
    using assms(1) fin by simp
  ultimately show ?thesis using assms(1) d1(1) d2 d3 by simp
qed

section \<open>Witnesses\<close>

definition numbered_disk :: disk where
  "numbered_disk = \<lparr>dk_files = [], dk_dirs = [''/'', ''/c''], dk_calls = 0, dk_fault = (\<lambda>_. None), dk_time = int,
     dk_rand = (\<lambda>n. replicate n (CHR ''0'')), dk_short = (\<lambda>_. 0), dk_dir_size = 4096\<rparr>"

definition small_cache :: "int \<Rightarrow> cache" where
  "small_cache cap = \<lparr>ca_dir = ''/c'', ca_cap = cap, ca_size = 0\<rparr>"

definition put_value :: "string \<Rightarrow> bytes list \<Rightarrow> write_request" where
  "put_value k parts = \<lparr>wq_key = k, wq_parts = parts, wq_error = None\<rparr>"

text \<open>Two writes and a reader of one key, and two writes of which one evicts the temporary file of the other.\<close>

definition demo_race :: "bytes list \<Rightarrow> cache_event list" where
  "demo_race parts = [Begin (CallWrite (put_value ''k'' [''ab'', ''c''])), Begin (CallWrite (put_value ''k'' parts))] @
     concat (replicate 7 [Step 0, Step 1]) @ [Begin (CallOpen ''k''), Step 2, Step 0, Step 2, Step 1, Step 0]"

definition demo_eviction :: "cache_event list" where
  "demo_eviction = [Begin (CallWrite (put_value ''a'' [''12345''])), Begin (CallWrite (put_value ''b'' [''wxyz'']))] @
     replicate 6 (Step 0) @ replicate 14 (Step 1)"

lemma numbered_disk_names: "plain_rand numbered_disk" "inj (dk_rand numbered_disk)" "has_prefix (ca_dir (small_cache n)) ''/''"
  by (auto simp: plain_rand_def numbered_disk_def small_cache_def inj_def has_prefix_iff replicate_eq_replicate)

lemma demo_keys: "valid_key (ca_dir (small_cache n)) ''k''" "cache_path (small_cache n) ''k'' = ''/c/k''"
  by (simp_all add: small_cache_def valid_key_def cache_path_def) code_simp+

lemma demo_race_writes:
  "Begin (CallWrite q) \<in> set (demo_race parts) \<longleftrightarrow> q = put_value ''k'' [''ab'', ''c''] \<or> q = put_value ''k'' parts"
  by (auto simp: demo_race_def)

lemma demo_race_run:
  obtains s where "cache_run (insertion_sort ev_mtime) (demo_race [''xyz'']) (opened_cache (small_cache 0) numbered_disk) =
    Some ([Writing (put_value ''k'' [''ab'', ''c'']) (Written None), Writing (put_value ''k'' [''xyz'']) (Written None),
      Reading ''k'' (Opened (Inr (FileHandle ''xyz'')))], s)"
proof -
  have "map_option fst (cache_run (insertion_sort ev_mtime) (demo_race [''xyz'']) (opened_cache (small_cache 0) numbered_disk)) =
    Some [Writing (put_value ''k'' [''ab'', ''c'']) (Written None), Writing (put_value ''k'' [''xyz'']) (Written None),
      Reading ''k'' (Opened (Inr (FileHandle ''xyz'')))]" by code_simp
  then show thesis using that by (auto simp: map_option_case split: option.splits)
qed

theorem concurrent_values_whole_witness:
  "\<exists>rs s. cache_run (insertion_sort ev_mtime) (demo_race [''xyz'']) (opened_cache (small_cache 0) numbered_disk) = Some (rs, s) \<and>
     Reading ''k'' (Opened (Inr (FileHandle ''xyz''))) \<in> set rs \<and>
     (\<exists>q. Begin (CallWrite q) \<in> set (demo_race [''xyz'']) \<and> ''xyz'' = concat (wq_parts q))"
proof -
  obtain s where run: "cache_run (insertion_sort ev_mtime) (demo_race [''xyz'']) (opened_cache (small_cache 0) numbered_disk) =
    Some ([Writing (put_value ''k'' [''ab'', ''c'']) (Written None), Writing (put_value ''k'' [''xyz'']) (Written None),
      Reading ''k'' (Opened (Inr (FileHandle ''xyz'')))], s)" by (rule demo_race_run)
  have "contents numbered_disk p = None" for p by (simp add: contents_def dk_file_def numbered_disk_def)
  then show ?thesis
    using concurrent_values_whole [OF run numbered_disk_names(3,1,2) _ demo_keys(1), of "''xyz''"] run demo_keys(1)
    by (fastforce simp: demo_race_writes put_value_def)
qed

theorem concurrent_write_stays_witness:
  "\<exists>rs s. cache_run (insertion_sort ev_mtime) (demo_race [''abc'']) (opened_cache (small_cache 0) numbered_disk) = Some (rs, s) \<and>
     Writing (put_value ''k'' [''abc'']) (Written None) \<in> set rs \<and> contents (sh_disk s) ''/c/k'' = Some ''abc''"
proof -
  have "map_option fst (cache_run (insertion_sort ev_mtime) (demo_race [''abc'']) (opened_cache (small_cache 0) numbered_disk)) =
    Some [Writing (put_value ''k'' [''ab'', ''c'']) (Written None), Writing (put_value ''k'' [''abc'']) (Written None),
      Reading ''k'' (Opened (Inr (FileHandle ''abc'')))]" by code_simp
  then obtain rs s where run: "cache_run (insertion_sort ev_mtime) (demo_race [''abc'']) (opened_cache (small_cache 0) numbered_disk) = Some (rs, s)"
    "Writing (put_value ''k'' [''abc'']) (Written None) \<in> set rs"
    by (auto simp: map_option_case split: option.splits)
  have key: "wq_key (put_value ''k'' parts) = ''k''" "wq_parts (put_value ''k'' parts) = parts" for parts
    by (simp_all add: put_value_def)
  have "valid_key (ca_dir (small_cache 0)) (wq_key q') \<and> (cache_path (small_cache 0) (wq_key q') =
      cache_path (small_cache 0) (wq_key (put_value ''k'' [''abc''])) \<longrightarrow> wq_error q' = None \<longrightarrow> concat (wq_parts q') = ''abc'')"
    if "Begin (CallWrite q') \<in> set (demo_race [''abc''])" for q'
    using that demo_keys(1) by (auto simp: demo_race_writes key)
  then have "contents (sh_disk s) ''/c/k'' = Some ''abc''"
    using concurrent_write_stays [OF run(1) numbered_disk_names(3,1,2) _ run(2), of "''abc''"]
    by (simp add: key demo_keys) (simp add: small_cache_def)
  then show ?thesis using run by blast
qed

theorem cache_calls_return_witness:
  "\<exists>rs s. cache_run (insertion_sort ev_mtime) (demo_race [''xyz'']) (opened_cache (small_cache 0) numbered_disk) = Some (rs, s) \<and>
     length rs = 3 \<and> list_all returned rs"
proof -
  obtain s where run: "cache_run (insertion_sort ev_mtime) (demo_race [''xyz'']) (opened_cache (small_cache 0) numbered_disk) =
    Some ([Writing (put_value ''k'' [''ab'', ''c'']) (Written None), Writing (put_value ''k'' [''xyz'']) (Written None),
      Reading ''k'' (Opened (Inr (FileHandle ''xyz'')))], s)" by (rule demo_race_run)
  show ?thesis
    using cache_calls_return [OF run] run by (auto simp: less_Suc_eq numeral_3_eq_3 nth_Cons split: nat.splits)
qed

theorem lone_write_is_cache_write_witness:
  "\<exists>r c' d' n. cache_write (insertion_sort ev_mtime) (demo_cache 6) ''k/v'' ''xyz'' None (demo_disk rename_fails) = ((r, c'), d') \<and>
     cache_run (insertion_sort ev_mtime)
       (Begin (CallWrite \<lparr>wq_key = ''k/v'', wq_parts = [''xyz''], wq_error = None\<rparr>) # replicate n (Step 0))
       (opened_cache (demo_cache 6) (demo_disk rename_fails)) =
     Some ([Writing \<lparr>wq_key = ''k/v'', wq_parts = [''xyz''], wq_error = None\<rparr> (Written r)],
       \<lparr>sh_lock = None, sh_cache = c', sh_disk = d'\<rparr>)"
proof -
  obtain r c' d' where w: "cache_write (insertion_sort ev_mtime) (demo_cache 6) ''k/v'' ''xyz'' None (demo_disk rename_fails) = ((r, c'), d')"
    by (metis surj_pair)
  have "distinct (akeys (dk_files (demo_disk rename_fails)))" by (simp add: demo_disk_def akeys_def)
  from lone_write_is_cache_write [OF w this] w show ?thesis by blast
qed

theorem eviction_fails_write_witness:
  "\<exists>rs s. cache_run (insertion_sort ev_mtime) (demo_eviction @ [Step 1, Step 0, Step 0])
       (opened_cache (small_cache 3) numbered_disk) = Some (rs, s) \<and>
     rs ! 0 = Writing (put_value ''a'' [''12345'']) (Written (Some NotExist)) \<and> ca_size (sh_cache s) = - 1 \<and>
     contents (sh_disk s) ''/c/b'' = Some ''wxyz''"
proof -
  let ?run = "cache_run (insertion_sort ev_mtime) demo_eviction (opened_cache (small_cache 3) numbered_disk)"
  let ?q = "put_value ''a'' [''12345'']"
  let ?e = "\<lparr>ev_path = ''/c/.tmp-00'', ev_size = 5, ev_mtime = 3\<rparr>"
  have eval: "case ?run of None \<Rightarrow> False | Some (rs, s) \<Rightarrow> length rs = 2 \<and> rs ! 0 = Writing ?q (RenameTemp 0 ''/c/.tmp-00'') \<and>
      rs ! 1 = Writing (put_value ''b'' [''wxyz'']) (RemoveFile ''/c/.tmp-0000000''
        [?e, \<lparr>ev_path = ''/c/b'', ev_size = 4, ev_mtime = 8\<rparr>]) \<and>
      ca_size (sh_cache s) = 4 \<and> ca_cap (sh_cache s) = 3 \<and> contents (sh_disk s) ''/c/.tmp-00'' = Some ''12345'' \<and>
      contents (sh_disk s) ''/c/b'' = Some ''wxyz''" by code_simp
  then obtain rs s where run: "?run = Some (rs, s)" by (cases ?run) auto
  from eval [unfolded run]
  have rs: "0 < length rs" "rs ! 0 = Writing ?q (RenameTemp 0 ''/c/.tmp-00'')" "1 < length rs"
      "rs ! 1 = Writing (put_value ''b'' [''wxyz'']) (RemoveFile ''/c/.tmp-0000000'' [?e, \<lparr>ev_path = ''/c/b'', ev_size = 4, ev_mtime = 8\<rparr>])"
    and s: "ca_size (sh_cache s) = 4" "ca_cap (sh_cache s) < ca_size (sh_cache s)" "contents (sh_disk s) ''/c/.tmp-00'' = Some ''12345''"
      "contents (sh_disk s) ''/c/b'' = Some ''wxyz''" by simp_all
  have e: "ev_path ?e = ''/c/.tmp-00''" "ev_size ?e = 5" by simp_all
  have there: "dk_file (sh_disk s) ''/c/.tmp-00'' \<noteq> None" using s(3) by (auto simp: contents_def)
  have "no_faults (sh_disk s)"
    using cache_run_env [OF run] by (simp add: no_faults_def same_env_def opened_cache_def numbered_disk_def)
  from eviction_fails_write [OF rs e(1) s(2) there this, of "insertion_sort ev_mtime"]
  obtain rs' s' where end_run: "cache_run (insertion_sort ev_mtime) [Step 1, Step 0, Step 0] (rs, s) = Some (rs', s')"
    "rs' ! 0 = Writing ?q (Written (Some NotExist))" "ca_size (sh_cache s') = ca_size (sh_cache s) - ev_size ?e"
    "dk_file (sh_disk s') = (dk_file (sh_disk s))(''/c/.tmp-00'' := None)" by blast
  then have "cache_run (insertion_sort ev_mtime) (demo_eviction @ [Step 1, Step 0, Step 0])
      (opened_cache (small_cache 3) numbered_disk) = Some (rs', s')"
    using run by (simp only: cache_run_append option.case)
  moreover have "contents (sh_disk s') ''/c/b'' = Some ''wxyz''" using s(4) end_run(4) by (simp add: contents_def)
  ultimately show ?thesis using end_run(2,3) s(1) e(2) by auto
qed

end
