(* ===== verification/Restart.thy ===== *)
theory Restart
  imports Process Startup_Props Disk_Runs
begin

text \<open>
  The cache directory over the life of many processes: what one leaves behind is what the next one
  finds.  Together with Process this makes no assumption on the disk but that it was genuine once,
  for example empty.
\<close>

section \<open>Genuine disks\<close>

text \<open>Every file that a key of the cache leads to is a genuine entry.\<close>

definition genuine_disk :: "(string \<Rightarrow> bytes) \<Rightarrow> ('l, 'z, 'f, 'w) targz \<Rightarrow> path \<Rightarrow> disk \<Rightarrow> bool" where
  "genuine_disk content tz dir d \<longleftrightarrow> plain_rand d \<and>
     (\<forall>k f. valid_key dir k \<longrightarrow> dk_file d (path_join [dir, k]) = Some f \<longrightarrow>
        genuine content dir k (f_bytes f) \<and> index_genuine tz dir k (f_bytes f))"

lemma empty_disk_genuine: "dk_files d = [] \<Longrightarrow> plain_rand d \<Longrightarrow> genuine_disk content tz dir d"
  by (simp add: genuine_disk_def dk_file_def)

lemma genuine_disk_less:
  "genuine_disk content tz dir d \<Longrightarrow> dk_file d' \<subseteq>\<^sub>m dk_file d \<Longrightarrow> plain_rand d' \<Longrightarrow> genuine_disk content tz dir d'"
  unfolding genuine_disk_def by (metis domI map_le_def)

lemma process_ok_disk:
  assumes "process_ok content tz dir st"
  shows "genuine_disk content tz dir (oc_disk st)"
proof -
  obtain c where c: "transport_ok content dir (c, oc_disk st)" "index_ok tz dir (c, oc_disk st)"
    using assms by (auto simp: process_ok_def)
  then have inv: "disk_inv dir (c, oc_disk st)" "disk.coherent dir (genuine content dir) (c, oc_disk st)"
    "disk.coherent dir (index_genuine tz dir) (c, oc_disk st)"
    by (simp_all add: transport_ok_def index_ok_def)
  have "disk_lookup (c, oc_disk st) k = map_option f_bytes (dk_file (oc_disk st) (path_join [dir, k]))" for k
    using inv(1) by (simp add: disk_lookup_def cache_path_def disk_inv_def)
  then show ?thesis
    using inv by (simp add: genuine_disk_def disk.coherent_def disk_inv_def)
qed

text \<open>What the process has shared when \<open>run\<close> reaches the mount: the cache that \<open>SetCache\<close> was given.\<close>

definition started_state :: "'f started \<Rightarrow> disk \<Rightarrow> 'w \<Rightarrow> 'w oci_state" where
  "started_state st d w = set_cache (ix_cache (st_indexer st)) \<lparr>oc_cache = None, oc_disk = d, oc_world = w\<rparr>"

lemma started_process_ok:
  assumes "genuine_disk content tz (ca_dir (ix_cache (st_indexer st))) d" "has_prefix (ca_dir (ix_cache (st_indexer st))) ''/''"
  shows "process_ok content tz (ca_dir (ix_cache (st_indexer st))) (started_state st d w)"
proof -
  let ?c = "ix_cache (st_indexer st)"
  have "disk_inv (ca_dir ?c) (?c, d)" using assms by (simp add: disk_inv_def genuine_disk_def)
  then show ?thesis
    using assms(1)
    by (auto simp: process_ok_def transport_ok_def index_ok_def started_state_def set_cache_def disk.coherent_def
        genuine_disk_def disk_lookup_def cache_path_def)
qed

text \<open>Starting a process changes no file.\<close>

lemma os_walk_files:
  assumes "os_walk dir d = (rs, d')"
  shows "dk_files d' = dk_files d \<and> same_env d d'"
proof -
  obtain r d1 where call: "os_call d = (r, d1)" by force
  note c = os_call_effect [OF call]
  show ?thesis
    using assms call c walk_files_effect [of dir "dk_files d1" d1 rs d']
    by (auto simp: os_walk_def intro: same_env_trans split: option.splits)
qed

lemma new_cache_files:
  assumes "new_cache dir m d = (r, d')"
  shows "dk_files d' = dk_files d \<and> dk_rand d' = dk_rand d"
proof -
  obtain q d1 where mk: "os_mkdir_all dir d = (q, d1)" by force
  obtain rs d2 where wk: "os_walk dir d1 = (rs, d2)" by force
  have "d' = d1 \<or> d' = d2"
    using assms mk wk by (auto simp: new_cache_def rescan_def Let_def split: sum.splits if_splits)
  then show ?thesis using os_mkdir_all_effect [OF mk] os_walk_files [OF wk] by (auto simp: same_env_def)
qed

lemma run_files:
  assumes "run en d = (r, d')"
  shows "dk_file d' = dk_file d \<and> plain_rand d' = plain_rand d"
proof -
  have "d' = d \<or> (\<exists>dir m q. new_cache dir m d = (q, d'))"
    using assms by (auto simp: run_def split: if_splits sum.splits prod.splits)
  then show ?thesis using new_cache_files by (auto simp: dk_file_def plain_rand_def)
qed

section \<open>Writes in progress\<close>

text \<open>The calls of \<open>Write\<close> that the program makes, with the pieces that their callbacks write: responses of the
  registry (\<open>storeCached\<close>) and the two indexes of a layer (\<open>Open\<close>).\<close>

definition response_write :: "string \<Rightarrow> string \<Rightarrow> bytes \<Rightarrow> write_request" where
  "response_write key ct body = \<lparr>wq_key = key, wq_parts = [ct, blank_line, body], wq_error = None\<rparr>"

definition toc_write :: "hash \<Rightarrow> bytes \<Rightarrow> write_request" where
  "toc_write h toc = \<lparr>wq_key = toc_key h, wq_parts = [toc], wq_error = None\<rparr>"

definition gsip_write :: "hash \<Rightarrow> bytes list \<Rightarrow> string option \<Rightarrow> write_request" where
  "gsip_write h parts err = \<lparr>wq_key = gsip_key h, wq_parts = parts, wq_error = map_option OSError err\<rparr>"

text \<open>\<open>RoundTrip\<close> stores the body of a complete answer with status 200 and a content type it caches, to a
  request that it looks up; \<open>Open\<close> stores what it gets from scanning a layer of a manifest through the reader
  at its blob URL.\<close>

inductive program_write :: "('a, 'i, 'l, 'z, 'f, 'w) packages \<Rightarrow> write_request \<Rightarrow> bool"
  for pk :: "('a, 'i, 'l, 'z, 'f, 'w) packages" where
  response: "rq_method req = ''GET'' \<Longrightarrow> rq_range req = [] \<Longrightarrow> digest_path_re (rq_path req) \<Longrightarrow>
    rg_default (pk_client pk) req w = (Inr resp, w') \<Longrightarrow> rs_status_code resp = 200 \<Longrightarrow>
    ct = header_get (rs_header resp) ''Content-Type'' \<Longrightarrow> cacheable_content_type ct \<Longrightarrow> rs_body_error resp = None \<Longrightarrow>
    program_write pk (response_write (response_key (rq_path req)) ct (rs_body resp))"
| toc: "rg_layers (pk_client pk) i = Inr ls \<Longrightarrow> l \<in> set ls \<Longrightarrow>
    tz_digest (pk_targz pk) l = Inr h \<Longrightarrow> tz_size (pk_targz pk) l = Inr sz \<Longrightarrow>
    tz_new_reader (pk_targz pk) (layer_reader (pk_targz pk) chunks (blob_url ref h) h sz) sz w = (Inr z0, w1) \<Longrightarrow>
    tz_index (pk_targz pk) z0 w1 = (Inr es, z, w2) \<Longrightarrow> tz_encode_toc (pk_targz pk) es = Inr t \<Longrightarrow>
    program_write pk (toc_write h t)"
| gsip: "rg_layers (pk_client pk) i = Inr ls \<Longrightarrow> l \<in> set ls \<Longrightarrow>
    tz_digest (pk_targz pk) l = Inr h \<Longrightarrow> tz_size (pk_targz pk) l = Inr sz \<Longrightarrow>
    tz_new_reader (pk_targz pk) (layer_reader (pk_targz pk) chunks (blob_url ref h) h sz) sz w = (Inr z0, w1) \<Longrightarrow>
    tz_index (pk_targz pk) z0 w1 = (Inr es, z, w2) \<Longrightarrow> tz_encode (pk_targz pk) z = (concat parts, err) \<Longrightarrow>
    program_write pk (gsip_write h parts err)"

lemma layer_digest_wf:
  assumes "published pk parse single content archive" "rg_layers (pk_client pk) i = Inr ls" "l \<in> set ls"
    "tz_digest (pk_targz pk) l = Inr h"
  shows "hash_wf h"
proof -
  obtain h' where "tz_digest (pk_targz pk) l = Inr h'" "hash_wf h'"
    using publishedD(6) [OF assms(1-3)] by blast
  then show ?thesis using assms(4) by simp
qed

lemma program_write_ok:
  assumes "program_write pk q" "published pk parse single content archive" "has_prefix dir ''/''"
  shows "valid_key dir (wq_key q)"
    "wq_error q = None \<Longrightarrow> genuine content dir (wq_key q) (concat (wq_parts q)) \<and>
       index_genuine (pk_targz pk) dir (wq_key q) (concat (wq_parts q))"
proof -
  let ?tz = "pk_targz pk"
  have "valid_key dir (wq_key q) \<and> (wq_error q = None \<longrightarrow> genuine content dir (wq_key q) (concat (wq_parts q)) \<and>
       index_genuine ?tz dir (wq_key q) (concat (wq_parts q)))"
    using assms(1)
  proof cases
    case (response req w resp w' ct)
    have body: "CHR 0x0A \<notin> set ct" "rs_body resp = content (digest_of (rq_path req))"
      using publishedD(2) [OF assms(2)] response unfolding serves_def by blast+
    have "genuine content dir (response_key (rq_path req)) (encode_entry ct (content (digest_of (rq_path req))))"
      by (rule response_genuine [OF response(4) body(1) assms(3)])
    then show ?thesis
      using registry_key(2) [OF response(4) assms(3)] registry_not_index [OF assms(3) response(4)] response(1) body(2)
      by (simp add: response_write_def encode_entry_def)
  next
    case (toc i ls l h sz chunks ref w z0 w1 es z w2 t)
    have h: "hash_wf h" by (rule layer_digest_wf [OF assms(2) toc(2-4)])
    have "toc_file ?tz h t" using scannedI [OF toc(4-7)] toc(8) by (auto simp: toc_file_def)
    then show ?thesis
      using valid_index_key(2) [OF assms(3)] index_not_registry(2) [OF assms(3)] index_genuine_keys(2) [OF assms(3) h, of ?tz t]
      by (simp add: toc(1) toc_write_def)
  next
    case (gsip i ls l h sz chunks ref w z0 w1 es z w2 parts err)
    have h: "hash_wf h" by (rule layer_digest_wf [OF assms(2) gsip(2-4)])
    have "err = None \<Longrightarrow> gsip_file ?tz h (concat parts)" using scannedI [OF gsip(4-7)] gsip(8) by (auto simp: gsip_file_def)
    then show ?thesis
      using valid_index_key(1) [OF assms(3)] index_not_registry(1) [OF assms(3)]
        index_genuine_keys(1) [OF assms(3) h, of ?tz "concat parts"]
      by (auto simp: gsip(1) gsip_write_def)
  qed
  then show "valid_key dir (wq_key q)"
    "wq_error q = None \<Longrightarrow> genuine content dir (wq_key q) (concat (wq_parts q)) \<and>
       index_genuine ?tz dir (wq_key q) (concat (wq_parts q))" by blast+
qed

text \<open>Any interleaving of such writes and of reads, cut off anywhere, leaves a genuine disk.\<close>

lemma cache_run_genuine:
  assumes "cache_run srt es (opened_cache c d) = Some (rs, s)" "genuine_disk content (pk_targz pk) dir d"
    and "ca_dir c = dir" "has_prefix dir ''/''" "inj (dk_rand d)"
    and "\<And>q. Begin (CallWrite q) \<in> set es \<Longrightarrow> program_write pk q" "published pk parse single content archive"
  shows "genuine_disk content (pk_targz pk) dir (sh_disk s)"
proof -
  let ?tz = "pk_targz pk"
  define G where "G p x \<longleftrightarrow> (\<forall>k. valid_key dir k \<longrightarrow> path_join [dir, k] = p \<longrightarrow>
    genuine content dir k x \<and> index_genuine ?tz dir k x)" for p x
  have disk: "genuine_disk content ?tz dir d' \<longleftrightarrow> plain_rand d' \<and> values_ok G (contents d')" for d'
    unfolding genuine_disk_def values_ok_def G_def contents_def valid_key_path by auto
  have addr: "genuine content dir k x \<and> index_genuine ?tz dir k x \<longleftrightarrow> genuine content dir k' x \<and> index_genuine ?tz dir k' x"
    if "path_join [dir, k] = path_join [dir, k']" for k k' x
    using that by (simp add: genuine_def index_genuine_def)
  have "request_ok G dir q" if "Begin (CallWrite q) \<in> set es" for q
    unfolding request_ok_def G_def using program_write_ok [OF assms(6) [OF that] assms(7,4)] addr [of _ "wq_key q"] by blast
  moreover have "run_ok G dir (opened_cache c d)"
    using opened_cache_ok [of c d G] assms(2-5) disk by simp
  ultimately have "run_ok G dir (rs, s)" using cache_run_ok [OF assms(1)] by blast
  then show ?thesis unfolding disk by (simp add: run_ok_def env_ok_def)
qed

section \<open>Many processes\<close>

text \<open>What happens to a disk: processes that fail to start, processes that serve for a while from the
  cache directory, in any environment and with any failing calls, processes that are killed while any number of
  calls of the cache are under way, and between them the removal of files.\<close>

inductive history ::
  "(string \<Rightarrow> string + reference) \<Rightarrow> (string \<Rightarrow> string + platform) \<Rightarrow> ('a, 'i, 'l, 'z, 'f, 'w) packages \<Rightarrow> path \<Rightarrow>
   disk \<Rightarrow> disk \<Rightarrow> bool"
  for pr pp and pk :: "('a, 'i, 'l, 'z, 'f, 'w) packages" and dir d0 where
  installed: "history pr pp pk dir d0 d0"
| removed: "history pr pp pk dir d0 d \<Longrightarrow> dk_file d' \<subseteq>\<^sub>m dk_file d \<Longrightarrow> plain_rand d' \<Longrightarrow> history pr pp pk dir d0 d'"
| failed: "history pr pp pk dir d0 d \<Longrightarrow> (run en d :: (start_error + 'f started) \<times> disk) = (Inl e, d') \<Longrightarrow>
    history pr pp pk dir d0 d'"
| served: "history pr pp pk dir d0 d \<Longrightarrow> run en d = (Inr started, d1) \<Longrightarrow>
    ca_dir (ix_cache (st_indexer started)) = dir \<Longrightarrow>
    session pr pp (process_services pk True) (st_fs started) (started_state started d1 w) f st \<Longrightarrow>
    history pr pp pk dir d0 (oc_disk st)"
| killed: "history pr pp pk dir d0 d \<Longrightarrow> run en d = (Inr started, d1) \<Longrightarrow>
    ca_dir (ix_cache (st_indexer started)) = dir \<Longrightarrow>
    session pr pp (process_services pk True) (st_fs started) (started_state started d1 w) f st \<Longrightarrow>
    oc_cache st = Some c \<Longrightarrow> inj (dk_rand (oc_disk st)) \<Longrightarrow>
    (\<And>q. Begin (CallWrite q) \<in> set es \<Longrightarrow> program_write pk q) \<Longrightarrow>
    cache_run (pk_evict_sort pk) es (opened_cache c (oc_disk st)) = Some (rs, s) \<Longrightarrow>
    history pr pp pk dir d0 (sh_disk s)"

lemma run_fresh_images: "run en d = (Inr st, d1) \<Longrightarrow> fs_images (st_fs st) = Map.empty"
  by (auto simp: run_def split: if_splits sum.splits prod.splits)

lemma served_process_ok:
  assumes "run en d = (Inr started, d1)" "ca_dir (ix_cache (st_indexer started)) = dir"
    and "session pr pp (process_services pk True) (st_fs started) (started_state started d1 w) f st"
    and "genuine_disk content (pk_targz pk) dir d" "published pk parse single content archive" "names_ok pr"
    and "has_prefix dir ''/''"
  shows "process_ok content (pk_targz pk) dir st"
proof -
  have "genuine_disk content (pk_targz pk) dir d1"
    using assms(4) run_files [OF assms(1)] by (metis genuine_disk_less map_le_refl genuine_disk_def)
  then have "process_ok content (pk_targz pk) dir (started_state started d1 w)"
    using started_process_ok [of content "pk_targz pk" started d1 w] assms(2,7) by simp
  moreover have "images_of pk parse content archive (st_fs started)"
    using run_fresh_images [OF assms(1)] by (simp add: images_of_def)
  ultimately show ?thesis using session_ok [OF assms(3,5,6)] by blast
qed

lemma history_genuine:
  assumes "history pr pp pk dir d0 d" "published pk parse single content archive" "names_ok pr"
    and "genuine_disk content (pk_targz pk) dir d0" "has_prefix dir ''/''"
  shows "genuine_disk content (pk_targz pk) dir d"
  using assms(1)
proof induction
  case installed
  show ?case by (rule assms(4))
next
  case (removed d d')
  then show ?case using genuine_disk_less by blast
next
  case (failed d en e d')
  then show ?case using run_files by (metis genuine_disk_less map_le_refl genuine_disk_def)
next
  case (served d en started d1 w f st)
  show ?case
    by (rule process_ok_disk [OF served_process_ok [OF served.hyps(2-4) served.IH assms(2,3,5)]])
next
  case (killed d en started d1 w f st c es rs s)
  have ok: "process_ok content (pk_targz pk) dir st"
    by (rule served_process_ok [OF killed.hyps(2-4) killed.IH assms(2,3,5)])
  then have "ca_dir c = dir" using killed.hyps(5) by (simp add: process_ok_def index_ok_def disk_inv_def)
  then show ?case
    using cache_run_genuine [OF killed.hyps(8) process_ok_disk [OF ok] _ assms(5) killed.hyps(6) killed.hyps(7) assms(2)] by blast
qed

text \<open>C3. The cache directory survives.  Let the registry serve content by digest at all times (\<open>published\<close>)
  and start from a disk that is genuine, an empty one for example; after any number of
  processes, each with its configuration, its lookups and its failures, and each of them ended or killed while calls of the
  cache were under way, with files removed in between, a process that starts on the directory finds a genuine cache and an empty image map,
  which is all that the mount needs to show what the registry publishes.  The writes under way are those of the program: of answers
  to digest requests, and of the indexes that a scan at a blob URL gives.\<close>

theorem restarts_stay_genuine:
  assumes "published pk parse single content archive" "names_ok pr" "has_prefix dir ''/''"
    and "genuine_disk content (pk_targz pk) dir d0" "history pr pp pk dir d0 d"
    and "run en d = (Inr st, d1)" "ca_dir (ix_cache (st_indexer st)) = dir"
  shows "process_ok content (pk_targz pk) dir (started_state st d1 w) \<and> fs_images (st_fs st) = Map.empty"
proof -
  have "genuine_disk content (pk_targz pk) dir d" using history_genuine assms(1-5) by blast
  then have "genuine_disk content (pk_targz pk) dir d1"
    using run_files [OF assms(6)] by (metis genuine_disk_less map_le_refl genuine_disk_def)
  then show ?thesis
    using started_process_ok [of content "pk_targz pk" st d1 w] run_fresh_images [OF assms(6)] assms(3,7) by simp
qed

section \<open>Witness\<close>

text \<open>A process on an empty disk that is killed while it stores a manifest: a part of the entry stays in a
  temporary file, and the next process starts.\<close>

definition killed_write :: write_request where
  "killed_write = response_write (response_key demo_repo_path) ''application/vnd.oci.image.manifest.v1+json'' (digest_of demo_repo_path)"

definition killed_events :: "cache_event list" where
  "killed_events = Begin (CallWrite killed_write) # replicate 4 (Step 0)"

lemma killed_run:
  obtains c d1 rs s c2 d2 where "new_cache ''/c'' 2048 numbered_disk = (Inr c, d1)"
    "cache_run (insertion_sort ev_mtime) killed_events (opened_cache c d1) = Some (rs, s)"
    "contents (sh_disk s) ''/c/registry/v2/library/alpine/manifests/.tmp-0000'' = Some ''application/vnd.oci.image.manifest.v1+json''"
    "new_cache ''/c'' 2048 (sh_disk s) = (Inr c2, d2)"
proof -
  let ?n = "new_cache ''/c'' 2048 numbered_disk"
  let ?run = "cache_run (insertion_sort ev_mtime) killed_events (opened_cache (projr (fst ?n)) (snd ?n))"
  have "\<not> isl (fst ?n) \<and> (case ?run of None \<Rightarrow> False | Some (rs, s) \<Rightarrow>
      contents (sh_disk s) ''/c/registry/v2/library/alpine/manifests/.tmp-0000'' = Some ''application/vnd.oci.image.manifest.v1+json'' \<and>
      \<not> isl (fst (new_cache ''/c'' 2048 (sh_disk s))))" by code_simp
  then obtain rs s where n: "\<not> isl (fst ?n)" and run: "?run = Some (rs, s)" and left: "contents (sh_disk s)
      ''/c/registry/v2/library/alpine/manifests/.tmp-0000'' = Some ''application/vnd.oci.image.manifest.v1+json''"
    and n2: "\<not> isl (fst (new_cache ''/c'' 2048 (sh_disk s)))"
    by (auto split: option.splits)
  obtain c d1 where c: "?n = (Inr c, d1)" using n by (metis not_isl_Inr prod.collapse)
  obtain c2 d2 where c2: "new_cache ''/c'' 2048 (sh_disk s) = (Inr c2, d2)" using n2 by (metis not_isl_Inr prod.collapse)
  show thesis using that [OF c _ left c2, of rs] run c by simp
qed

theorem restarts_stay_genuine_witness:
  "\<exists>d d1 (st :: bytes started). history digest_parser (\<lambda>_. Inl ''none'') demo_packages ''/c'' numbered_disk d \<and>
     contents d ''/c/registry/v2/library/alpine/manifests/.tmp-0000'' = Some ''application/vnd.oci.image.manifest.v1+json'' \<and>
     run demo_environment d = (Inr st, d1) \<and> process_ok (\<lambda>d. d) one_layer ''/c'' (started_state st d1 (0 :: nat))"
proof -
  obtain c d1 rs s c2 d2 where killed: "new_cache ''/c'' 2048 numbered_disk = (Inr c, d1)"
    "cache_run (insertion_sort ev_mtime) killed_events (opened_cache c d1) = Some (rs, s)"
    "contents (sh_disk s) ''/c/registry/v2/library/alpine/manifests/.tmp-0000'' = Some ''application/vnd.oci.image.manifest.v1+json''"
    "new_cache ''/c'' 2048 (sh_disk s) = (Inr c2, d2)" by (rule killed_run)
  obtain st :: "bytes started" where st: "run demo_environment numbered_disk = (Inr st, d1)" "ix_cache (st_indexer st) = c"
    using started_on [OF killed(1)] by metis
  obtain st2 :: "bytes started" where st2: "run demo_environment (sh_disk s) = (Inr st2, d2)" "ix_cache (st_indexer st2) = c2"
    using started_on [OF killed(4)] by metis
  have dirs: "ca_dir (ix_cache (st_indexer st)) = ''/c''" "ca_dir (ix_cache (st_indexer st2)) = ''/c''"
    using new_cache_exact(1) killed(1,4) st(2) st2(2) by metis+
  have state: "oc_cache (started_state st d1 (0 :: nat)) = Some c" "oc_disk (started_state st d1 (0 :: nat)) = d1"
    by (simp_all add: started_state_def set_cache_def st(2))
  have inj: "inj (dk_rand (oc_disk (started_state st d1 (0 :: nat))))"
    using new_cache_files [OF killed(1)] numbered_disk_names(2) by (simp add: state)
  have writes: "program_write demo_packages q" if "Begin (CallWrite q) \<in> set killed_events" for q
  proof -
    let ?req = "\<lparr>rq_method = ''GET'', rq_host = ''index.docker.io'', rq_range = [], rq_path = demo_repo_path\<rparr>"
    have "digest_path_re demo_repo_path" using demo_path_re by (simp add: demo_request_def)
    moreover have "cacheable_content_type ''application/vnd.oci.image.manifest.v1+json''" by code_simp
    moreover have "\<exists>resp w'. rg_default (pk_client demo_packages) ?req 0 = (Inr resp, w') \<and> rs_status_code resp = 200 \<and>
        ''application/vnd.oci.image.manifest.v1+json'' = header_get (rs_header resp) ''Content-Type'' \<and>
        rs_body_error resp = None \<and> rs_body resp = digest_of demo_repo_path"
      by (simp add: demo_packages_def demo_client_def echo_registry_def header_get_def)
    ultimately have "program_write demo_packages (response_write (response_key (rq_path ?req))
        ''application/vnd.oci.image.manifest.v1+json'' (digest_of demo_repo_path))"
      using program_write.response [of ?req demo_packages 0] by force
    then show ?thesis using that by (simp add: killed_events_def killed_write_def)
  qed
  have cut: "cache_run (pk_evict_sort demo_packages) killed_events (opened_cache c (oc_disk (started_state st d1 (0 :: nat)))) = Some (rs, s)"
    using killed(2) by (simp add: state demo_packages_def)
  have "history digest_parser (\<lambda>_. Inl ''none'') demo_packages ''/c'' numbered_disk (sh_disk s)"
    by (rule history.killed [OF history.installed st(1) dirs(1) session.begins state(1) inj writes cut])
  moreover have "genuine_disk (\<lambda>d. d) (pk_targz demo_packages) ''/c'' numbered_disk"
    using numbered_disk_names(1) by (intro empty_disk_genuine) (simp_all add: numbered_disk_def)
  moreover have "names_ok digest_parser" using demo_context_path by (simp add: names_ok_def digest_parser_def)
  moreover have "has_prefix ''/c'' ''/''" "pk_targz demo_packages = one_layer" by (simp_all add: has_prefix_iff demo_packages_def)
  ultimately have "process_ok (\<lambda>d. d) one_layer ''/c'' (started_state st2 d2 (0 :: nat))"
    using restarts_stay_genuine [OF demo_published _ _ _ _ st2(1) dirs(2)] by metis
  with \<open>history digest_parser _ _ _ _ _\<close> show ?thesis using killed(3) st2(1) by blast
qed

end
