(* ===== verification/Serve.thy ===== *)
theory Serve
  imports Startup
begin

text \<open>
  The life of the process after \<open>run\<close> has built its caches (\<open>cmd/ocifuse/main.go\<close>,
  \<open>mount.go: Filesystem.Mount\<close>): mounting, the goroutine that unmounts at a signal, the wait for the
  server, and the exit code.  What go-fuse does in \<open>Mount\<close> and \<open>Unmount\<close> is not part of the program:
  both may fail, and the file system may also be unmounted from outside.
\<close>

section \<open>Mounting\<close>

text \<open>The node that is the root of the mount, and the call into go-fuse.  A nil image map is the empty
  map here, so there is nothing to make.\<close>

definition Mount ::
  "(string \<Rightarrow> 'f filesystem \<Rightarrow> mount_options \<Rightarrow> 'k \<Rightarrow> string option \<times> 'k) \<Rightarrow> 'f filesystem \<Rightarrow> string \<Rightarrow> bool \<Rightarrow> 'k \<Rightarrow>
   string option \<times> 'k" where
  "Mount gofs_mount f mountpoint debug k = gofs_mount mountpoint f (mount_opts debug) k"

datatype run_error = StartError start_error | MountError string

definition run_mount ::
  "(string \<Rightarrow> 'f filesystem \<Rightarrow> mount_options \<Rightarrow> 'k \<Rightarrow> string option \<times> 'k) \<Rightarrow> environment \<Rightarrow> disk \<Rightarrow> 'k \<Rightarrow>
   (run_error + 'f started) \<times> disk \<times> 'k" where
  "run_mount gofs_mount en d k =
     (case run en d of
        (Inl e, d1) \<Rightarrow> (Inl (StartError e), d1, k)
      | (Inr st, d1) \<Rightarrow>
          (case Mount gofs_mount (st_fs st) (st_mountpoint st) (mo_debug (st_options st)) k of
             (Some e, k1) \<Rightarrow> (Inl (MountError e), d1, k1)
           | (None, k1) \<Rightarrow> (Inr st, d1, k1)))"

section \<open>Serving\<close>

datatype os_signal = SIGINT | SIGTERM

text \<open>Where the main goroutine and the one that handles signals are.  A signal before
  \<open>signal.Notify\<close> has its default effect.\<close>

datatype main_at = Starting | Waiting | Returned | Killed os_signal

datatype handler_at = Receiving | Unmounting | Done

text \<open>The channel has a buffer of one; \<open>sv_failed\<close> is the log of failed attempts to unmount.\<close>

record serving =
  sv_main :: main_at
  sv_handler :: handler_at
  sv_chan :: "os_signal list"
  sv_mounted :: bool
  sv_failed :: "string list"

definition mounted_server :: serving where
  "mounted_server =
     \<lparr>sv_main = Starting, sv_handler = Receiving, sv_chan = [], sv_mounted = True, sv_failed = []\<rparr>"

text \<open>The events: what the process does itself, signals, and an unmount from outside.\<close>

datatype serve_event =
    Notify
  | Receive
  | Unmount "string option"
  | WaitReturns
  | Arrives os_signal
  | UnmountedOutside

fun own_step :: "serve_event \<Rightarrow> bool" where
  "own_step (Arrives s) = False"
| "own_step UnmountedOutside = False"
| "own_step e = True"

text \<open>Whether an event can happen, and the state after it.  The package \<open>signal\<close> does not block: a
  signal that finds the buffer full is dropped.  The server's \<open>Wait\<close> returns once the file system
  is unmounted.\<close>

fun serve_step :: "serve_event \<Rightarrow> serving \<Rightarrow> serving option" where
  "serve_step Notify s = (if sv_main s = Starting then Some (s\<lparr>sv_main := Waiting\<rparr>) else None)"
| "serve_step Receive s =
     (if sv_main s = Waiting \<and> sv_handler s = Receiving \<and> sv_chan s \<noteq> []
      then Some (s\<lparr>sv_handler := Unmounting, sv_chan := tl (sv_chan s)\<rparr>) else None)"
| "serve_step (Unmount r) s =
     (if sv_main s = Waiting \<and> sv_handler s = Unmounting
      then Some (case r of
                   None \<Rightarrow> s\<lparr>sv_handler := Done, sv_mounted := False\<rparr>
                 | Some e \<Rightarrow> s\<lparr>sv_handler := Done, sv_failed := e # sv_failed s\<rparr>)
      else None)"
| "serve_step WaitReturns s =
     (if sv_main s = Waiting \<and> \<not> sv_mounted s then Some (s\<lparr>sv_main := Returned\<rparr>) else None)"
| "serve_step (Arrives sig) s =
     (case sv_main s of
        Starting \<Rightarrow> Some (s\<lparr>sv_main := Killed sig\<rparr>)
      | Waiting \<Rightarrow> Some (if length (sv_chan s) < 1 then s\<lparr>sv_chan := sv_chan s @ [sig]\<rparr> else s)
      | Returned \<Rightarrow> None
      | Killed _ \<Rightarrow> None)"
| "serve_step UnmountedOutside s = (if sv_mounted s then Some (s\<lparr>sv_mounted := False\<rparr>) else None)"

fun serve :: "serve_event list \<Rightarrow> serving \<Rightarrow> serving option" where
  "serve [] s = Some s"
| "serve (e # es) s = (case serve_step e s of None \<Rightarrow> None | Some s1 \<Rightarrow> serve es s1)"

text \<open>The exit code of \<open>main\<close>, when the events lead to one.\<close>

definition exit_code ::
  "(string \<Rightarrow> 'f filesystem \<Rightarrow> mount_options \<Rightarrow> 'k \<Rightarrow> string option \<times> 'k) \<Rightarrow> environment \<Rightarrow> disk \<Rightarrow> 'k \<Rightarrow>
   serve_event list \<Rightarrow> nat option" where
  "exit_code gofs_mount en d k events =
     (case fst (run_mount gofs_mount en d k) of
        Inl e \<Rightarrow> Some 1
      | Inr st \<Rightarrow>
          (case serve events mounted_server of
             Some s \<Rightarrow> (if sv_main s = Returned then Some 0 else None)
           | None \<Rightarrow> None))"

lemma serve_append: "serve (es @ es') s = (case serve es s of None \<Rightarrow> None | Some s1 \<Rightarrow> serve es' s1)"
  by (induction es arbitrary: s) (simp_all split: option.split)

text \<open>An invariant is shown for the events one by one.\<close>

lemma serve_induct [consumes 1, case_names start event]:
  assumes "serve es s = Some s'" "P s"
    and "\<And>e s s1. P s \<Longrightarrow> e \<in> set es \<Longrightarrow> serve_step e s = Some s1 \<Longrightarrow> P s1"
  shows "P s'"
  using assms
proof (induction es arbitrary: s)
  case (Cons e es)
  from Cons.prems(1) obtain s1 where s1: "serve_step e s = Some s1" "serve es s1 = Some s'" by (auto split: option.splits)
  have "P s1" by (rule Cons.prems(3) [OF Cons.prems(2) _ s1(1)]) simp
  then show ?case by (rule Cons.IH [OF s1(2)]) (rule Cons.prems(3), simp_all)
qed simp

end
