(* ===== verification/Serve_Props.thy ===== *)
theory Serve_Props
  imports Serve Startup_Props
begin

text \<open>
  Properties of the life of the process: its exit code, the reaction to the first signal, and what
  is left of it when unmounting fails.
\<close>

section \<open>Invariants\<close>

text \<open>The signal handler unmounts at most once, and only after a signal; the file system stays mounted
  until somebody unmounts it; the process returns only when it is not mounted.\<close>

definition serving_ok :: "serving \<Rightarrow> bool" where
  "serving_ok s \<longleftrightarrow> length (sv_chan s) \<le> 1 \<and> (sv_handler s \<noteq> Done \<longrightarrow> sv_failed s = []) \<and>
     (sv_handler s = Done \<and> sv_failed s = [] \<longrightarrow> \<not> sv_mounted s) \<and> length (sv_failed s) \<le> 1 \<and>
     (sv_main s = Returned \<longrightarrow> \<not> sv_mounted s) \<and>
     (sv_main s = Starting \<longrightarrow> sv_handler s = Receiving \<and> sv_chan s = [])"

lemma serving_ok_start [simp]: "serving_ok mounted_server"
  by (simp add: serving_ok_def mounted_server_def)

lemma serving_ok_step:
  assumes "serving_ok s" "serve_step e s = Some s1"
  shows "serving_ok s1"
  using assms by (cases e) (auto simp: serving_ok_def split: if_splits main_at.splits option.splits)

lemma serving_ok_serve: "serve es s = Some s' \<Longrightarrow> serving_ok s \<Longrightarrow> serving_ok s'"
  by (erule serve_induct) (use serving_ok_step in blast)+

text \<open>A failed attempt leaves its error in the log, for good.\<close>

lemma failed_kept:
  assumes "serve es s = Some s'"
  shows "length (sv_failed s) \<le> length (sv_failed s')" "Unmount (Some e) \<in> set es \<Longrightarrow> sv_failed s' \<noteq> []"
proof -
  have step: "length (sv_failed s) \<le> length (sv_failed s1)" if "serve_step e s = Some s1" for e s s1
    using that by (cases e) (auto split: if_splits main_at.splits option.splits)
  have mono: "length (sv_failed s) \<le> length (sv_failed s')" if "serve es s = Some s'" for es s s'
    using that
  proof (induction es arbitrary: s)
    case (Cons x es)
    from Cons.prems obtain s1 where s1: "serve_step x s = Some s1" "serve es s1 = Some s'" by (auto split: option.splits)
    show ?case by (rule order_trans [OF step [OF s1(1)] Cons.IH [OF s1(2)]])
  qed simp
  from mono [OF assms] show "length (sv_failed s) \<le> length (sv_failed s')" .
  assume "Unmount (Some e) \<in> set es"
  then obtain es1 es2 where es: "es = es1 @ Unmount (Some e) # es2" by (auto dest: split_list)
  then obtain s1 s2 where "serve_step (Unmount (Some e)) s1 = Some s2" "serve es2 s2 = Some s'"
    using assms by (auto simp: serve_append split: option.splits)
  then have "sv_failed s2 \<noteq> []" "length (sv_failed s2) \<le> length (sv_failed s')" using mono by (auto split: if_splits)
  then show "sv_failed s' \<noteq> []" by auto
qed

section \<open>A failed unmount\<close>

text \<open>The handler does not receive again: from then on nothing but an unmount from outside ends the
  process.\<close>

definition deaf :: "serving \<Rightarrow> bool" where
  "deaf s \<longleftrightarrow> sv_main s = Waiting \<and> sv_handler s = Done \<and> sv_mounted s"

lemma deaf_step: "deaf s \<Longrightarrow> serve_step e s = Some s1 \<Longrightarrow> e \<noteq> UnmountedOutside \<Longrightarrow> deaf s1"
  by (cases e) (auto simp: deaf_def split: if_splits)

text \<open>Without an unmount from outside, the file system is mounted until the handler succeeds.\<close>

lemma mounted_until_done:
  assumes "serve es mounted_server = Some s" "UnmountedOutside \<notin> set es"
  shows "sv_handler s \<noteq> Done \<longrightarrow> sv_mounted s \<and> sv_main s \<noteq> Returned"
proof -
  have "serving_ok s \<and> (sv_handler s \<noteq> Done \<longrightarrow> sv_mounted s \<and> sv_main s \<noteq> Returned)"
    using assms(1)
  proof (induction rule: serve_induct)
    case (event e s s1)
    then have "serving_ok s1" using serving_ok_step by blast
    then show ?case using event assms(2)
      by (cases e) (auto simp: serving_ok_def split: if_splits main_at.splits option.splits)
  qed (simp add: mounted_server_def serving_ok_def)
  then show ?thesis by blast
qed

text \<open>One failed unmount makes the process deaf to signals: after the server's \<open>Unmount\<close> has
  returned an error (a busy file system is enough), the process goes on serving whatever signals
  arrive, and does not unmount again, unless somebody unmounts the file system from outside.\<close>

theorem failed_unmount_deafens:
  assumes "serve (es1 @ Unmount (Some e) # es2) mounted_server = Some s"
    and "UnmountedOutside \<notin> set es1 \<union> set es2"
  shows "sv_main s = Waiting \<and> sv_mounted s \<and> sv_failed s = [e] \<and> Unmount r \<notin> set es2 \<and>
    serve_step (Arrives sig) s \<noteq> None \<and> serve_step Receive s = None \<and> serve_step WaitReturns s = None"
proof -
  obtain s1 s2 where s: "serve es1 mounted_server = Some s1" "serve_step (Unmount (Some e)) s1 = Some s2" "serve es2 s2 = Some s"
    using assms(1) by (auto simp: serve_append split: option.splits)
  have s1: "serving_ok s1" "sv_handler s1 = Unmounting" "sv_main s1 = Waiting" "s2 = s1\<lparr>sv_handler := Done, sv_failed := e # sv_failed s1\<rparr>"
    using serving_ok_serve [OF s(1)] s(2) by (auto split: if_splits)
  then have "deaf s2 \<and> sv_failed s2 = [e]"
    using mounted_until_done [OF s(1)] assms(2) by (simp add: deaf_def serving_ok_def)
  have kept: "deaf s' \<and> sv_failed s' = [e] \<and> (\<forall>r. Unmount r \<notin> set es)"
    if "serve es s2 = Some s'" "UnmountedOutside \<notin> set es" for es s'
    using that
  proof (induction es arbitrary: s' rule: rev_induct)
    case Nil
    then show ?case using \<open>deaf s2 \<and> sv_failed s2 = [e]\<close> by simp
  next
    case (snoc x es)
    then obtain t where t: "serve es s2 = Some t" "serve_step x t = Some s'" by (auto simp: serve_append split: option.splits)
    then have d: "deaf t" "sv_failed t = [e]" "\<forall>r. Unmount r \<notin> set es" using snoc by auto
    then have "deaf s'" using deaf_step t(2) snoc.prems(2) by auto
    moreover have "sv_failed s' = [e] \<and> (\<forall>r. x \<noteq> Unmount r)"
      using d(1,2) t(2) by (cases x) (auto simp: deaf_def split: if_splits)
    ultimately show ?case using d(3) by auto
  qed
  then show ?thesis using s(3) assms(2) by (auto simp: deaf_def)
qed

section \<open>Leaving\<close>

text \<open>What the process still has to do by itself.\<close>

definition to_do :: "serving \<Rightarrow> nat" where
  "to_do s = (case sv_main s of Starting \<Rightarrow> 4 | Waiting \<Rightarrow> 1 | Returned \<Rightarrow> 0 | Killed _ \<Rightarrow> 0) +
     (case sv_handler s of Receiving \<Rightarrow> 2 | Unmounting \<Rightarrow> 1 | Done \<Rightarrow> 0)"

lemma own_step_to_do: "serve_step e s = Some s1 \<Longrightarrow> own_step e \<Longrightarrow> to_do s1 < to_do s"
  by (cases e) (auto simp: to_do_def split: if_splits option.splits)

lemma own_steps_to_do: "serve es s = Some s' \<Longrightarrow> list_all own_step es \<Longrightarrow> length es + to_do s' \<le> to_do s"
proof (induction es arbitrary: s)
  case (Cons e es)
  then show ?case using own_step_to_do by (fastforce split: option.splits)
qed simp

text \<open>A signal that arrives while the process waits is not lost.\<close>

definition signalled :: "serving \<Rightarrow> bool" where
  "signalled s \<longleftrightarrow> sv_main s = Returned \<or> sv_main s = Waiting \<and> (sv_chan s \<noteq> [] \<or> sv_handler s \<noteq> Receiving)"

lemma signalled_step: "signalled s \<Longrightarrow> serve_step e s = Some s1 \<Longrightarrow> signalled s1"
  by (cases e) (auto simp: signalled_def split: if_splits option.splits)

lemma signalled_serve: "serve es s = Some s' \<Longrightarrow> signalled s \<Longrightarrow> signalled s'"
  by (erule serve_induct) (use signalled_step in blast)+

lemma arrives_signalled: "serve_step (Arrives sig) s = Some s1 \<Longrightarrow> sv_main s \<noteq> Starting \<Longrightarrow> signalled s1"
  by (auto simp: signalled_def split: main_at.splits if_splits)

lemma notified_step: "serve_step e s = Some s1 \<Longrightarrow> sv_main s \<noteq> Starting \<Longrightarrow> sv_main s1 \<noteq> Starting"
  by (cases e) (auto split: if_splits option.splits main_at.splits)

lemma notified_serve: "serve es s = Some s' \<Longrightarrow> sv_main s \<noteq> Starting \<Longrightarrow> sv_main s' \<noteq> Starting"
  by (erule serve_induct) (use notified_step in blast)+

text \<open>C28. A signal ends the process: once a signal has arrived at a process that handles signals, and as
  long as no unmount fails, the process takes at most three more steps of its own; until it has
  returned, with the file system unmounted, one of them is possible.\<close>

theorem signal_ends_process:
  assumes "serve (es1 @ Notify # es2 @ Arrives sig # es3) mounted_server = Some s" "serve own s = Some s'"
    and "list_all own_step own" "sv_failed s' = []"
  shows "length own \<le> 3 \<and>
    (sv_main s' = Returned \<and> \<not> sv_mounted s' \<or> (\<exists>e \<in> {Receive, Unmount None, WaitReturns}. serve_step e s' \<noteq> None))"
proof -
  obtain s1 s2 s3 where s: "serve_step Notify s1 = Some s2" "serve es2 s2 = Some s3"
    "serve (Arrives sig # es3) s3 = Some s"
    using assms(1) by (auto simp: serve_append split: option.splits)
  have "sv_main s3 \<noteq> Starting" using notified_serve [OF s(2)] s(1) by (auto split: if_splits)
  then have sig: "signalled s"
    using s(3) arrives_signalled signalled_serve by (auto split: option.splits simp del: serve_step.simps)
  then have "to_do s \<le> 3" by (auto simp: signalled_def to_do_def split: handler_at.splits)
  then have "length own \<le> 3" using own_steps_to_do [OF assms(2,3)] by simp
  moreover have "serving_ok s'" using serving_ok_serve [OF assms(2)] serving_ok_serve [OF assms(1)] by simp
  moreover have "signalled s'" using signalled_serve [OF assms(2) sig] .
  ultimately show ?thesis
    using assms(4) by (cases "sv_handler s'") (auto simp: serving_ok_def signalled_def)
qed

section \<open>Exit codes\<close>

text \<open>The exit code tells what happened: 0 means that the mount was made and the file system is not
  mounted any more; 1 means that the process did not come to serve, and if not even the mount
  was tried, that nothing was mounted.\<close>

theorem exit_code_exact:
  fixes gofs_mount :: "string \<Rightarrow> 'f filesystem \<Rightarrow> mount_options \<Rightarrow> 'k \<Rightarrow> string option \<times> 'k"
  assumes "exit_code gofs_mount en d k events = Some n"
  shows "n = 0 \<and> (\<exists>st d1 k1 s. run_mount gofs_mount en d k = (Inr st, d1, k1) \<and>
      gofs_mount (st_mountpoint st) (st_fs st) (st_options st) k = (None, k1) \<and>
      serve events mounted_server = Some s \<and> \<not> sv_mounted s) \<or>
    n = 1 \<and> (\<exists>d1. (\<exists>e. run_mount gofs_mount en d k = (Inl (StartError e), d1, k)) \<or>
      (\<exists>st e k1. run en d = (Inr st, d1) \<and> gofs_mount (st_mountpoint st) (st_fs st) (st_options st) k = (Some e, k1)))"
proof -
  have opts: "mount_opts (mo_debug (st_options st)) = st_options st" if "run en d = (Inr st, d1)" for st :: "'f started" and d1
    using that by (auto simp: run_def mount_opts_def Let_def split: if_splits sum.splits prod.splits)
  show ?thesis
  proof (cases "run en d :: (start_error + 'f started) \<times> disk")
    case (Pair r d1)
    show ?thesis
    proof (cases r)
      case (Inl e)
      then have "run_mount gofs_mount en d k = (Inl (StartError e), d1, k)" using Pair by (simp add: run_mount_def)
      then show ?thesis using assms by (auto simp: exit_code_def)
    next
      case (Inr st)
      obtain q k1 where q: "gofs_mount (st_mountpoint st) (st_fs st) (st_options st) k = (q, k1)" by force
      then have m: "Mount gofs_mount (st_fs st) (st_mountpoint st) (mo_debug (st_options st)) k = (q, k1)"
        using opts [of st d1] Pair Inr by (simp add: Mount_def)
      show ?thesis
      proof (cases q)
        case (Some e)
        then have "n = 1" using assms Pair Inr m by (simp add: exit_code_def run_mount_def)
        then show ?thesis using Pair Inr q Some by blast
      next
        case None
        then have r: "run_mount gofs_mount en d k = (Inr st, d1, k1)" using Pair Inr m by (simp add: run_mount_def)
        then obtain s where s: "serve events mounted_server = Some s" "sv_main s = Returned" "n = 0"
          using assms by (auto simp: exit_code_def split: option.splits if_splits)
        then have "\<not> sv_mounted s" using serving_ok_serve [OF s(1) serving_ok_start] by (simp add: serving_ok_def)
        then show ?thesis using r q None s by simp
      qed
    qed
  qed
qed

section \<open>Witnesses\<close>

text \<open>A shell has its directory in the mount: the first attempt fails, and two more signals change
  nothing.\<close>

theorem failed_unmount_deafens_witness:
  "\<exists>s. serve [Notify, Arrives SIGINT, Receive, Unmount (Some ''busy''), Arrives SIGTERM, Arrives SIGINT] mounted_server = Some s \<and>
     sv_main s = Waiting \<and> sv_mounted s \<and> serve_step Receive s = None"
proof -
  obtain s where s: "serve ([Notify, Arrives SIGINT, Receive] @ Unmount (Some ''busy'') # [Arrives SIGTERM, Arrives SIGINT]) mounted_server = Some s"
    by (simp add: mounted_server_def)
  have "UnmountedOutside \<notin> set [Notify, Arrives SIGINT, Receive] \<union> set [Arrives SIGTERM, Arrives SIGINT]" by simp
  note failed_unmount_deafens [OF s this, of None SIGINT]
  then have "sv_main s = Waiting \<and> sv_mounted s \<and> serve_step Receive s = None" by blast
  moreover have "serve [Notify, Arrives SIGINT, Receive, Unmount (Some ''busy''), Arrives SIGTERM, Arrives SIGINT] mounted_server = Some s"
    using s by (simp only: append.simps)
  ultimately show ?thesis by blast
qed

theorem signal_ends_process_witness:
  "\<exists>s'. serve [Receive, Unmount None, WaitReturns] (the (serve [Notify, Arrives SIGINT] mounted_server)) = Some s' \<and>
     sv_main s' = Returned \<and> \<not> sv_mounted s'"
proof -
  obtain s where s: "serve ([] @ Notify # [] @ Arrives SIGINT # []) mounted_server = Some s" by (simp add: mounted_server_def)
  then obtain s' where s': "serve [Receive, Unmount None, WaitReturns] s = Some s'" "sv_failed s' = []"
    "\<forall>e \<in> {Receive, Unmount None, WaitReturns}. serve_step e s' = None"
    by (auto simp: mounted_server_def)
  have "list_all own_step [Receive, Unmount None, WaitReturns]" by simp
  then have "sv_main s' = Returned \<and> \<not> sv_mounted s'" using signal_ends_process [OF s s'(1) _ s'(2)] s'(3) by metis
  moreover have "serve [Notify, Arrives SIGINT] mounted_server = Some s" using s by (simp only: append.simps)
  ultimately show ?thesis using s'(1) by (metis option.sel)
qed

text \<open>A mount that is left at a signal.\<close>

definition demo_gofs :: "string \<Rightarrow> unit filesystem \<Rightarrow> mount_options \<Rightarrow> nat \<Rightarrow> string option \<times> nat" where
  "demo_gofs mountpoint f opts k = (if mountpoint = ''/mnt'' then (None, Suc k) else (Some ''not a directory'', k))"

theorem exit_code_exact_witness:
  "exit_code demo_gofs demo_environment (demo_disk (\<lambda>_. None)) 0 [Notify, Arrives SIGINT, Receive, Unmount None, WaitReturns] = Some 0 \<and>
   (\<exists>s. serve [Notify, Arrives SIGINT, Receive, Unmount None, WaitReturns] mounted_server = Some s \<and> \<not> sv_mounted s)"
proof -
  obtain c d1 and st :: "unit started" where st: "run demo_environment (demo_disk (\<lambda>_. None)) = (Inr st, d1)"
    "st_mountpoint st = ''/mnt''" using demo_started by blast
  then have e: "exit_code demo_gofs demo_environment (demo_disk (\<lambda>_. None)) 0
      [Notify, Arrives SIGINT, Receive, Unmount None, WaitReturns] = Some 0"
    by (simp add: exit_code_def run_mount_def Mount_def demo_gofs_def mounted_server_def)
  have "\<exists>s. serve [Notify, Arrives SIGINT, Receive, Unmount None, WaitReturns] mounted_server = Some s \<and> \<not> sv_mounted s"
    using exit_code_exact [OF e] zero_neq_one by blast
  then show ?thesis using e by blast
qed

end
