(* ===== verification/Tag_Lookups.thy ===== *)
theory Tag_Lookups
  imports Mount_Lemmas Singleflight
begin

text \<open>
  Concurrent lookups of tags (\<open>internal/mount/mount.go\<close>: \<open>Filesystem.resolveTagDigest\<close>).  A call joins the
  flight of its key, if there is one, or starts one; the flight asks the registry once, with the
  context of the call that started it, and lands with its answer some time later; every call that waits
  by then, those that joined after the registry had answered included, gets the result.  Nothing is kept
  when a flight has landed.
\<close>

section \<open>Calls and flights\<close>

text \<open>The key under which calls are joined: the reference and the platform as they are printed.\<close>

definition flight_key :: "(reference \<Rightarrow> string) \<Rightarrow> (platform \<Rightarrow> string) \<Rightarrow> reference \<Rightarrow> platform \<Rightarrow> string" where
  "flight_key show_ref show_platform ref platform = show_ref ref @ ''@@'' @ show_platform platform"

type_synonym tag_result = "resolve_error + hash \<times> (platform \<times> hash) list"

text \<open>A flight: the call that started it, what it asks for, and the answer of the registry once there is one.\<close>

record tag_flight =
  tf_leader :: nat
  tf_ref :: reference
  tf_platform :: platform
  tf_answer :: "tag_result option"

text \<open>Calls are numbered; \<open>lk_interrupted\<close> are those whose context is done.\<close>

record lookups =
  lk_flights :: "(string \<times> tag_flight) list"
  lk_waiting :: "(nat \<times> string) list"
  lk_results :: "(nat \<times> tag_result) list"
  lk_interrupted :: "nat list"
  lk_called :: nat

definition no_lookups :: lookups where
  "no_lookups = \<lparr>lk_flights = [], lk_waiting = [], lk_results = [], lk_interrupted = [], lk_called = 0\<rparr>"

definition land_tag :: "string \<Rightarrow> tag_result \<Rightarrow> lookups \<Rightarrow> lookups" where
  "land_tag key r v = v\<lparr>lk_flights := filter (\<lambda>x. fst x \<noteq> key) (lk_flights v),
     lk_waiting := filter (\<lambda>x. snd x \<noteq> key) (lk_waiting v),
     lk_results := map (\<lambda>x. (fst x, r)) (filter (\<lambda>x. snd x = key) (lk_waiting v)) @ lk_results v\<rparr>"

definition ask :: "(reference \<Rightarrow> platform \<Rightarrow> string) \<Rightarrow> reference \<Rightarrow> platform \<Rightarrow> lookups \<Rightarrow> lookups" where
  "ask key_of ref platform v =
     (let c = lk_called v; key = key_of ref platform;
          v1 = v\<lparr>lk_called := Suc c, lk_waiting := (c, key) # lk_waiting v\<rparr>
      in if map_of (lk_flights v) key = None
         then v1\<lparr>lk_flights := (key, \<lparr>tf_leader = c, tf_ref = ref, tf_platform = platform, tf_answer = None\<rparr>) # lk_flights v\<rparr>
         else v1)"

text \<open>The registry answers the request of a flight, which reaches it at some time; the flight
  lands with the answer later, or, when the context of its leader is done before it lands, with
  the error of the context.  A call whose context is done goes on waiting for its flight.\<close>

datatype tag_event = Ask reference platform | Respond string | Deliver string | Interrupt nat | Cancel string

definition canceled :: tag_result where
  "canceled = Inl (RemoteError ''context canceled'')"

definition set_answer :: "string \<Rightarrow> tag_flight \<Rightarrow> tag_result \<Rightarrow> lookups \<Rightarrow> lookups" where
  "set_answer key fl r v = v\<lparr>lk_flights := AList.update key (fl\<lparr>tf_answer := Some r\<rparr>) (lk_flights v)\<rparr>"

fun tag_step ::
  "(reference \<Rightarrow> platform \<Rightarrow> 'w \<Rightarrow> (string + remote_desc) \<times> 'w) \<Rightarrow> (reference \<Rightarrow> platform \<Rightarrow> string) \<Rightarrow> tag_event \<Rightarrow>
   lookups \<times> 'w \<Rightarrow> (lookups \<times> 'w) option" where
  "tag_step get key_of (Ask ref platform) (v, w) = Some (ask key_of ref platform v, w)"
| "tag_step get key_of (Respond key) (v, w) =
     (case map_of (lk_flights v) key of
        None \<Rightarrow> None
      | Some fl \<Rightarrow>
          (if tf_answer fl \<noteq> None then None
           else case ResolveDigestAndPlatforms get (tf_ref fl) (tf_platform fl) w of
                  (r, w1) \<Rightarrow> Some (set_answer key fl r v, w1)))"
| "tag_step get key_of (Deliver key) (v, w) =
     (case map_of (lk_flights v) key of
        None \<Rightarrow> None
      | Some fl \<Rightarrow> (case tf_answer fl of None \<Rightarrow> None | Some r \<Rightarrow> Some (land_tag key r v, w)))"
| "tag_step get key_of (Interrupt c) (v, w) =
     (if c \<in> fst ` set (lk_waiting v) then Some (v\<lparr>lk_interrupted := c # lk_interrupted v\<rparr>, w) else None)"
| "tag_step get key_of (Cancel key) (v, w) =
     (case map_of (lk_flights v) key of
        None \<Rightarrow> None
      | Some fl \<Rightarrow>
          (if tf_leader fl \<in> set (lk_interrupted v) then Some (land_tag key canceled v, w) else None))"

fun tag_run ::
  "(reference \<Rightarrow> platform \<Rightarrow> 'w \<Rightarrow> (string + remote_desc) \<times> 'w) \<Rightarrow> (reference \<Rightarrow> platform \<Rightarrow> string) \<Rightarrow> tag_event list \<Rightarrow>
   lookups \<times> 'w \<Rightarrow> (lookups \<times> 'w) option" where
  "tag_run get key_of [] s = Some s"
| "tag_run get key_of (e # es) s = (case tag_step get key_of e s of None \<Rightarrow> None | Some s1 \<Rightarrow> tag_run get key_of es s1)"

lemma tag_run_append:
  "tag_run get key_of (es @ es') s = (case tag_run get key_of es s of None \<Rightarrow> None | Some s1 \<Rightarrow> tag_run get key_of es' s1)"
  by (induction es arbitrary: s) (simp_all split: option.split)

lemma tag_run_snoc:
  assumes "tag_run get key_of (es @ [e]) s = Some s'"
  obtains s1 where "tag_run get key_of es s = Some s1" "tag_step get key_of e s1 = Some s'"
  using assms by (auto simp: tag_run_append split: option.splits)

section \<open>The invariant\<close>

interpretation tags: singleflight "\<lambda>v. fst ` set (lk_flights v)" lk_waiting lk_results
  "\<lambda>v. {..<lk_called v}" land_tag
  by unfold_locales (auto simp: land_tag_def image_iff)

text \<open>A flight is known under the key of what it asks for, and its leader waits for it.\<close>

definition lookups_ok :: "(reference \<Rightarrow> platform \<Rightarrow> string) \<Rightarrow> lookups \<Rightarrow> bool" where
  "lookups_ok key_of v \<longleftrightarrow>
     (\<forall>key fl. map_of (lk_flights v) key = Some fl \<longrightarrow>
        key_of (tf_ref fl) (tf_platform fl) = key \<and> (tf_leader fl, key) \<in> set (lk_waiting v)) \<and>
     group_ok (fst ` set (lk_flights v)) (lk_waiting v) (lk_results v) {..<lk_called v}"

lemma no_lookups_ok: "lookups_ok key_of no_lookups"
  by (simp add: lookups_ok_def no_lookups_def group_ok_none)

lemma lookups_okD:
  assumes "lookups_ok key_of v"
  shows "map_of (lk_flights v) key = Some fl \<Longrightarrow> key_of (tf_ref fl) (tf_platform fl) = key"
    "map_of (lk_flights v) key = Some fl \<Longrightarrow> (tf_leader fl, key) \<in> set (lk_waiting v)"
    "(c, key) \<in> set (lk_waiting v) \<Longrightarrow> c < lk_called v \<and> (\<exists>fl. map_of (lk_flights v) key = Some fl)"
    "(c, r) \<in> set (lk_results v) \<Longrightarrow> c < lk_called v"
proof -
  have g: "group_ok (fst ` set (lk_flights v)) (lk_waiting v) (lk_results v) {..<lk_called v}"
    using assms by (simp add: lookups_ok_def)
  show "map_of (lk_flights v) key = Some fl \<Longrightarrow> key_of (tf_ref fl) (tf_platform fl) = key"
    "map_of (lk_flights v) key = Some fl \<Longrightarrow> (tf_leader fl, key) \<in> set (lk_waiting v)"
    using assms unfolding lookups_ok_def by blast+
  show "(c, key) \<in> set (lk_waiting v) \<Longrightarrow> c < lk_called v \<and> (\<exists>fl. map_of (lk_flights v) key = Some fl)"
    using group_okD(1) [OF g, of c key] by (metis lessThan_iff map_of_eq_None_iff option.exhaust)
  show "(c, r) \<in> set (lk_results v) \<Longrightarrow> c < lk_called v" using group_okD(2) [OF g] by simp
qed

lemma land_tag_flights: "map_of (lk_flights (land_tag key r v)) = (map_of (lk_flights v))(key := None)"
  by (simp add: land_tag_def map_of_filter_fst [of "\<lambda>k. k \<noteq> key"] fun_eq_iff)

lemma land_tag_ok: "lookups_ok key_of v \<Longrightarrow> lookups_ok key_of (land_tag key r v)"
  using tags.land_ok [of v key r] by (auto simp: lookups_ok_def tags.land_waiting land_tag_flights)

lemma ask_ok:
  assumes "lookups_ok key_of v"
  shows "lookups_ok key_of (ask key_of ref platform v)"
proof (cases "map_of (lk_flights v) (key_of ref platform)")
  case None
  then show ?thesis using assms by (auto simp: lookups_ok_def ask_def Let_def group_ok_call(1) lessThan_Suc)
next
  case (Some fl)
  then have "insert (key_of ref platform) (fst ` set (lk_flights v)) = fst ` set (lk_flights v)"
    by (metis insert_absorb map_of_eq_None_iff option.distinct(1))
  then show ?thesis
    using assms Some group_ok_call(1) [of "fst ` set (lk_flights v)" "lk_waiting v" "lk_results v" "{..<lk_called v}" "lk_called v" "key_of ref platform"]
    by (auto simp: lookups_ok_def ask_def Let_def lessThan_Suc)
qed

lemma set_answer_flights:
  "map_of (lk_flights (set_answer key fl r v)) = (map_of (lk_flights v))(key \<mapsto> fl\<lparr>tf_answer := Some r\<rparr>)"
  "lk_waiting (set_answer key fl r v) = lk_waiting v" "lk_results (set_answer key fl r v) = lk_results v"
  "lk_called (set_answer key fl r v) = lk_called v" "lk_interrupted (set_answer key fl r v) = lk_interrupted v"
  by (simp_all add: set_answer_def update_conv')

lemma set_answer_ok:
  assumes "lookups_ok key_of v" "map_of (lk_flights v) key = Some fl"
  shows "lookups_ok key_of (set_answer key fl r v)"
proof -
  have "fst ` set (lk_flights (set_answer key fl r v)) = fst ` set (lk_flights v)"
    using assms(2) by (auto simp: set_answer_flights domI simp flip: dom_map_of_conv_image_fst)
  then show ?thesis using assms by (auto simp: lookups_ok_def set_answer_flights)
qed

lemma interrupted_ok [simp]: "lookups_ok key_of (v\<lparr>lk_interrupted := cs\<rparr>) = lookups_ok key_of v"
  by (simp add: lookups_ok_def)

lemma tag_step_ok:
  assumes "lookups_ok key_of v" "tag_step get key_of e (v, w) = Some (v', w')"
  shows "lookups_ok key_of v'"
proof (cases e)
  case (Ask ref platform)
  then show ?thesis using assms ask_ok by auto
next
  case (Respond key)
  then obtain fl r where "map_of (lk_flights v) key = Some fl" "v' = set_answer key fl r v"
    using assms(2) by (auto split: option.splits prod.splits if_splits)
  then show ?thesis using set_answer_ok [OF assms(1)] by simp
next
  case (Deliver key)
  then obtain r where "v' = land_tag key r v" using assms(2) by (auto split: option.splits)
  then show ?thesis using land_tag_ok [OF assms(1)] by simp
next
  case (Interrupt c)
  then have "v' = v\<lparr>lk_interrupted := c # lk_interrupted v\<rparr>" using assms(2) by (simp split: if_splits)
  then show ?thesis using assms(1) by simp
next
  case (Cancel key)
  then have "v' = land_tag key canceled v" using assms(2) by (simp split: option.splits if_splits)
  then show ?thesis using land_tag_ok [OF assms(1)] by simp
qed

lemma tag_run_ok:
  "tag_run get key_of es (no_lookups, w0) = Some (v, w) \<Longrightarrow> lookups_ok key_of v"
proof (induction es arbitrary: v w rule: rev_induct)
  case Nil
  then show ?case by (simp add: no_lookups_ok)
next
  case (snoc e es)
  obtain v1 w1 where s1: "tag_run get key_of es (no_lookups, w0) = Some (v1, w1)"
    "tag_step get key_of e (v1, w1) = Some (v, w)"
    using tag_run_snoc [OF snoc.prems] by (metis surj_pair)
  show ?case by (rule tag_step_ok [OF snoc.IH [OF s1(1)] s1(2)])
qed

section \<open>What a call gets\<close>

text \<open>The outcome of a step for the calls: what was known stays, and a new result is for a call that
  waited on the flight that landed.\<close>

lemma tag_step_results:
  assumes "tag_step get key_of e (v, w) = Some (v', w')" "(c, r) \<in> set (lk_results v')"
  shows "(c, r) \<in> set (lk_results v) \<or>
    (\<exists>key fl. (c, key) \<in> set (lk_waiting v) \<and> map_of (lk_flights v) key = Some fl \<and>
       (e = Deliver key \<and> tf_answer fl = Some r \<or>
        e = Cancel key \<and> tf_leader fl \<in> set (lk_interrupted v) \<and> r = canceled))"
  using assms
  by (cases e) (auto simp: land_tag_def ask_def set_answer_flights Let_def split: option.splits prod.splits if_splits)

lemma tag_step_waiting:
  assumes "tag_step get key_of e (v, w) = Some (v', w')" "(c, key) \<in> set (lk_waiting v')"
  shows "(c, key) \<in> set (lk_waiting v) \<or> (\<exists>ref platform. e = Ask ref platform \<and> c = lk_called v \<and> key = key_of ref platform)"
  using assms
  by (cases e) (auto simp: land_tag_def ask_def set_answer_flights Let_def split: option.splits prod.splits if_splits)

lemma tag_step_called:
  "tag_step get key_of e (v, w) = Some (v', w') \<Longrightarrow> lk_called v \<le> lk_called v'"
  by (cases e) (auto simp: land_tag_def ask_def set_answer_flights Let_def split: option.splits prod.splits if_splits)

text \<open>A flight after a step is the one before it, or a new one, or one that has just been answered.\<close>

lemma tag_step_flight:
  assumes "tag_step get key_of e (v, w) = Some (v', w')" "map_of (lk_flights v') key = Some fl" "tf_answer fl = Some r"
  shows "map_of (lk_flights v) key = Some fl \<and> e \<noteq> Deliver key \<and> e \<noteq> Cancel key \<or>
    (\<exists>fl0. e = Respond key \<and> map_of (lk_flights v) key = Some fl0 \<and>
       r = fst (ResolveDigestAndPlatforms get (tf_ref fl0) (tf_platform fl0) w))"
proof (cases e)
  case (Ask ref platform)
  then have "v' = ask key_of ref platform v" using assms(1) by simp
  then show ?thesis using assms(2,3) Ask by (auto simp: ask_def Let_def split: if_splits)
next
  case (Respond k)
  then obtain fl0 where fl0: "map_of (lk_flights v) k = Some fl0"
    "v' = set_answer k fl0 (fst (ResolveDigestAndPlatforms get (tf_ref fl0) (tf_platform fl0) w)) v"
    using assms(1) by (auto split: option.splits if_splits prod.splits)
  then show ?thesis using assms(2,3) Respond by (auto simp: set_answer_flights split: if_splits)
next
  case (Deliver k)
  then obtain q where "v' = land_tag k q v" using assms(1) by (auto split: option.splits)
  then show ?thesis using assms(2) Deliver by (auto simp: land_tag_flights split: if_splits)
next
  case (Interrupt c)
  then show ?thesis using assms by (auto split: if_splits)
next
  case (Cancel k)
  then have "v' = land_tag k canceled v" using assms(1) by (auto split: option.splits if_splits)
  then show ?thesis using assms(2) Cancel by (auto simp: land_tag_flights split: if_splits)
qed

text \<open>Where the answer of a flight comes from: the registry gave it to a flight of the same key, and none
  has landed since.\<close>

definition answered_in where
  "answered_in get key_of w0 es key r \<longleftrightarrow> (\<exists>before since v w fl. es = before @ Respond key # since \<and>
     Deliver key \<notin> set since \<and> Cancel key \<notin> set since \<and>
     tag_run get key_of before (no_lookups, w0) = Some (v, w) \<and> map_of (lk_flights v) key = Some fl \<and>
     key_of (tf_ref fl) (tf_platform fl) = key \<and> r = fst (ResolveDigestAndPlatforms get (tf_ref fl) (tf_platform fl) w))"

lemma answered_in_snoc:
  assumes "answered_in get key_of w0 es key r" "e \<noteq> Deliver key" "e \<noteq> Cancel key"
  shows "answered_in get key_of w0 (es @ [e]) key r"
proof -
  obtain before since v w fl where b: "es = before @ Respond key # since" "Deliver key \<notin> set since" "Cancel key \<notin> set since"
    "tag_run get key_of before (no_lookups, w0) = Some (v, w)" "map_of (lk_flights v) key = Some fl"
    "key_of (tf_ref fl) (tf_platform fl) = key" "r = fst (ResolveDigestAndPlatforms get (tf_ref fl) (tf_platform fl) w)"
    using assms(1) unfolding answered_in_def by blast
  show ?thesis
    unfolding answered_in_def
    by (intro exI [of _ before] exI [of _ "since @ [e]"] exI [of _ v] exI [of _ w] exI [of _ fl]) (use b assms(2,3) in simp)
qed

lemma flight_answered:
  assumes "tag_run get key_of es (no_lookups, w0) = Some (v, w)" "map_of (lk_flights v) key = Some fl" "tf_answer fl = Some r"
  shows "answered_in get key_of w0 es key r"
  using assms
proof (induction es arbitrary: v w fl rule: rev_induct)
  case Nil
  then show ?case by (auto simp: no_lookups_def)
next
  case (snoc e es)
  obtain v1 w1 where s: "tag_run get key_of es (no_lookups, w0) = Some (v1, w1)"
    "tag_step get key_of e (v1, w1) = Some (v, w)"
    using tag_run_snoc [OF snoc.prems(1)] by (metis surj_pair)
  from tag_step_flight [OF s(2) snoc.prems(2,3)] show ?case
  proof (elim disjE exE conjE)
    assume e: "map_of (lk_flights v1) key = Some fl" "e \<noteq> Deliver key" "e \<noteq> Cancel key"
    show ?thesis by (rule answered_in_snoc [OF snoc.IH [OF s(1) e(1) snoc.prems(3)] e(2,3)])
  next
    fix fl0 assume e: "e = Respond key" "map_of (lk_flights v1) key = Some fl0"
      "r = fst (ResolveDigestAndPlatforms get (tf_ref fl0) (tf_platform fl0) w1)"
    have "key_of (tf_ref fl0) (tf_platform fl0) = key" using lookups_okD(1) [OF tag_run_ok [OF s(1)] e(2)] .
    then show ?thesis
      unfolding answered_in_def
      by (intro exI [of _ es] exI [of _ "[]"] exI [of _ v1] exI [of _ w1] exI [of _ fl0]) (use s(1) e in simp)
  qed
qed

text \<open>The events after a call.\<close>

lemma call_outcome:
  assumes "lookups_ok key_of v1" "tag_run get key_of (Ask ref platform # es) (v1, w1) = Some (v2, w2)"
  shows "lookups_ok key_of v2 \<and> lk_called v1 < lk_called v2 \<and>
    (\<forall>key. (lk_called v1, key) \<in> set (lk_waiting v2) \<longrightarrow> key = key_of ref platform) \<and>
    (\<forall>r. (lk_called v1, r) \<in> set (lk_results v2) \<longrightarrow>
      (\<exists>es1 e es2 v w fl. es = es1 @ e # es2 \<and> tag_run get key_of (Ask ref platform # es1) (v1, w1) = Some (v, w) \<and>
         map_of (lk_flights v) (key_of ref platform) = Some fl \<and>
         (e = Deliver (key_of ref platform) \<and> tf_answer fl = Some r \<or>
          e = Cancel (key_of ref platform) \<and> tf_leader fl \<in> set (lk_interrupted v) \<and> r = canceled)))"
  using assms(2)
proof (induction es arbitrary: v2 w2 rule: rev_induct)
  case Nil
  then have v2: "v2 = ask key_of ref platform v1" by simp
  then have "lk_called v2 = Suc (lk_called v1)" "lk_waiting v2 = (lk_called v1, key_of ref platform) # lk_waiting v1"
    "lk_results v2 = lk_results v1"
    by (simp_all add: ask_def Let_def)
  then show ?case using ask_ok [OF assms(1)] lookups_okD(3,4) [OF assms(1)] v2 by fastforce
next
  case (snoc x es)
  obtain v w where s: "tag_run get key_of (Ask ref platform # es) (v1, w1) = Some (v, w)"
    "tag_step get key_of x (v, w) = Some (v2, w2)"
    using tag_run_snoc [of get key_of "Ask ref platform # es" x] snoc.prems by (metis append_Cons surj_pair)
  note IH = snoc.IH [OF s(1)]
  let ?c = "lk_called v1" and ?key = "key_of ref platform"
  let ?lands = "\<lambda>e v fl r. e = Deliver ?key \<and> tf_answer fl = Some r \<or>
    e = Cancel ?key \<and> tf_leader fl \<in> set (lk_interrupted v) \<and> r = canceled"
  have wait: "key = ?key" if "(?c, key) \<in> set (lk_waiting v2)" for key
    using tag_step_waiting [OF s(2) that] IH by auto
  have "\<exists>es1 e es2 v w fl. es @ [x] = es1 @ e # es2 \<and> tag_run get key_of (Ask ref platform # es1) (v1, w1) = Some (v, w) \<and>
         map_of (lk_flights v) ?key = Some fl \<and> ?lands e v fl r"
    if r: "(?c, r) \<in> set (lk_results v2)" for r
    using tag_step_results [OF s(2) r]
  proof
    assume "(?c, r) \<in> set (lk_results v)"
    then obtain es1 e es2 v' w' fl where "es = es1 @ e # es2"
      "tag_run get key_of (Ask ref platform # es1) (v1, w1) = Some (v', w')" "map_of (lk_flights v') ?key = Some fl"
      "?lands e v' fl r"
      using IH by blast
    then show ?thesis by (intro exI [of _ es1] exI [of _ e] exI [of _ "es2 @ [x]"] exI) auto
  next
    assume "\<exists>key fl. (?c, key) \<in> set (lk_waiting v) \<and> map_of (lk_flights v) key = Some fl \<and>
       (x = Deliver key \<and> tf_answer fl = Some r \<or>
        x = Cancel key \<and> tf_leader fl \<in> set (lk_interrupted v) \<and> r = canceled)"
    then obtain fl where "map_of (lk_flights v) ?key = Some fl" "?lands x v fl r"
      using IH by blast
    then show ?thesis using s(1) by (intro exI [of _ es] exI [of _ x] exI [of _ "[]"] exI [of _ v] exI [of _ w] exI [of _ fl]) simp
  qed
  moreover have "lookups_ok key_of v2" using tag_step_ok [OF _ s(2)] IH by blast
  moreover have "?c < lk_called v2" using tag_step_called [OF s(2)] IH by linarith
  ultimately show ?case using wait by blast
qed

section \<open>Properties\<close>

text \<open>A flight can always be answered and land, and when none is left every call has exactly one result.\<close>

lemma flight_lands:
  assumes "map_of (lk_flights v) key = Some fl"
  shows "tag_step get key_of (if tf_answer fl = None then Respond key else Deliver key) (v, w) \<noteq> None"
  using assms by (auto split: prod.split)

lemma lookups_return:
  assumes "tag_run get key_of es (no_lookups, w0) = Some (v, w)" "lk_flights v = []"
  shows "lk_waiting v = []" "distinct (map fst (lk_results v))" "fst ` set (lk_results v) = {..<lk_called v}"
proof -
  have "group_ok (fst ` set (lk_flights v)) (lk_waiting v) (lk_results v) {..<lk_called v}"
    using tag_run_ok [OF assms(1)] by (simp add: lookups_ok_def)
  then show "lk_waiting v = []" "distinct (map fst (lk_results v))" "fst ` set (lk_results v) = {..<lk_called v}"
    using tags.all_returned assms(2) by simp_all
qed

text \<open>A call without company is the lookup of one call.\<close>

lemma lookup_alone:
  assumes "map_of (lk_flights v) (key_of ref platform) = None" "lookups_ok key_of v"
    and "ResolveDigestAndPlatforms get ref platform w = (r, w')"
  shows "\<exists>v'. tag_run get key_of [Ask ref platform, Respond (key_of ref platform), Deliver (key_of ref platform)] (v, w) = Some (v', w') \<and>
    lk_results v' = (lk_called v, r) # lk_results v \<and> lk_waiting v' = lk_waiting v \<and> lk_flights v' = lk_flights v"
proof -
  have "\<forall>x \<in> set (lk_waiting v). snd x \<noteq> key_of ref platform" using assms(1) lookups_okD(3) [OF assms(2)] by fastforce
  then have "filter (\<lambda>x. snd x = key_of ref platform) (lk_waiting v) = []"
    "filter (\<lambda>x. snd x \<noteq> key_of ref platform) (lk_waiting v) = lk_waiting v"
    by (simp_all add: filter_empty_conv filter_id_conv)
  moreover have "\<forall>x \<in> set (lk_flights v). fst x \<noteq> key_of ref platform"
    using assms(1) by (force simp: map_of_eq_None_iff)
  then have "filter (\<lambda>x. fst x \<noteq> key_of ref platform) (lk_flights v) = lk_flights v" by (simp add: filter_id_conv)
  ultimately show ?thesis using assms(1,3) by (simp add: ask_def land_tag_def set_answer_def Let_def)
qed

text \<open>C14. A lookup is never answered by what is over: whatever calls, answers, landings and interruptions
  come in whatever order, the result of a call is the answer that the registry gave to a request, for a
  reference and platform with the same key, of a flight that had not landed when the call was made; or it is the
  error of a context, and then only when the call that had started the flight was interrupted
  and waited for the same key.  The answer may be older than the call, but never older than the flight that the call
  joins: nothing of a flight that has landed reaches a later call.\<close>

theorem lookup_answer_recent:
  assumes "tag_run get key_of es1 (no_lookups, w0) = Some (v1, w1)"
    and "tag_run get key_of (Ask ref platform # es2) (v1, w1) = Some (v2, w2)"
    and "(lk_called v1, r) \<in> set (lk_results v2)"
  shows "\<exists>es3 e es4 v w fl. es2 = es3 @ e # es4 \<and>
    tag_run get key_of (es1 @ Ask ref platform # es3) (no_lookups, w0) = Some (v, w) \<and>
    map_of (lk_flights v) (key_of ref platform) = Some fl \<and>
    (e = Deliver (key_of ref platform) \<and>
       (\<exists>before since v' w' fl'. es1 @ Ask ref platform # es3 = before @ Respond (key_of ref platform) # since \<and>
          Deliver (key_of ref platform) \<notin> set since \<and> Cancel (key_of ref platform) \<notin> set since \<and>
          tag_run get key_of before (no_lookups, w0) = Some (v', w') \<and>
          map_of (lk_flights v') (key_of ref platform) = Some fl' \<and>
          key_of (tf_ref fl') (tf_platform fl') = key_of ref platform \<and>
          r = fst (ResolveDigestAndPlatforms get (tf_ref fl') (tf_platform fl') w')) \<or>
     e = Cancel (key_of ref platform) \<and> r = canceled \<and> tf_leader fl \<in> set (lk_interrupted v) \<and>
     (tf_leader fl, key_of ref platform) \<in> set (lk_waiting v))"
proof -
  let ?key = "key_of ref platform"
  note ok = tag_run_ok [OF assms(1)]
  note out = call_outcome [THEN conjunct2, THEN conjunct2, THEN conjunct2, THEN spec, THEN mp, OF ok assms(2,3)]
  then obtain es3 e es4 v w fl where run: "es2 = es3 @ e # es4"
    "tag_run get key_of (Ask ref platform # es3) (v1, w1) = Some (v, w)" "map_of (lk_flights v) ?key = Some fl"
    "e = Deliver ?key \<and> tf_answer fl = Some r \<or> e = Cancel ?key \<and> tf_leader fl \<in> set (lk_interrupted v) \<and> r = canceled"
    by (elim exE conjE) (rule that)
  have "lookups_ok key_of v" using call_outcome [OF ok run(2)] by blast
  note fl = lookups_okD(1,2) [OF this run(3)]
  have whole: "tag_run get key_of (es1 @ Ask ref platform # es3) (no_lookups, w0) = Some (v, w)"
    using assms(1) run(2) by (simp add: tag_run_append)
  note answered = flight_answered [OF whole run(3), of r, unfolded answered_in_def]
  have lands: "e = Deliver ?key \<and>
       (\<exists>before since v' w' fl'. es1 @ Ask ref platform # es3 = before @ Respond ?key # since \<and>
          Deliver ?key \<notin> set since \<and> Cancel ?key \<notin> set since \<and>
          tag_run get key_of before (no_lookups, w0) = Some (v', w') \<and> map_of (lk_flights v') ?key = Some fl' \<and>
          key_of (tf_ref fl') (tf_platform fl') = ?key \<and>
          r = fst (ResolveDigestAndPlatforms get (tf_ref fl') (tf_platform fl') w')) \<or>
     e = Cancel ?key \<and> r = canceled \<and> tf_leader fl \<in> set (lk_interrupted v) \<and> (tf_leader fl, ?key) \<in> set (lk_waiting v)"
    using run(4) answered fl(2) by blast
  show ?thesis using run(1) whole run(3) lands by (intro exI conjI)
qed

text \<open>C21. An interrupted lookup fails the others: the flight runs with the context of the call that
  started it, so when that call is interrupted, every call that waits on the flight can get the
  error of its context, although it was not interrupted itself and the registry, asked in the
  same world, would give it its answer, or has given it already.\<close>

theorem interrupt_fails_others:
  assumes "tag_run get key_of es (no_lookups, w0) = Some (v, w)" "(c, key) \<in> set (lk_waiting v)"
  shows "\<exists>fl v1 v2 w2. map_of (lk_flights v) key = Some fl \<and> key_of (tf_ref fl) (tf_platform fl) = key \<and>
    tag_run get key_of [Interrupt (tf_leader fl), Cancel key] (v, w) = Some (v1, w) \<and> (c, canceled) \<in> set (lk_results v1) \<and>
    (case tf_answer fl of
       None \<Rightarrow> tag_run get key_of [Respond key, Deliver key] (v, w) = Some (v2, w2) \<and>
         (c, fst (ResolveDigestAndPlatforms get (tf_ref fl) (tf_platform fl) w)) \<in> set (lk_results v2)
     | Some r \<Rightarrow> tag_run get key_of [Deliver key] (v, w) = Some (v2, w2) \<and> (c, r) \<in> set (lk_results v2))"
proof -
  note ok = tag_run_ok [OF assms(1)]
  obtain fl where fl: "map_of (lk_flights v) key = Some fl" using lookups_okD(3) [OF ok assms(2)] by blast
  note leader = lookups_okD(1,2) [OF ok fl]
  then have "tf_leader fl \<in> fst ` set (lk_waiting v)" by force
  then have run: "tag_run get key_of [Interrupt (tf_leader fl), Cancel key] (v, w) =
      Some (land_tag key canceled (v\<lparr>lk_interrupted := tf_leader fl # lk_interrupted v\<rparr>), w)"
    using fl by simp
  have lands: "(c, r) \<in> set (lk_results (land_tag key r u))" if "lk_waiting u = lk_waiting v" for r u
    using tags.land_result [of c key u r] assms(2) that by simp
  obtain r w2 where r: "ResolveDigestAndPlatforms get (tf_ref fl) (tf_platform fl) w = (r, w2)" by force
  have "\<exists>v2 w2. case tf_answer fl of
       None \<Rightarrow> tag_run get key_of [Respond key, Deliver key] (v, w) = Some (v2, w2) \<and>
         (c, fst (ResolveDigestAndPlatforms get (tf_ref fl) (tf_platform fl) w)) \<in> set (lk_results v2)
     | Some r \<Rightarrow> tag_run get key_of [Deliver key] (v, w) = Some (v2, w2) \<and> (c, r) \<in> set (lk_results v2)"
  proof (cases "tf_answer fl")
    case None
    then have "tag_run get key_of [Respond key, Deliver key] (v, w) = Some (land_tag key r (set_answer key fl r v), w2)"
      using fl r by (simp add: set_answer_flights)
    then show ?thesis using None r lands [of "set_answer key fl r v" r] by (simp add: set_answer_flights)
  next
    case (Some q)
    then have "tag_run get key_of [Deliver key] (v, w) = Some (land_tag key q v, w)" using fl by simp
    then show ?thesis using Some lands [of v q] by simp
  qed
  then show ?thesis
    using fl leader(1) run lands [of "v\<lparr>lk_interrupted := tf_leader fl # lk_interrupted v\<rparr>" canceled] by fastforce
qed

section \<open>Witnesses\<close>

text \<open>A registry that numbers its answers, and two users who look up one tag.\<close>

definition demo_tag :: reference where
  "demo_tag = RefTag \<lparr>repo_scheme = ''https'', repo_registry = ''ghcr.io'', repo_path = ''a/b''\<rparr> ''latest''"

definition demo_get :: "reference \<Rightarrow> platform \<Rightarrow> nat \<Rightarrow> (string + remote_desc) \<times> nat" where
  "demo_get ref platform n =
     (Inr \<lparr>rd_is_index = False, rd_digest = \<lparr>hash_algorithm = ''sha256'', hash_hex = replicate n (CHR ''a'')\<rparr>,
           rd_manifests = Inr []\<rparr>, Suc n)"

definition demo_key :: "reference \<Rightarrow> platform \<Rightarrow> string" where
  "demo_key = flight_key (\<lambda>_. ''ghcr.io/a/b:latest'') (\<lambda>_. ''linux/amd64'')"

text \<open>The second user joins after the registry has answered the first: both get the answer that was given
  in the world before.\<close>

theorem lookup_answer_recent_witness:
  "\<exists>v2 r. tag_run demo_get demo_key [Ask demo_tag DefaultPlatform, Respond (demo_key demo_tag DefaultPlatform),
       Ask demo_tag DefaultPlatform, Deliver (demo_key demo_tag DefaultPlatform)] (no_lookups, 5) = Some (v2, 6) \<and>
     (1, r) \<in> set (lk_results v2) \<and> (\<exists>fl :: tag_flight. r = fst (ResolveDigestAndPlatforms demo_get (tf_ref fl) (tf_platform fl) 5))"
proof -
  let ?key = "demo_key demo_tag DefaultPlatform"
  let ?es1 = "[Ask demo_tag DefaultPlatform, Respond ?key]"
  obtain v1 where one: "tag_run demo_get demo_key ?es1 (no_lookups, 5) = Some (v1, 6)" "lk_called v1 = 1"
    "\<exists>r. tag_run demo_get demo_key (Ask demo_tag DefaultPlatform # [Deliver ?key]) (v1, 6) = Some (land_tag ?key r (ask demo_key demo_tag DefaultPlatform v1), 6) \<and>
      (1, r) \<in> set (lk_results (land_tag ?key r (ask demo_key demo_tag DefaultPlatform v1)))"
    by (simp add: ask_def no_lookups_def Let_def land_tag_def set_answer_def ResolveDigestAndPlatforms_def demo_get_def image_iff)
  then obtain v2 r where run: "tag_run demo_get demo_key (Ask demo_tag DefaultPlatform # [Deliver ?key]) (v1, 6) = Some (v2, 6)"
    "(lk_called v1, r) \<in> set (lk_results v2)" by auto
  from lookup_answer_recent [OF one(1) run] obtain es3 e es4 before since v' w' and fl' :: tag_flight where s: "[Deliver ?key] = es3 @ e # es4"
    "e = Deliver ?key \<longrightarrow> ?es1 @ Ask demo_tag DefaultPlatform # es3 = before @ Respond ?key # since \<and>
       tag_run demo_get demo_key before (no_lookups, 5) = Some (v', w') \<and>
       r = fst (ResolveDigestAndPlatforms demo_get (tf_ref fl') (tf_platform fl') w')"
    by (elim exE conjE disjE) (force+)
  have "es3 = []" "e = Deliver ?key" using s(1) by (simp_all add: Cons_eq_append_conv)
  then have b: "[Ask demo_tag DefaultPlatform, Respond ?key, Ask demo_tag DefaultPlatform] = before @ Respond ?key # since"
    "tag_run demo_get demo_key before (no_lookups, 5) = Some (v', w')"
    "r = fst (ResolveDigestAndPlatforms demo_get (tf_ref fl') (tf_platform fl') w')"
    using s(2) by simp_all
  have "before = [Ask demo_tag DefaultPlatform]" using b(1) by (auto simp: Cons_eq_append_conv)
  then have "w' = 5" using b(2) by simp
  moreover have "tag_run demo_get demo_key (?es1 @ [Ask demo_tag DefaultPlatform, Deliver ?key]) (no_lookups, 5) = Some (v2, 6)"
    using one(1) run(1) by (simp only: tag_run_append) simp
  ultimately show ?thesis using run(2) one(2) b(3) by auto
qed

theorem interrupt_fails_others_witness:
  "\<exists>v v1. tag_run demo_get demo_key [Ask demo_tag DefaultPlatform, Ask demo_tag DefaultPlatform] (no_lookups, 5) = Some (v, 5) \<and>
     tag_run demo_get demo_key [Interrupt 0, Cancel (demo_key demo_tag DefaultPlatform)] (v, 5) = Some (v1, 5) \<and>
     (1, canceled) \<in> set (lk_results v1)"
proof -
  let ?key = "demo_key demo_tag DefaultPlatform"
  obtain v where v: "tag_run demo_get demo_key [Ask demo_tag DefaultPlatform, Ask demo_tag DefaultPlatform] (no_lookups, 5) = Some (v, 5)"
    "(1, ?key) \<in> set (lk_waiting v)" "\<forall>fl. map_of (lk_flights v) ?key = Some fl \<longrightarrow> tf_leader fl = 0"
    by (simp add: ask_def no_lookups_def Let_def)
  from interrupt_fails_others [OF v(1,2)] v(3) obtain v1 where
    "tag_run demo_get demo_key [Interrupt 0, Cancel ?key] (v, 5) = Some (v1, 5)" "(1, canceled) \<in> set (lk_results v1)"
    by metis
  then show ?thesis using v(1) by blast
qed

end
