(* ===== verification/Spec2Isabelle.thy ===== *)
theory Spec2Isabelle
  imports Merge_Props FsPath_Props ChunkCache_Props Transport_Props Mount_Props Image_Walk Remount Resolve_Props Registry_Props Startup_Props Process Disk_Runs Restart Serve_Props Tag_Lookups
begin

text \<open>
  A verification library for ocifuse, the read-only FUSE driver that mounts OCI images.

  \<^bold>\<open>The program.\<close>  A path below the mount point is \<open>registry/repo.../ref/path-in-image\<close>.  The kernel
  asks for one segment after the other; \<open>internal/mount/mount.go\<close> accumulates them and lets
  \<open>internal/fspath/parse.go\<close> decide where the reference ends.  A tag becomes a symlink to the digest
  that \<open>internal/oci/oci.go\<close> picks for the platform; a digest becomes the root directory of an
  image.  To resolve an image its layers are opened by \<open>internal/layer/layer.go\<close>, which scans a
  layer once and keeps the indexes in the disk cache of \<open>internal/cache/cache.go\<close>, and reads
  compressed bytes through the chunk cache of \<open>internal/layer/chunkcache.go\<close>; the entry lists of the
  layers are merged by \<open>internal/merge/merge.go\<close>.  Manifests and configurations pass through the
  caching transport of \<open>internal/oci/transport.go\<close>, which uses the same disk cache.
  \<open>internal/mount/meta.go\<close> adds the \<open>@@meta\<close> directories, and \<open>cmd/ocifuse/main.go\<close> puts everything
  together.

  \<^bold>\<open>The theories.\<close>  Each component has a theory of definitions, named after the Go functions they
  translate, and theories of lemmas; the theory that ends in \<open>Props\<close> states its properties.

  \<^item> Prelude, Go_Strings, Go_Path, Go_Sort, Go_Base: lists and maps, and the parts of Go's \<open>strings\<close>,
    \<open>path\<close>, \<open>sort\<close>, slices, readers and \<open>int64\<close> arithmetic that the program uses.  A sorting
    function is a parameter with the contract of \<open>sort.Slice\<close> (locale \<open>slice_sorter\<close>, interpreted on
    insertion sort).
  \<^item> Tar, Oci_Types, Os_Disk: tar headers and index entries, platforms and digests, and the file
    system calls of the disk cache, the reading of an opened file among them.  Any call may fail, in any pattern.
  \<^item> Merge (\<open>merge.go\<close>: \<open>Merge\<close>, \<open>LayerTree\<close>, \<open>applyLayer\<close>, \<open>synthesizeParents\<close>, \<open>deleteSubtree\<close>,
    \<open>deleteChildren\<close>, \<open>Tree.Get\<close>, \<open>Tree.Children\<close>); Merge_Tree abstracts a tree to a map from segment
    lists to entries, Merge_Links its listings, Whiteouts the markers; Image_Tree is the interface
    of a tree to its clients (locale \<open>image_tree\<close>, interpreted on merged trees and on raw layers);
    Merge_Props shows that the merge is the overlay of the image specification (\<open>overlay_image\<close> in Whiteouts,
    defined layer by layer without reference to the code: an entry hides what is below it when it is not a
    directory) for good images: markers sort in front of the entries they reach, no layer has two entries for a path, and
    no layer turns a directory into a file or a file into a directory without a marker (\<open>good_image\<close>).
    \<open>own_entry_lost\<close> and \<open>file_over_directory_keeps_children\<close> show that the code does not implement the
    specification without the first and the last of these.
  \<^item> FsPath (\<open>parse.go\<close>), FsPath_Props: which segment bears the reference and what \<open>Parse\<close> returns.
  \<^item> ChunkCache (\<open>chunkcache.go\<close>), Lru_Spec (recency lists, and the interface of a cache to readers
    through it, locale \<open>caching\<close>), ChunkCache_Lru (the cache implements the recency list),
    ChunkCache_Read, ChunkCache_Requests (what \<open>ReadAt\<close> returns and requests), ChunkCache_Steps
    (interleaved fetches as a step relation), ChunkCache_Props.
  \<^item> Disk_Cache (\<open>cache.go\<close>), Disk_Effects, Disk_Props: writes are all or nothing; without other writes beside
    them they keep the byte count exact; eviction without failures is least recently used; the disk cache interprets \<open>caching\<close> as well.
  \<^item> Disk_Steps (\<open>cache.go\<close> again: \<open>Write\<close>, \<open>evict\<close>, \<open>Open\<close>, \<open>Has\<close> as goroutines that take one system call, one
    write of the callback or one locked section at a time), Disk_Steps_Props (the invariant of every
    interleaving: values are whole and stay), Disk_Runs (the mutex, the end of every run, a write alone is
    \<open>cache_write\<close>, and eviction against the temporary files of others).
  \<^item> Transport (\<open>transport.go\<close>), Transport_Props: which requests are answered from the disk, and that
    an answer is the content of the digest.
  \<^item> Oci (\<open>oci.go\<close>: \<open>ResolveDigestAndPlatforms\<close>, \<open>ResolveDigest\<close>, \<open>BlobURL\<close>, \<open>imageFromIndex\<close>): the choice of a
    manifest, the URL of a blob.
  \<^item> Registry (\<open>oci.go\<close>: \<open>SetCache\<close>, \<open>buildTransport\<close>, \<open>Resolve\<close>), Registry_Props: transports stacked on
    the caching one, and that a pull by digest yields the content of the digest.
  \<^item> Layer, Indexer (\<open>layer.go\<close>), Indexer_Props: index files are genuine whatever fails; genuine
    indexes load.
  \<^item> Mount (\<open>mount.go\<close>), Meta (\<open>meta.go\<close>), Mount_Lemmas, Mount_Props: nodes, lookups and listings, the
    image cache, the walk from the root.  The kernel's view of an image is the inductive predicate
    \<open>image_node\<close>: the nodes that lookups reach from the root.  Image_Walk composes lookups with the
    merge: what a user finds at a path is the overlay of the layers, and what a read of it returns
    are the bytes of its layer; the walk is proved once for directories over a tree (locale
    \<open>entry_walk\<close>, interpreted on the directories of an image and of a raw layer).
  \<^item> Singleflight: what the two groups of \<open>mount.go\<close> rely on (locale \<open>singleflight\<close>, interpreted on both):
    each call that has joined waits for a flight of its key or has one result.
  \<^item> Resolve_Steps (\<open>mount.go\<close>: \<open>resolveImage\<close> with the mutex \<open>f.mu\<close> and its singleflight group), Resolve_Props:
    concurrent resolutions as a step relation.  Taking the mutex, the look at the image map or the store into it, and
    releasing it on each branch are steps of their own, and so is joining a flight after the first look; the two properties
    are agreement and progress.  A call without company is the function \<open>resolve_image\<close> of Mount.
  \<^item> Tag_Lookups (\<open>mount.go\<close>: \<open>resolveTagDigest\<close> with its singleflight group): concurrent tag lookups as
    executable events.  A flight first gets its answer from the registry (\<open>Respond\<close>) and lands later
    (\<open>Deliver\<close>); calls join at any time before it lands, and calls can be interrupted.  A call without company is
    \<open>ResolveDigestAndPlatforms\<close>.
  \<^item> Remount: the mount on top of the indexer, whose layers are opened again from the disk, for a cache without
    limit and calls that do not fail.
  \<^item> Startup (\<open>main.go\<close>), Startup_Props: sizes, the cache directory, what \<open>run\<close> builds.
  \<^item> Serve (\<open>main.go\<close>, \<open>mount.go: Mount\<close>), Serve_Props: the mount, the goroutine that unmounts at a
    signal, the wait for the server and the exit code, as executable events.
  \<^item> Process: everything on one disk cache.  The registry transport and the indexer are two clients of
    it that do not disturb each other (the keys of one are out of the reach of the other), and a
    session of lookups, in whatever order and whatever fails, shows what the registry publishes, as long as the registry
    serves content by digest at all times and the disk was genuine at the start.
  \<^item> Restart: the cache directory over the life of many processes (\<open>history\<close>).  A disk that was genuine
    once stays genuine, also when processes are killed while calls of the cache are under way, so
    every start of \<open>run\<close> finds what Process assumes.  The writes that can be under way are those of the code's
    data flow (\<open>program_write\<close>): an answer of the registry to a digest request, and the indexes of a scan at the URL
    of a blob.

  \<^bold>\<open>Conventions.\<close>  Structs are records, nodes and kinds are datatypes, Go maps are partial maps, or
  association lists where the order of a range loop could matter; strings and byte slices are
  character lists.  An operation on shared state takes and returns the state.  Errors are the left
  side of a sum, panics are \<open>None\<close> or the fault \<open>Panic\<close>.  In the functions, mutexes make
  the operations they guard atomic; where the code releases one in between, the operation is split (\<open>old_size\<close> and
  \<open>finish_write\<close>, \<open>has_indexes\<close> and \<open>load_indexes\<close>).  The step relations of the disk cache and of the resolution of images
  have the mutex in their state, so that a missing unlock would be a deadlock.  \<open>int64\<close> values are integers that are wrapped
  where an addition can leave the range; attributes are words of their width.  Floats in sizes are given by their rational
  value.

  \<^bold>\<open>Loops.\<close>  No definition needs fuel: loops are structural recursions or have a measure (the
  directories above a path, the length of the LRU list, the distance to the end of a read, the
  number that \<open>itoa\<close> prints).  \<open>itoa\<close> writes into 20 bytes, which suffice below $2^{63}$; the loop of
  \<open>ReadAt\<close> would panic on a chunk size of 0, which \<open>NewChunkCache\<close> excludes.  \<open>parents_loop_ends\<close> shows the
  loop over the parents as it is written, a while loop, to end for every key.
  A run of the goroutines of the cache ends by \<open>cache_calls_return\<close>: a step lowers the rank of its
  goroutine, so the multiset of ranks decreases.

  \<^bold>\<open>Parameters.\<close>  Code outside the repository is a parameter of the definitions that use it:
  \<open>name.ParseReference\<close>, \<open>v1.ParsePlatform\<close>, \<open>v1.NewHash\<close>, \<open>remote.Get\<close> and \<open>remote.Image\<close>, the wrapped
  \<open>http.RoundTripper\<close>, \<open>ranger\<close>, \<open>gsip\<close>, \<open>tarfs\<close> and the JSON codec (record \<open>targz\<close>).  What is assumed of them is
  named: readers return the bytes of their blob (\<open>honest\<close>) or file (\<open>reads_file\<close>), a registry serves content by digest
  (\<open>serves\<close>), a registry client uses the cache only through its transport and parses an image from the answer to
  the request for its manifest (\<open>client_ok\<close>), the registry answers a request for \<open>/v2/<name>/blobs/<digest>\<close> with bytes
  of that digest and for no other URL is anything assumed (\<open>serves_blobs\<close>), a scan of a reader of a blob gives the entries of
  its archive (\<open>scans_archive\<close>; \<open>published\<close> collects what Process assumes), codecs decode what they encoded (\<open>toc_codec\<close>, \<open>gsip_codec\<close>, \<open>decode_local\<close>, \<open>decodes\<close>), \<open>ParseFloat\<close> is exact
  on the decimal numbers that a \<open>float64\<close> represents (\<open>float_parser\<close>), \<open>os.CreateTemp\<close> does not draw a name twice (\<open>inj\<close> of \<open>dk_rand\<close>, where goroutines interleave).  The last argument of such a function is the world it acts on; a
  result that returns the world unchanged made no request.

  \<^bold>\<open>Where the code differs from its intent.\<close>  The theorems \<open>own_entry_lost\<close>,
  \<open>file_over_directory_keeps_children\<close>, \<open>short_read_serves_scratch\<close>, \<open>numeric_tag_is_registry\<close>,
  \<open>concurrent_write_drift\<close>, \<open>lookup_drops_permissions\<close>, \<open>variant_ignored\<close>, \<open>evicted_toc_is_error\<close>,
  \<open>oversized_limit_is_none\<close>, \<open>wrong_answer_sticks\<close>, \<open>key_leaves_cache\<close>, \<open>failed_unmount_deafens\<close>,
  \<open>interrupt_fails_others\<close>, \<open>hard_link_is_empty\<close> and \<open>eviction_fails_write\<close> each show a run in which the result is not the intended one.

  \<^bold>\<open>Not modelled.\<close>  The cancellation of an image resolution by its context, beyond that its flight may fail
  at any time; what a system call that is cut off by a crash of the
  machine leaves; the walk of \<open>evict\<close> while directories appear below it (it sees the files of its start); what go-fuse does with a reply; log messages; \<open>Unicode\<close> white space and case in sizes;
  the shell scripts and the tests.
\<close>

end
